(* ===== verification/Prelude.thy ===== *)
theory Prelude
  imports Main "HOL-Library.Sublist" "HOL-Library.List_Lexorder" "HOL-Library.Char_ord"
begin

text \<open>
  Shared vocabulary of the development: outcomes of Python code that can exit or raise, the
  combinators that compose such code in source order, and the named collections the component
  proofs draw on.

  A script of \<^verbatim>\<open>src/bin\<close> ends in one of three ways: it returns, it prints
  \<^verbatim>\<open>Error: message\<close> and exits with status 1 (every \<^verbatim>\<open>fail\<close> of the sources), or an
  exception escapes. The sum type \<open>'a res\<close> has the last two on its left side, so that every
  early exit of the source is a branch of the model.
\<close>

section \<open>Outcomes\<close>

datatype exc =
    KeyError string
  | ValueError string
  | IndexError
  | OverflowError
  | FileNotFoundError
  | ZeroDivisionError
  | RuntimeError string
  | TimeoutError string
  | AttributeError string
  | OSError string
  | CalledProcessError int
  | Unmodelled string \<comment> \<open>a corner of a library call that the model leaves out, see its use\<close>

datatype err = Exit string | Raise exc

type_synonym 'a res = "err + 'a"

definition quoted :: "string \<Rightarrow> string" where
  "quoted s = CHR 0x27 # s @ [CHR 0x27]"

named_theorems res_simps "rewriting of outcomes: what a successful run of composed code implies"
named_theorems rx_simps "evaluation of regular expressions on symbolic input"
named_theorems char_simps "character classes"
named_theorems line_simps "texts as lists of lines"

definition bindr :: "'a res \<Rightarrow> ('a \<Rightarrow> 'b res) \<Rightarrow> 'b res" where
  "bindr m k = (case m of Inl e \<Rightarrow> Inl e | Inr x \<Rightarrow> k x)"

text \<open>\<open>fail_if b msg k\<close> is \<^verbatim>\<open>if b: fail(msg)\<close> followed by the code \<open>k\<close>.\<close>

definition fail_if :: "bool \<Rightarrow> string \<Rightarrow> 'a res \<Rightarrow> 'a res" where
  "fail_if b msg k = (if b then Inl (Exit msg) else k)"

fun mapr :: "('a \<Rightarrow> 'b res) \<Rightarrow> 'a list \<Rightarrow> 'b list res" where
  "mapr f [] = Inr []"
| "mapr f (x # xs) = bindr (f x) (\<lambda>y. bindr (mapr f xs) (\<lambda>ys. Inr (y # ys)))"

text \<open>A \<^verbatim>\<open>for\<close> loop whose body only checks.\<close>

fun eachr :: "('a \<Rightarrow> unit res) \<Rightarrow> 'a list \<Rightarrow> unit res" where
  "eachr f [] = Inr ()"
| "eachr f (x # xs) = bindr (f x) (\<lambda>_. eachr f xs)"

lemma bindr_Inl [simp]: "bindr (Inl e) k = Inl e"
  by (simp add: bindr_def)

lemma bindr_Inr [simp]: "bindr (Inr x) k = k x"
  by (simp add: bindr_def)

lemma bindr_eq_Inr [res_simps]: "bindr m k = Inr y \<longleftrightarrow> (\<exists>x. m = Inr x \<and> k x = Inr y)"
  by (cases m) auto

lemma bindr_eq_Inl [res_simps]:
  "bindr m k = Inl e \<longleftrightarrow> m = Inl e \<or> (\<exists>x. m = Inr x \<and> k x = Inl e)"
  by (cases m) auto

lemma bindr_assoc: "bindr (bindr m f) g = bindr m (\<lambda>x. bindr (f x) g)"
  by (cases m) auto

lemma fail_if_True [simp]: "fail_if True msg k = Inl (Exit msg)"
  by (simp add: fail_if_def)

lemma fail_if_False [simp]: "fail_if False msg k = k"
  by (simp add: fail_if_def)

lemma fail_if_eq_Inr [res_simps]: "fail_if b msg k = Inr y \<longleftrightarrow> \<not> b \<and> k = Inr y"
  by (cases b) auto

lemma eachr_eq_Inr [res_simps]: "eachr f xs = Inr u \<longleftrightarrow> (\<forall>x\<in>set xs. f x = Inr ())"
  by (induction xs) (auto simp: bindr_eq_Inr)

lemma mapr_eq_Inr_length: "mapr f xs = Inr ys \<Longrightarrow> length ys = length xs"
  by (induction xs arbitrary: ys) (auto simp: bindr_eq_Inr)

lemma mapr_eq_Inr_nth: "mapr f xs = Inr ys \<Longrightarrow> i < length xs \<Longrightarrow> f (xs ! i) = Inr (ys ! i)"
proof (induction xs arbitrary: ys i)
  case (Cons x xs)
  then show ?case by (cases i) (auto simp: bindr_eq_Inr)
qed simp

lemma mapr_Inr [simp]: "mapr (\<lambda>x. Inr (f x)) xs = Inr (map f xs)"
  by (induction xs) auto

lemma mapr_eq_Inr_append [res_simps]:
  "mapr f (xs @ ys) = Inr zs \<longleftrightarrow> (\<exists>us vs. mapr f xs = Inr us \<and> mapr f ys = Inr vs \<and> zs = us @ vs)"
proof (induction xs arbitrary: zs)
  case (Cons x xs)
  then show ?case by (auto simp: bindr_eq_Inr)
qed simp

lemma mapr_total:
  assumes "\<And>x. x \<in> set xs \<Longrightarrow> (\<exists>y. f x = Inr y) \<or> (\<exists>e. f x = Inl e \<and> Q e)"
  shows "(\<exists>ys. mapr f xs = Inr ys) \<or> (\<exists>e. mapr f xs = Inl e \<and> Q e)"
  using assms
proof (induction xs)
  case (Cons x xs)
  then have "(\<exists>ys. mapr f xs = Inr ys) \<or> (\<exists>e. mapr f xs = Inl e \<and> Q e)" by simp
  with Cons.prems [of x] show ?case by auto
qed simp

lemma mapr_Inl: "mapr f xs = Inl e \<Longrightarrow> \<exists>x\<in>set xs. f x = Inl e"
  by (induction xs) (auto simp: res_simps)

lemma mapr_list_all2: "mapr f xs = Inr ys \<longleftrightarrow> list_all2 (\<lambda>x y. f x = Inr y) xs ys"
  by (induction xs arbitrary: ys) (auto simp: bindr_eq_Inr list_all2_Cons1)

lemma mapr_all: "mapr f xs = Inr ys \<Longrightarrow> (\<And>x y. x \<in> set xs \<Longrightarrow> f x = Inr y \<Longrightarrow> P y) \<Longrightarrow> list_all P ys"
proof (induction xs arbitrary: ys)
  case (Cons x xs)
  from Cons.prems(1) obtain y zs where "f x = Inr y" "mapr f xs = Inr zs" "ys = y # zs" by (auto simp: bindr_eq_Inr)
  moreover from Cons.prems(2) have "P y" using \<open>f x = Inr y\<close> by (meson list.set_intros(1))
  moreover have "list_all P zs" by (rule Cons.IH [OF \<open>mapr f xs = Inr zs\<close>]) (meson Cons.prems(2) list.set_intros(2))
  ultimately show ?case by simp
qed simp

lemma mapr_cong: "(\<And>x. x \<in> set xs \<Longrightarrow> f x = g x) \<Longrightarrow> mapr f xs = mapr g xs"
  by (induction xs) auto

lemma mapr_returns: "(\<And>x. x \<in> set xs \<Longrightarrow> \<exists>y. f x = Inr y) \<Longrightarrow> \<exists>ys. mapr f xs = Inr ys"
  using mapr_total [of xs f "\<lambda>_. False"] by blast

section \<open>Runs that print\<close>

text \<open>What a script has printed when it ends, and how it ends.\<close>

type_synonym run = "string list \<times> unit res"

definition emit :: "string list \<Rightarrow> run" where
  "emit ls = (ls, Inr ())"

definition run_res :: "'a res \<Rightarrow> ('a \<Rightarrow> run) \<Rightarrow> run" where
  "run_res m k = (case m of Inl e \<Rightarrow> ([], Inl e) | Inr x \<Rightarrow> k x)"

definition run_seq :: "run \<Rightarrow> run \<Rightarrow> run" where
  "run_seq p q =
     (case snd p of Inl e \<Rightarrow> p | Inr _ \<Rightarrow> (fst p @ fst q, snd q))"

fun run_each :: "('a \<Rightarrow> run) \<Rightarrow> 'a list \<Rightarrow> run" where
  "run_each f [] = ([], Inr ())"
| "run_each f (x # xs) = run_seq (f x) (run_each f xs)"

lemma emit_simps [simp]: "fst (emit ls) = ls" "snd (emit ls) = Inr ()"
  by (simp_all add: emit_def)

lemma run_res_simps [simp]: "run_res (Inl e) k = ([], Inl e)" "run_res (Inr x) k = k x"
  by (simp_all add: run_res_def)

lemma run_res_ok [res_simps]: "snd (run_res m k) = Inr u \<longleftrightarrow> (\<exists>x. m = Inr x \<and> snd (k x) = Inr u)"
  by (cases m) auto

lemma run_seq_ok [res_simps]: "snd (run_seq p q) = Inr u \<longleftrightarrow> snd p = Inr () \<and> snd q = Inr u"
  by (auto simp: run_seq_def split: sum.splits)

lemma run_seq_out: "snd p = Inr () \<Longrightarrow> fst (run_seq p q) = fst p @ fst q"
  by (simp add: run_seq_def)

lemma run_each_ok [res_simps]: "snd (run_each f xs) = Inr u \<longleftrightarrow> (\<forall>x\<in>set xs. snd (f x) = Inr ())"
  by (induction xs) (auto simp: run_seq_ok)

section \<open>Code that changes a state\<close>

text \<open>
  A step returns the state it leaves behind together with its outcome, also when it fails: what
  was written before an exit stays written.
\<close>

definition then_do :: "'p \<times> 'a res \<Rightarrow> ('a \<Rightarrow> 'p \<Rightarrow> 'p \<times> 'b res) \<Rightarrow> 'p \<times> 'b res" where
  "then_do m k = (case m of (p, Inl e) \<Rightarrow> (p, Inl e) | (p, Inr x) \<Rightarrow> k x p)"

text \<open>A step that only looks at the state.\<close>

definition look :: "('p \<Rightarrow> 'a res) \<Rightarrow> 'p \<Rightarrow> 'p \<times> 'a res" where
  "look f p = (p, f p)"

lemma then_do_simps [simp]: "then_do (p, Inl e) k = (p, Inl e)" "then_do (p, Inr x) k = k x p"
  by (simp_all add: then_do_def)

lemma then_do_ok [res_simps]:
  "then_do m k = (p', Inr y) \<longleftrightarrow> (\<exists>p x. m = (p, Inr x) \<and> k x p = (p', Inr y))"
  by (cases m; cases "snd m") auto

lemma then_do_fails [res_simps]:
  "then_do m k = (p', Inl e) \<longleftrightarrow> m = (p', Inl e) \<or> (\<exists>p x. m = (p, Inr x) \<and> k x p = (p', Inl e))"
  by (cases m; cases "snd m") auto

lemma look_eq [res_simps]: "look f p = (p', x) \<longleftrightarrow> p' = p \<and> f p = x"
  by (auto simp: look_def)

section \<open>Lists\<close>

lemma takeWhile_dropWhile_hd: "dropWhile P xs = y # ys \<Longrightarrow> \<not> P y"
  by (induction xs) (auto split: if_splits)

lemma dropWhile_takeWhile_all [simp]: "dropWhile P (takeWhile P xs) = []"
  by (induction xs) auto

lemma length_dropWhile_le_Suc: "length (dropWhile P xs) < Suc (length xs)"
  by (simp add: length_dropWhile_le less_Suc_eq_le)

lemma takeWhile_append_stop:
  "(\<And>x. x \<in> set xs \<Longrightarrow> P x) \<Longrightarrow> (ys = [] \<or> \<not> P (hd ys)) \<Longrightarrow> takeWhile P (xs @ ys) = xs"
  by (induction xs) (cases ys, auto)

lemma dropWhile_append_stop:
  "(\<And>x. x \<in> set xs \<Longrightarrow> P x) \<Longrightarrow> (ys = [] \<or> \<not> P (hd ys)) \<Longrightarrow> dropWhile P (xs @ ys) = ys"
  by (induction xs) (cases ys, auto)

lemma dropWhile_eq_self: "xs = [] \<or> \<not> P (hd xs) \<Longrightarrow> dropWhile P xs = xs"
  by (cases xs) auto

end
