(* ===== verification/Py_Str.thy ===== *)
theory Py_Str
  imports Prelude
begin

text \<open>
  The part of Python's \<^verbatim>\<open>str\<close> the scripts use, on texts over the code points 0 to 255
  (one \<open>char\<close> each). White space and line boundaries are those of \<^verbatim>\<open>str.isspace\<close> and
  \<^verbatim>\<open>str.splitlines\<close> in that range; word characters are those of \<^verbatim>\<open>\w\<close> in a Unicode
  pattern.
\<close>

section \<open>Character classes\<close>

definition code :: "char \<Rightarrow> nat" where
  "code c = of_char c"

definition is_space :: "char \<Rightarrow> bool" where
  "is_space c = (let n = code c in 9 \<le> n \<and> n \<le> 13 \<or> 28 \<le> n \<and> n \<le> 32 \<or> n = 133 \<or> n = 160)"

definition is_linebreak :: "char \<Rightarrow> bool" where
  "is_linebreak c = (let n = code c in 10 \<le> n \<and> n \<le> 13 \<or> 28 \<le> n \<and> n \<le> 30 \<or> n = 133)"

definition is_digit :: "char \<Rightarrow> bool" where
  "is_digit c = (let n = code c in 48 \<le> n \<and> n \<le> 57)"

definition is_lower :: "char \<Rightarrow> bool" where
  "is_lower c = (let n = code c in 97 \<le> n \<and> n \<le> 122)"

definition is_upper :: "char \<Rightarrow> bool" where
  "is_upper c = (let n = code c in 65 \<le> n \<and> n \<le> 90)"

definition is_alnum :: "char \<Rightarrow> bool" where
  "is_alnum c = (is_lower c \<or> is_upper c \<or> is_digit c)"

text \<open>The class \<^verbatim>\<open>[A-Za-z0-9_]\<close>, and the wider Unicode class \<^verbatim>\<open>\w\<close>.\<close>

definition is_key :: "char \<Rightarrow> bool" where
  "is_key c = (is_alnum c \<or> c = CHR ''_'')"

definition is_word :: "char \<Rightarrow> bool" where
  "is_word c = (let n = code c in is_key c \<or> n \<in> {170, 178, 179, 181, 185, 186, 188, 189, 190}
     \<or> 192 \<le> n \<and> n \<noteq> 215 \<and> n \<noteq> 247)"

abbreviation NL :: char where
  "NL \<equiv> CHR 0x0A"

abbreviation TAB :: char where
  "TAB \<equiv> CHR 0x09"

abbreviation SQ :: char where
  "SQ \<equiv> CHR 0x27"

abbreviation DQ :: char where
  "DQ \<equiv> CHR 0x22"

definition is_quote :: "char \<Rightarrow> bool" where
  "is_quote c = (c = SQ \<or> c = DQ)"

lemma code_inj [simp]: "code c = code d \<longleftrightarrow> c = d"
  by (simp add: code_def)

lemma code_eq_char: "(c = d) = (code c = code d)"
  by simp

lemmas class_defs = is_space_def is_linebreak_def is_digit_def is_lower_def is_upper_def
  is_alnum_def is_key_def is_word_def is_quote_def Let_def

lemma is_linebreak_space [char_simps]: "is_linebreak c \<Longrightarrow> is_space c"
  by (auto simp: class_defs)

lemma is_key_not_space [char_simps]: "is_key c \<Longrightarrow> \<not> is_space c"
  by (auto simp: class_defs code_eq_char code_def)

lemma is_digit_key [char_simps]: "is_digit c \<Longrightarrow> is_key c"
  by (simp add: is_key_def is_alnum_def)

lemma is_lower_key [char_simps]: "is_lower c \<Longrightarrow> is_key c"
  by (simp add: is_key_def is_alnum_def)

lemma is_key_word [char_simps]: "is_key c \<Longrightarrow> is_word c"
  by (simp add: is_word_def Let_def)

lemma space_not_word: "is_space c \<Longrightarrow> \<not> is_word c"
  by (auto simp: class_defs code_eq_char code_def)

lemma not_key_punct [simp]:
  "\<not> is_key CHR '':''" "\<not> is_key CHR ''-''" "\<not> is_key CHR ''#''" "\<not> is_key CHR '' ''"
  "\<not> is_key NL" "\<not> is_key SQ" "\<not> is_key DQ" "\<not> is_key CHR ''.''" "\<not> is_key CHR ''[''"
  by (simp_all add: class_defs code_def)

lemma not_space_punct [simp]:
  "\<not> is_space CHR '':''" "\<not> is_space CHR ''-''" "\<not> is_space CHR ''#''" "\<not> is_space SQ"
  "\<not> is_space DQ" "\<not> is_space CHR ''[''" "\<not> is_space CHR '']''" "\<not> is_space CHR '',''"
  by (simp_all add: class_defs code_def)

lemma space_blank [simp]: "is_space CHR '' ''" "is_space NL" "is_linebreak NL" "\<not> is_linebreak CHR '' ''"
  "\<not> is_linebreak CHR '':''" "\<not> is_linebreak CHR ''-''"
  by (simp_all add: class_defs code_def)

lemma is_key_not_linebreak [char_simps]: "is_key c \<Longrightarrow> \<not> is_linebreak c"
  using is_key_not_space is_linebreak_space by blast

text \<open>The classes on the bits of a character, for evaluation.\<close>

lemma code_Char: "code (Char b0 b1 b2 b3 b4 b5 b6 b7) = of_bool b0 + 2 * of_bool b1 + 4 * of_bool b2 + 8 * of_bool b3 +
   16 * of_bool b4 + 32 * of_bool b5 + 64 * of_bool b6 + 128 * of_bool b7"
  by (simp add: code_def of_char_def)

lemma is_digit_bits [code]: "is_digit (Char b0 b1 b2 b3 b4 b5 b6 b7) \<longleftrightarrow>
    \<not> b7 \<and> \<not> b6 \<and> b5 \<and> b4 \<and> (b3 \<longrightarrow> \<not> b2 \<and> \<not> b1)"
  by (cases b7; cases b6; cases b5; cases b4; cases b3; cases b2; cases b1; cases b0) (simp_all add: is_digit_def code_Char)

lemma is_space_bits [code]: "is_space (Char b0 b1 b2 b3 b4 b5 b6 b7) \<longleftrightarrow>
    (if b7 then \<not> b6 \<and> (if b5 then \<not> b4 \<and> \<not> b3 \<and> \<not> b2 \<and> \<not> b1 \<and> \<not> b0 else \<not> b4 \<and> \<not> b3 \<and> b2 \<and> \<not> b1 \<and> b0)
     else \<not> b6 \<and> (if b5 then \<not> b4 \<and> \<not> b3 \<and> \<not> b2 \<and> \<not> b1 \<and> \<not> b0
        else if b4 then b3 \<and> b2 else b3 \<and> \<not> (b2 \<and> b1) \<and> (b2 \<or> b1 \<or> b0)))"
  by (cases b7; cases b6; cases b5; cases b4; cases b3; cases b2; cases b1; cases b0) (simp_all add: is_space_def Let_def code_Char)

lemma is_linebreak_bits [code]: "is_linebreak (Char b0 b1 b2 b3 b4 b5 b6 b7) \<longleftrightarrow>
    (if b7 then \<not> b6 \<and> \<not> b5 \<and> \<not> b4 \<and> \<not> b3 \<and> b2 \<and> \<not> b1 \<and> b0
     else \<not> b6 \<and> \<not> b5 \<and> b3 \<and> (if b4 then b2 \<and> \<not> (b1 \<and> b0) else b2 \<noteq> b1))"
  by (cases b7; cases b6; cases b5; cases b4; cases b3; cases b2; cases b1; cases b0) (simp_all add: is_linebreak_def Let_def code_Char)

lemma is_lower_bits [code]: "is_lower (Char b0 b1 b2 b3 b4 b5 b6 b7) \<longleftrightarrow>
    \<not> b7 \<and> b6 \<and> b5 \<and> (b4 \<or> b3 \<or> b2 \<or> b1 \<or> b0) \<and> \<not> (b4 \<and> b3 \<and> (b2 \<or> b1 \<and> b0))"
  by (cases b7; cases b6; cases b5; cases b4; cases b3; cases b2; cases b1; cases b0) (simp_all add: is_lower_def Let_def code_Char)

lemma is_upper_bits [code]: "is_upper (Char b0 b1 b2 b3 b4 b5 b6 b7) \<longleftrightarrow>
    \<not> b7 \<and> b6 \<and> \<not> b5 \<and> (b4 \<or> b3 \<or> b2 \<or> b1 \<or> b0) \<and> \<not> (b4 \<and> b3 \<and> (b2 \<or> b1 \<and> b0))"
  by (cases b7; cases b6; cases b5; cases b4; cases b3; cases b2; cases b1; cases b0) (simp_all add: is_upper_def Let_def code_Char)

section \<open>Case\<close>

text \<open>\<^verbatim>\<open>lower\<close> on the letters of ASCII and Latin-1, and \<^verbatim>\<open>capitalize\<close> on ASCII texts.\<close>

definition py_lower :: "string \<Rightarrow> string" where
  "py_lower s = map (\<lambda>c. if is_upper c \<or> 192 \<le> code c \<and> code c \<le> 222 \<and> code c \<noteq> 215
     then char_of (code c + 32) else c) s"

definition upper_char :: "char \<Rightarrow> char" where
  "upper_char c = (if is_lower c then char_of (code c - 32) else c)"

fun capitalize :: "string \<Rightarrow> string" where
  "capitalize [] = []"
| "capitalize (c # cs) = upper_char c # py_lower cs"

section \<open>Stripping\<close>

definition lstrip_by :: "(char \<Rightarrow> bool) \<Rightarrow> string \<Rightarrow> string" where
  "lstrip_by P s = dropWhile P s"

definition rstrip_by :: "(char \<Rightarrow> bool) \<Rightarrow> string \<Rightarrow> string" where
  "rstrip_by P s = rev (dropWhile P (rev s))"

definition strip_by :: "(char \<Rightarrow> bool) \<Rightarrow> string \<Rightarrow> string" where
  "strip_by P s = rstrip_by P (lstrip_by P s)"

abbreviation strip :: "string \<Rightarrow> string" where
  "strip \<equiv> strip_by is_space"

abbreviation strip_quotes :: "string \<Rightarrow> string" where
  "strip_quotes \<equiv> strip_by is_quote"

definition indent_of :: "string \<Rightarrow> nat" where
  "indent_of line = length line - length (lstrip_by is_space line)"

lemma rstrip_by_snoc [simp]:
  "rstrip_by P (s @ [c]) = (if P c then rstrip_by P s else s @ [c])"
  by (simp add: rstrip_by_def)

lemma rstrip_by_Nil [simp]: "rstrip_by P [] = []" "lstrip_by P [] = []" "strip_by P [] = []"
  by (simp_all add: rstrip_by_def lstrip_by_def strip_by_def)

lemma rstrip_by_prefix: "\<exists>t. s = rstrip_by P s @ t \<and> (\<forall>c\<in>set t. P c)"
proof -
  have "rev s = takeWhile P (rev s) @ dropWhile P (rev s)" by simp
  then have "s = rev (dropWhile P (rev s)) @ rev (takeWhile P (rev s))"
    by (metis rev_append rev_rev_ident)
  then show ?thesis unfolding rstrip_by_def by (metis set_rev set_takeWhileD)
qed

lemma rstrip_by_last: "rstrip_by P s \<noteq> [] \<Longrightarrow> \<not> P (last (rstrip_by P s))"
  by (simp add: rstrip_by_def last_rev hd_dropWhile)

lemma rstrip_by_self: "s = [] \<or> \<not> P (last s) \<Longrightarrow> rstrip_by P s = s"
  by (cases s rule: rev_cases) auto

lemma lstrip_by_self: "s = [] \<or> \<not> P (hd s) \<Longrightarrow> lstrip_by P s = s"
  by (simp add: lstrip_by_def dropWhile_eq_self)

lemma rstrip_by_eq_Nil: "rstrip_by P s = [] \<longleftrightarrow> (\<forall>c\<in>set s. P c)"
  by (simp add: rstrip_by_def)

lemma rstrip_by_append_all: "(\<forall>c\<in>set t. P c) \<Longrightarrow> rstrip_by P (s @ t) = rstrip_by P s"
  by (auto simp: rstrip_by_def intro: dropWhile_append2)

lemma set_strip_by: "set (strip_by P s) \<subseteq> set s"
proof
  fix c assume "c \<in> set (strip_by P s)"
  then have "c \<in> set (rev (dropWhile P s))"
    unfolding strip_by_def rstrip_by_def lstrip_by_def by (metis set_rev set_dropWhileD)
  then show "c \<in> set s" by (auto dest: set_dropWhileD)
qed

lemma strip_by_self: "s = [] \<or> \<not> P (hd s) \<and> \<not> P (last s) \<Longrightarrow> strip_by P s = s"
  by (auto simp: strip_by_def lstrip_by_self rstrip_by_self)

lemma hd_rstrip_by: "rstrip_by P s \<noteq> [] \<Longrightarrow> hd (rstrip_by P s) = hd s"
  using rstrip_by_prefix [of s P] by (metis hd_append2)

lemma strip_by_ends:
  assumes "strip_by P s \<noteq> []"
  shows "\<not> P (hd (strip_by P s))" and "\<not> P (last (strip_by P s))"
proof -
  have ne: "lstrip_by P s \<noteq> []" using assms by (auto simp: strip_by_def)
  then have "\<not> P (hd (lstrip_by P s))" by (simp add: lstrip_by_def hd_dropWhile)
  then show "\<not> P (hd (strip_by P s))"
    using assms by (simp add: strip_by_def hd_rstrip_by)
  show "\<not> P (last (strip_by P s))"
    using assms rstrip_by_last by (simp add: strip_by_def)
qed

lemma strip_by_idem [simp]: "strip_by P (strip_by P s) = strip_by P s"
  by (metis strip_by_ends strip_by_self)

lemma strip_by_append_all_left: "(\<forall>c\<in>set t. P c) \<Longrightarrow> strip_by P (t @ s) = strip_by P s"
  by (simp add: strip_by_def lstrip_by_def)

lemma strip_by_eq_Nil: "strip_by P s = [] \<longleftrightarrow> (\<forall>c\<in>set s. P c)"
proof
  assume "strip_by P s = []"
  then have "\<forall>c\<in>set (lstrip_by P s). P c" by (simp add: strip_by_def rstrip_by_eq_Nil)
  then have "lstrip_by P s = []" unfolding lstrip_by_def
    by (metis hd_dropWhile list.set_sel(1))
  then show "\<forall>c\<in>set s. P c" by (simp add: lstrip_by_def)
qed (simp add: strip_by_def lstrip_by_def dropWhile_eq_Nil_conv [THEN iffD2])

section \<open>Lines\<close>

text \<open>\<^verbatim>\<open>str.splitlines\<close>: a line ends at a line boundary, which is dropped; CR LF is one boundary.\<close>

fun splitlines :: "string \<Rightarrow> string list" where
  "splitlines [] = []"
| "splitlines (c # s) =
     (if c = CHR 0x0D \<and> s \<noteq> [] \<and> hd s = NL then [] # splitlines (tl s)
      else if is_linebreak c then [] # splitlines s
      else (case splitlines s of [] \<Rightarrow> [[c]] | l # ls \<Rightarrow> (c # l) # ls))"

text \<open>A text that consists of the given lines, each ended by a newline.\<close>

definition unlines :: "string list \<Rightarrow> string" where
  "unlines ls = concat (map (\<lambda>l. l @ [NL]) ls)"

definition one_line :: "string \<Rightarrow> bool" where
  "one_line l = list_all (\<lambda>c. \<not> is_linebreak c) l"

fun join :: "string \<Rightarrow> string list \<Rightarrow> string" where
  "join sep [] = []"
| "join sep [x] = x"
| "join sep (x # y # xs) = x @ sep @ join sep (y # xs)"

lemma one_line_Nil [simp]: "one_line []"
  by (simp add: one_line_def)

lemma one_line_Cons [simp]: "one_line (c # s) \<longleftrightarrow> \<not> is_linebreak c \<and> one_line s"
  by (simp add: one_line_def)

lemma one_line_append [simp]: "one_line (s @ t) \<longleftrightarrow> one_line s \<and> one_line t"
  by (simp add: one_line_def)

lemma one_line_replicate_blank [simp]: "one_line (replicate n CHR '' '')"
  by (induction n) auto

lemma one_line_keys: "list_all is_key s \<Longrightarrow> one_line s"
  by (auto simp: one_line_def list_all_iff char_simps)

lemma one_line_no_NL: "one_line l \<Longrightarrow> NL \<notin> set l"
  by (auto simp: one_line_def list_all_iff)

lemma cr_is_linebreak [simp]: "is_linebreak (CHR 0x0D)"
  by (simp add: class_defs code_def)

lemma splitlines_line [line_simps]: "one_line l \<Longrightarrow> splitlines (l @ NL # s) = l # splitlines s"
  by (induction l) auto

lemma splitlines_single: "one_line l \<Longrightarrow> l \<noteq> [] \<Longrightarrow> splitlines l = [l]"
proof (induction l)
  case (Cons c l)
  then show ?case by (cases l) auto
qed simp

lemma splitlines_one_line: "l \<in> set (splitlines s) \<Longrightarrow> one_line l"
proof (induction s arbitrary: l rule: splitlines.induct)
  case (2 c s)
  then show ?case by (auto split: if_splits list.splits)
qed simp

lemma unlines_Nil [simp]: "unlines [] = []"
  by (simp add: unlines_def)

lemma unlines_Cons [simp]: "unlines (l # ls) = l @ NL # unlines ls"
  by (simp add: unlines_def)

lemma unlines_append [simp]: "unlines (ls @ ms) = unlines ls @ unlines ms"
  by (simp add: unlines_def)

lemma splitlines_unlines_append [line_simps]:
  "list_all one_line ls \<Longrightarrow> splitlines (unlines ls @ s) = ls @ splitlines s"
  by (induction ls) (auto simp: splitlines_line)

lemma splitlines_unlines [line_simps]: "list_all one_line ls \<Longrightarrow> splitlines (unlines ls) = ls"
  using splitlines_unlines_append [of ls "[]"] by simp

lemma splitlines_idem: "splitlines (unlines (splitlines s)) = splitlines s"
  by (rule splitlines_unlines) (simp add: list_all_iff splitlines_one_line)

lemma join_NL_unlines: "ls \<noteq> [] \<Longrightarrow> join [NL] ls @ [NL] = unlines ls"
  by (induction "[NL]" ls rule: join.induct) auto

section \<open>Splitting, searching, replacing\<close>

text \<open>\<^verbatim>\<open>s.split(c)\<close> for a one-character separator, \<^verbatim>\<open>s.split()\<close>, and \<^verbatim>\<open>s.split(c, 1)[0]\<close>.\<close>

fun split_by :: "(char \<Rightarrow> bool) \<Rightarrow> string \<Rightarrow> string list" where
  "split_by P [] = [[]]"
| "split_by P (c # s) =
     (if P c then [] # split_by P s
      else (case split_by P s of [] \<Rightarrow> [[c]] | l # ls \<Rightarrow> (c # l) # ls))"

definition split_on :: "char \<Rightarrow> string \<Rightarrow> string list" where
  "split_on c = split_by ((=) c)"

definition split_ws :: "string \<Rightarrow> string list" where
  "split_ws s = filter (\<lambda>w. w \<noteq> []) (split_by is_space s)"

definition before_first :: "char \<Rightarrow> string \<Rightarrow> string" where
  "before_first c s = takeWhile ((\<noteq>) c) s"

fun find_sub :: "string \<Rightarrow> string \<Rightarrow> nat option" where
  "find_sub n [] = (if n = [] then Some 0 else None)"
| "find_sub n (c # s) = (if prefix n (c # s) then Some 0 else map_option Suc (find_sub n s))"

fun contains :: "string \<Rightarrow> string \<Rightarrow> bool" where
  "contains n [] = (n = [])"
| "contains n (c # s) = (prefix n (c # s) \<or> contains n s)"

text \<open>\<^verbatim>\<open>s.replace(old, new, 1)\<close>, and \<^verbatim>\<open>s.replace(old, new)\<close> for a non-empty \<open>old\<close>.\<close>

fun replace_first :: "string \<Rightarrow> string \<Rightarrow> string \<Rightarrow> string" where
  "replace_first old new [] = (if old = [] then new else [])"
| "replace_first old new (c # s) =
     (if prefix old (c # s) then new @ drop (length old) (c # s)
      else c # replace_first old new s)"

fun replace_all :: "string \<Rightarrow> string \<Rightarrow> string \<Rightarrow> string" where
  "replace_all old new [] = []"
| "replace_all old new (c # s) =
     (if old \<noteq> [] \<and> prefix old (c # s) then new @ replace_all old new (drop (length old - 1) s)
      else c # replace_all old new s)"

lemma split_by_nonempty [simp]: "split_by P s \<noteq> []"
  by (induction s) (auto split: list.splits)

lemma contains_iff: "contains n s \<longleftrightarrow> (\<exists>p q. s = p @ n @ q)"
proof (induction s)
  case (Cons c s)
  show ?case
  proof
    assume "contains n (c # s)"
    then consider "prefix n (c # s)" | "contains n s" by auto
    then show "\<exists>p q. c # s = p @ n @ q"
    proof cases
      case 1
      then obtain q where "c # s = n @ q" by (auto simp: prefix_def)
      then have "c # s = [] @ n @ q" by simp
      then show ?thesis by blast
    next
      case 2
      then obtain p q where "s = p @ n @ q" using Cons.IH by blast
      then have "c # s = (c # p) @ n @ q" by simp
      then show ?thesis by blast
    qed
  next
    assume "\<exists>p q. c # s = p @ n @ q"
    then obtain p q where e: "c # s = p @ n @ q" by blast
    show "contains n (c # s)"
    proof (cases p)
      case Nil
      with e have "prefix n (c # s)" by (simp add: prefix_def)
      then show ?thesis by simp
    next
      case (Cons d p')
      with e have "s = p' @ n @ q" by simp
      with Cons.IH show ?thesis by auto
    qed
  qed
qed simp

lemma contains_find_sub: "contains n s \<longleftrightarrow> find_sub n s \<noteq> None"
  by (induction s) auto

lemma find_sub_Some:
  "find_sub n s = Some i \<Longrightarrow> s = take i s @ n @ drop (i + length n) s \<and> i + length n \<le> length s"
proof (induction s arbitrary: i)
  case (Cons c s)
  show ?case
  proof (cases "prefix n (c # s)")
    case True
    then obtain q where "c # s = n @ q" by (auto simp: prefix_def)
    moreover from True Cons.prems have "i = 0" by simp
    ultimately show ?thesis by (metis append_Nil append_eq_conv_conj add_0 le_add1 length_append take_0)
  next
    case False
    with Cons.prems obtain j where "find_sub n s = Some j" and "i = Suc j" by auto
    with Cons.IH show ?thesis by auto
  qed
qed (auto split: if_splits)

lemma replace_first_absent: "\<not> contains old s \<Longrightarrow> replace_first old new s = s"
  by (induction s) auto

lemma replace_first_present:
  "contains old s \<Longrightarrow> \<exists>p q. s = p @ old @ q \<and> replace_first old new s = p @ new @ q"
proof (induction s)
  case (Cons c s)
  show ?case
  proof (cases "prefix old (c # s)")
    case True
    then obtain q where q: "c # s = old @ q" by (auto simp: prefix_def)
    from True have "replace_first old new (c # s) = new @ drop (length old) (c # s)" by simp
    also have "\<dots> = new @ q" unfolding q by simp
    finally show ?thesis using q by (metis append_Nil)
  next
    case False
    with Cons obtain p q where "s = p @ old @ q" "replace_first old new s = p @ new @ q" by auto
    with False have "c # s = (c # p) @ old @ q \<and> replace_first old new (c # s) = (c # p) @ new @ q"
      by simp
    then show ?thesis by blast
  qed
qed simp

end
