(* ===== verification/Py_Regex.thy ===== *)
theory Py_Regex
  imports Py_Str
begin

text \<open>
  A backtracking matcher for the regular expressions of the scripts, with the priorities of
  Python's \<^verbatim>\<open>re\<close>: \<open>rmatch\<close> lists every way to match at the current position, in the
  order in which \<^verbatim>\<open>re\<close> would try them, so that its head is the match \<^verbatim>\<open>re\<close>
  reports. A state holds the text before the position (reversed), the text after it, and the
  captured groups, latest first. The second half of the theory rewrites the shapes the scripts
  use (greedy and lazy stars over a character class) to \<open>takeWhile\<close> and \<open>dropWhile\<close>.
\<close>

section \<open>Syntax and matching\<close>

datatype rx =
    RChr "char \<Rightarrow> bool"
  | REps
  | RSeq rx rx
  | RAlt rx rx
  | RStar bool rx \<comment> \<open>greedy when the flag is set, lazy otherwise\<close>
  | RGrp string rx
  | RRef string
  | RBol bool \<comment> \<open>the anchor for a start, with MULTILINE when the flag is set\<close>
  | REol bool \<comment> \<open>the anchor for an end, with MULTILINE when the flag is set\<close>
  | RWordb

type_synonym groups = "(string \<times> string) list"
type_synonym rstate = "string \<times> string \<times> groups"

definition word_boundary :: "string \<Rightarrow> string \<Rightarrow> bool" where
  "word_boundary pre s =
     ((pre \<noteq> [] \<and> is_word (hd pre)) \<noteq> (s \<noteq> [] \<and> is_word (hd s)))"

definition at_bol :: "bool \<Rightarrow> string \<Rightarrow> bool" where
  "at_bol m pre = (pre = [] \<or> m \<and> hd pre = NL)"

definition at_eol :: "bool \<Rightarrow> string \<Rightarrow> bool" where
  "at_eol m s = (s = [] \<or> s = [NL] \<or> m \<and> hd s = NL)"

fun rmatch :: "rx \<Rightarrow> rstate \<Rightarrow> rstate list" where
  "rmatch (RChr P) (pre, s, g) =
     (case s of [] \<Rightarrow> [] | c # cs \<Rightarrow> if P c then [(c # pre, cs, g)] else [])"
| "rmatch REps st = [st]"
| "rmatch (RSeq r q) st = concat (map (rmatch q) (rmatch r st))"
| "rmatch (RAlt r q) st = rmatch r st @ rmatch q st"
| "rmatch (RStar greedy r) (pre, s, g) =
     (let more = concat (map (\<lambda>(pre', s', g').
                    if length s' < length s then rmatch (RStar greedy r) (pre', s', g') else [])
                  (rmatch r (pre, s, g)))
      in if greedy then more @ [(pre, s, g)] else (pre, s, g) # more)"
| "rmatch (RGrp n r) (pre, s, g) =
     map (\<lambda>(pre', s', g'). (pre', s', (n, take (length s - length s') s) # g'))
       (rmatch r (pre, s, g))"
| "rmatch (RRef n) (pre, s, g) =
     (case map_of g n of
        None \<Rightarrow> []
      | Some t \<Rightarrow> if prefix t s then [(rev t @ pre, drop (length t) s, g)] else [])"
| "rmatch (RBol m) (pre, s, g) = (if at_bol m pre then [(pre, s, g)] else [])"
| "rmatch (REol m) (pre, s, g) = (if at_eol m s then [(pre, s, g)] else [])"
| "rmatch RWordb (pre, s, g) = (if word_boundary pre s then [(pre, s, g)] else [])"

text \<open>Derived forms: a literal text, one or more, zero or one, a character class.\<close>

fun rlit :: "string \<Rightarrow> rx" where
  "rlit [] = REps"
| "rlit (c # cs) = RSeq (RChr ((=) c)) (rlit cs)"

definition rplus :: "bool \<Rightarrow> rx \<Rightarrow> rx" where
  "rplus greedy r = RSeq r (RStar greedy r)"

fun rseq :: "rx list \<Rightarrow> rx" where
  "rseq [] = REps"
| "rseq [r] = r"
| "rseq (r # q # rs) = RSeq r (rseq (q # rs))"

abbreviation star :: "(char \<Rightarrow> bool) \<Rightarrow> rx" where
  "star P \<equiv> RStar True (RChr P)"

abbreviation lazy :: "(char \<Rightarrow> bool) \<Rightarrow> rx" where
  "lazy P \<equiv> RStar False (RChr P)"

abbreviation plus1 :: "(char \<Rightarrow> bool) \<Rightarrow> rx" where
  "plus1 P \<equiv> rplus True (RChr P)"

definition not_NL :: "char \<Rightarrow> bool" where
  "not_NL c = (c \<noteq> NL)"

section \<open>The functions of the module re\<close>

text \<open>\<^verbatim>\<open>re.match\<close>, \<^verbatim>\<open>re.fullmatch\<close>, and \<^verbatim>\<open>re.search\<close> from a position.\<close>

definition re_match :: "rx \<Rightarrow> string \<Rightarrow> groups option" where
  "re_match r s = (case rmatch r ([], s, []) of [] \<Rightarrow> None | (_, _, g) # _ \<Rightarrow> Some g)"

definition re_fullmatch :: "rx \<Rightarrow> string \<Rightarrow> bool" where
  "re_fullmatch r s = list_ex (\<lambda>(_, s', _). s' = []) (rmatch r ([], s, []))"

fun re_search_from :: "rx \<Rightarrow> string \<Rightarrow> string \<Rightarrow> (string \<times> string \<times> rstate) option" where
  "re_search_from r pre [] =
     (case rmatch r (pre, [], []) of [] \<Rightarrow> None | st # _ \<Rightarrow> Some (pre, [], st))"
| "re_search_from r pre (c # s) =
     (case rmatch r (pre, c # s, []) of
        [] \<Rightarrow> re_search_from r (c # pre) s
      | st # _ \<Rightarrow> Some (pre, c # s, st))"

definition re_search :: "rx \<Rightarrow> string \<Rightarrow> groups option" where
  "re_search r s = map_option (\<lambda>(_, _, _, _, g). g) (re_search_from r [] s)"

text \<open>
  \<^verbatim>\<open>finditer\<close> as a list of segments: the text skipped before each match, the matched
  text and its groups, and the text after the last match. The patterns of the scripts never
  match the empty text; an empty match is skipped here as \<^verbatim>\<open>re\<close> steps over it.
\<close>

function segments :: "rx \<Rightarrow> string \<Rightarrow> string \<Rightarrow> (string \<times> string \<times> groups) list \<times> string" where
  "segments r pre s =
     (case re_search_from r pre s of
        None \<Rightarrow> ([], s)
      | Some (pre', t, (pre'', s', g)) \<Rightarrow>
          if length s' < length t \<and> length t \<le> length s
          then (case segments r pre'' s' of
                  (segs, rest) \<Rightarrow>
                    ((take (length s - length t) s, take (length t - length s') t, g) # segs, rest))
          else ([], s))"
  by pat_completeness auto
termination
  by (relation "measure (\<lambda>(r, pre, s). length s)") auto

declare segments.simps [simp del]

definition re_finditer :: "rx \<Rightarrow> string \<Rightarrow> (string \<times> groups) list" where
  "re_finditer r s = map snd (fst (segments r [] s))"

text \<open>\<^verbatim>\<open>subn\<close> with a function from the match to its replacement.\<close>

definition re_subn :: "rx \<Rightarrow> (string \<Rightarrow> groups \<Rightarrow> string) \<Rightarrow> string \<Rightarrow> string \<times> nat" where
  "re_subn r f s =
     (case segments r [] s of
        (segs, rest) \<Rightarrow> (concat (map (\<lambda>(skip, m, g). skip @ f m g) segs) @ rest, length segs))"

definition re_sub :: "rx \<Rightarrow> (string \<Rightarrow> groups \<Rightarrow> string) \<Rightarrow> string \<Rightarrow> string" where
  "re_sub r f s = fst (re_subn r f s)"

definition group :: "string \<Rightarrow> groups \<Rightarrow> string" where
  "group n g = (case map_of g n of None \<Rightarrow> [] | Some t \<Rightarrow> t)"

section \<open>Rewriting the shapes the scripts use\<close>

declare rmatch.simps(5) [simp del]

definition first :: "'a list \<Rightarrow> 'a option" where
  "first xs = (case xs of [] \<Rightarrow> None | x # _ \<Rightarrow> Some x)"

lemma first_simps [simp]: "first [] = None" "first (x # xs) = Some x"
  by (simp_all add: first_def)

lemma first_None [simp]: "first xs = None \<longleftrightarrow> xs = []"
  by (cases xs) auto

lemma first_append: "first (xs @ ys) = (case first xs of None \<Rightarrow> first ys | Some x \<Rightarrow> Some x)"
  by (cases xs) auto

lemma first_map [simp]: "first (map f xs) = map_option f (first xs)"
  by (cases xs) auto

lemma first_concat_upt:
  assumes "i < n" and "f i \<noteq> []" and "\<And>j. j < i \<Longrightarrow> f j = []"
  shows "first (concat (map f [0..<n])) = first (f i)"
proof -
  have split: "[0..<n] = [0..<i] @ i # [Suc i..<n]"
    using assms(1) by (metis le_add1 less_imp_add_positive upt_add_eq_append upt_conv_Cons
      add.left_neutral le0)
  have nil: "concat (map f [0..<i]) = []" using assms(3) by auto
  have "concat (map f [0..<n]) = f i @ concat (map f [Suc i..<n])"
    by (simp only: split map_append concat_append nil list.map concat.simps append_Nil)
  then show ?thesis using assms(2) by (cases "f i") auto
qed

lemma re_match_first: "re_match r s = map_option (\<lambda>(_, _, g). g) (first (rmatch r ([], s, [])))"
  by (auto simp: re_match_def split: list.splits)

lemma concat_map_concat: "concat (map f (concat xs)) = concat (map (\<lambda>x. concat (map f x)) xs)"
  by (induction xs) auto

lemma rmatch_RSeq: "rmatch (RSeq r q) = (\<lambda>st. concat (map (rmatch q) (rmatch r st)))"
  by (rule ext) simp

lemma rmatch_seq_assoc [rx_simps]: "rmatch (RSeq (RSeq a b) c) st = rmatch (RSeq a (RSeq b c)) st"
  by (simp add: concat_map_concat rmatch_RSeq comp_def)

lemma rmatch_chr_seq [rx_simps]:
  "rmatch (RSeq (RChr P) q) (pre, s, g) =
     (case s of [] \<Rightarrow> [] | c # t \<Rightarrow> if P c then rmatch q (c # pre, t, g) else [])"
  by (cases s) auto

lemma rmatch_bol_seq [rx_simps]:
  "rmatch (RSeq (RBol m) q) (pre, s, g) = (if at_bol m pre then rmatch q (pre, s, g) else [])"
  by simp

lemma rmatch_lit_seq [rx_simps]:
  "rmatch (RSeq (rlit t) q) (pre, s, g) =
     (if prefix t s then rmatch q (rev t @ pre, drop (length t) s, g) else [])"
proof (induction t arbitrary: pre s)
  case (Cons c t)
  show ?case
  proof (cases s)
    case (Cons d s')
    then show ?thesis
      using Cons.IH [of "d # pre" s'] by (auto simp: rmatch_seq_assoc rmatch_chr_seq)
  qed (simp add: rmatch_seq_assoc rmatch_chr_seq)
qed simp

lemma rmatch_star_Nil: "rmatch (RStar b (RChr P)) (pre, [], g) = [(pre, [], g)]"
  by (simp add: rmatch.simps(5))

lemma rmatch_star_Cons:
  "rmatch (star P) (pre, c # s, g) =
     (if P c then rmatch (star P) (c # pre, s, g) else []) @ [(pre, c # s, g)]"
  by (simp add: rmatch.simps(5))

lemma rmatch_lazy_Cons:
  "rmatch (lazy P) (pre, c # s, g) =
     (pre, c # s, g) # (if P c then rmatch (lazy P) (c # pre, s, g) else [])"
  by (simp add: rmatch.simps(5))

lemma rmatch_lazy_upt:
  "rmatch (lazy P) (pre, s, g) =
     map (\<lambda>k. (rev (take k s) @ pre, drop k s, g)) [0..<Suc (length (takeWhile P s))]"
proof (induction s arbitrary: pre)
  case (Cons c s)
  have "[0..<Suc (Suc n)] = 0 # map Suc [0..<Suc n]" for n
    by (metis map_Suc_upt upt_conv_Cons zero_less_Suc)
  then show ?case by (simp add: rmatch_lazy_Cons Cons.IH del: upt_Suc) simp
qed (simp add: rmatch_star_Nil)

lemma rmatch_star_lazy: "rmatch (star P) (pre, s, g) = rev (rmatch (lazy P) (pre, s, g))"
  by (induction s arbitrary: pre) (auto simp: rmatch_star_Nil rmatch_star_Cons rmatch_lazy_Cons)

text \<open>
  The longest match of a greedy star comes first; when what follows the star cannot start with
  a character of the class, it is the only one that continues.
\<close>

lemma rmatch_star_longest:
  "\<exists>more. rmatch (star P) (pre, s, g) =
     (rev (takeWhile P s) @ pre, dropWhile P s, g) # more \<and>
     (\<forall>(p', s', g') \<in> set more. \<exists>c t. s' = c # t \<and> P c)"
proof (induction s arbitrary: pre)
  case (Cons c s)
  show ?case
  proof (cases "P c")
    case True
    from Cons.IH obtain more where eq: "rmatch (star P) (c # pre, s, g) =
        (rev (takeWhile P s) @ c # pre, dropWhile P s, g) # more"
      and "\<forall>(p', s', g') \<in> set more. \<exists>c t. s' = c # t \<and> P c" by blast
    then show ?thesis using True
      by (intro exI [of _ "more @ [(pre, c # s, g)]"]) (auto simp: rmatch_star_Cons)
  qed (simp add: rmatch_star_Cons)
qed (simp add: rmatch_star_Nil)

lemma rmatch_star_commit:
  assumes "\<And>pre c t g. P c \<Longrightarrow> rmatch q (pre, c # t, g) = []"
  shows "rmatch (RSeq (star P) q) (pre, s, g) =
     rmatch q (rev (takeWhile P s) @ pre, dropWhile P s, g)"
proof -
  obtain more where "rmatch (star P) (pre, s, g) =
      (rev (takeWhile P s) @ pre, dropWhile P s, g) # more"
    and "\<forall>(p', s', g') \<in> set more. \<exists>c t. s' = c # t \<and> P c"
    using rmatch_star_longest by blast
  moreover from this(2) have "concat (map (rmatch q) more) = []"
    using assms by fastforce
  ultimately show ?thesis by simp
qed

lemma rmatch_grp_star_commit:
  assumes "\<And>pre c t g. P c \<Longrightarrow> rmatch q (pre, c # t, g) = []"
  shows "rmatch (RSeq (RGrp n (star P)) q) (pre, s, g) =
     rmatch q (rev (takeWhile P s) @ pre, dropWhile P s, (n, takeWhile P s) # g)"
proof -
  obtain more where eq: "rmatch (star P) (pre, s, g) =
      (rev (takeWhile P s) @ pre, dropWhile P s, g) # more"
    and more: "\<forall>(p', s', g') \<in> set more. \<exists>c t. s' = c # t \<and> P c"
    using rmatch_star_longest by blast
  have "take (length s - length (dropWhile P s)) s = takeWhile P s"
    by (metis append_eq_conv_conj diff_add_inverse2 length_append takeWhile_dropWhile_id)
  moreover have "rmatch q (p', s', h) = []" if "(p', s', g') \<in> set more" for p' s' g' h
    using more that assms by fastforce
  ultimately show ?thesis by (auto simp: eq)
qed

lemma rmatch_plus_commit:
  assumes "\<And>pre c t g. P c \<Longrightarrow> rmatch q (pre, c # t, g) = []"
  shows "rmatch (RSeq (plus1 P) q) (pre, s, g) =
     (if takeWhile P s = [] then []
      else rmatch q (rev (takeWhile P s) @ pre, dropWhile P s, g))"
  using rmatch_star_commit [OF assms]
  by (cases s) (auto simp: rplus_def rmatch_seq_assoc rmatch_chr_seq)

lemma rmatch_grp_plus:
  "rmatch (RGrp n (plus1 P)) (pre, s, g) =
     filter (\<lambda>(p', s', g'). length s' < length s) (rmatch (RGrp n (star P)) (pre, s, g))"
proof (cases s)
  case (Cons c t)
  have "filter (\<lambda>x. length (fst (snd x)) < Suc (length t)) (rmatch (star P) (c # pre, t, g)) =
      rmatch (star P) (c # pre, t, g)"
    by (rule filter_True) (auto simp: rmatch_star_lazy rmatch_lazy_upt)
  then show ?thesis using Cons
    by (simp add: rplus_def rmatch_star_Cons filter_map comp_def case_prod_beta)
qed (simp add: rplus_def rmatch_star_Nil)

lemma rmatch_grp_plus_commit:
  assumes "\<And>pre c t g. P c \<Longrightarrow> rmatch q (pre, c # t, g) = []"
  shows "rmatch (RSeq (RGrp n (plus1 P)) q) (pre, s, g) =
     (if takeWhile P s = [] then []
      else rmatch q (rev (takeWhile P s) @ pre, dropWhile P s, (n, takeWhile P s) # g))"
proof -
  have nil: "concat (map (rmatch q) (filter F (rmatch (RGrp n (star P)) (pre, s, g)))) =
      (if F (rev (takeWhile P s) @ pre, dropWhile P s, (n, takeWhile P s) # g)
       then rmatch q (rev (takeWhile P s) @ pre, dropWhile P s, (n, takeWhile P s) # g) else [])" for F
  proof -
    obtain more where eq: "rmatch (star P) (pre, s, g) =
        (rev (takeWhile P s) @ pre, dropWhile P s, g) # more"
      and more: "\<forall>(p', s', g') \<in> set more. \<exists>c t. s' = c # t \<and> P c"
      using rmatch_star_longest by blast
    have "take (length s - length (dropWhile P s)) s = takeWhile P s"
      by (metis append_eq_conv_conj diff_add_inverse2 length_append takeWhile_dropWhile_id)
    moreover have "rmatch q (p', s', h) = []" if "(p', s', g') \<in> set more" for p' s' g' h
      using more that assms by fastforce
    ultimately show ?thesis by (auto simp: eq)
  qed
  have "length (dropWhile P s) < length s \<longleftrightarrow> takeWhile P s \<noteq> []"
    by (cases s) (auto simp: length_dropWhile_le_Suc)
  then show ?thesis
    by (simp add: rmatch_grp_plus nil del: rmatch.simps(6))
qed

lemma rmatch_star_first:
  assumes "rmatch q (rev (takeWhile P s) @ pre, dropWhile P s, g) \<noteq> []"
  shows "first (rmatch (RSeq (star P) q) (pre, s, g)) =
     first (rmatch q (rev (takeWhile P s) @ pre, dropWhile P s, g))"
proof -
  obtain more where "rmatch (star P) (pre, s, g) =
      (rev (takeWhile P s) @ pre, dropWhile P s, g) # more"
    using rmatch_star_longest by blast
  then show ?thesis using assms by (auto simp: first_append split: option.splits)
qed

text \<open>Trailing white space up to the end of a line: matched when nothing else is left.\<close>

abbreviation trailing_space :: rx where
  "trailing_space \<equiv> RSeq (star is_space) (REol False)"

lemma rmatch_trailing_space_all:
  assumes "\<forall>c\<in>set s. is_space c"
  shows "first (rmatch trailing_space (pre, s, g)) = Some (rev s @ pre, [], g)"
proof -
  have "takeWhile is_space s = s" "dropWhile is_space s = []" using assms by auto
  then show ?thesis by (subst rmatch_star_first) (auto simp: at_eol_def)
qed

lemma rmatch_trailing_space_stop:
  assumes "one_line s" and "\<exists>c\<in>set s. \<not> is_space c"
  shows "rmatch trailing_space (pre, s, g) = []"
proof -
  have "at_eol False (drop k s) = False" if "k \<le> length (takeWhile is_space s)" for k
  proof -
    have "length (takeWhile is_space s) < length s"
      using assms(2) by (metis length_takeWhile_le nat_less_le takeWhile_eq_all_conv
        takeWhile_eq_take take_all_iff order_refl)
    then have "drop k s \<noteq> []" using that by simp
    moreover have "drop k s \<noteq> [NL]"
      using assms(1) by (metis in_set_dropD list.set_intros(1) one_line_no_NL)
    ultimately show ?thesis by (simp add: at_eol_def)
  qed
  then show ?thesis by (auto simp: rmatch_star_lazy rmatch_lazy_upt less_Suc_eq_le simp del: upt_Suc)
qed

text \<open>
  A lazy group before trailing white space ends where the text without its trailing white space
  ends, whatever the groups \<open>G k\<close> recorded for a group of length \<open>k\<close> are.
\<close>

lemma first_lazy_trailing:
  assumes "one_line v"
  shows "first (concat (map (\<lambda>k. rmatch trailing_space (rev (take k v) @ pre, drop k v, G k))
           [0..<Suc (length v)])) =
     Some (rev v @ pre, [], G (length (rstrip_by is_space v)))"
proof -
  let ?f = "\<lambda>k. rmatch trailing_space (rev (take k v) @ pre, drop k v, G k)"
  let ?i = "length (rstrip_by is_space v)"
  obtain t where t: "v = rstrip_by is_space v @ t" "\<forall>c\<in>set t. is_space c"
    using rstrip_by_prefix by blast
  have at_i: "take ?i v = rstrip_by is_space v" "drop ?i v = t"
    by (metis append_eq_conv_conj t(1))+
  have fi: "first (?f ?i) = Some (rev v @ pre, [], G ?i)"
  proof -
    have "rev t @ rev (rstrip_by is_space v) @ pre = rev v @ pre"
      by (metis append_assoc rev_append t(1))
    then show ?thesis using rmatch_trailing_space_all [OF t(2)] by (simp only: at_i)
  qed
  have below: "?f j = []" if "j < ?i" for j
  proof (rule rmatch_trailing_space_stop)
    show "one_line (drop j v)" using assms by (metis append_take_drop_id one_line_append)
    have ne: "rstrip_by is_space v \<noteq> []" using that by auto
    have "last (rstrip_by is_space v) \<in> set (drop j (rstrip_by is_space v))"
      using that by (metis drop_eq_Nil last_drop last_in_set not_less)
    moreover have "set (drop j (rstrip_by is_space v)) \<subseteq> set (drop j v)"
      using t(1) by (metis drop_append set_append Un_upper1)
    ultimately show "\<exists>c\<in>set (drop j v). \<not> is_space c"
      using rstrip_by_last [OF ne] by blast
  qed
  have "first (concat (map ?f [0..<Suc (length v)])) = first (?f ?i)"
  proof (rule first_concat_upt)
    show "?i < Suc (length v)" by (metis length_append less_Suc_eq_le le_add1 t(1))
    show "?f ?i \<noteq> []" using fi by (metis first_None option.distinct(1))
  qed (rule below)
  then show ?thesis using fi by (simp only:)
qed

lemma take_rstrip_by [simp]: "take (length (rstrip_by P v)) v = rstrip_by P v"
  by (metis append_eq_conv_conj rstrip_by_prefix)

lemma takeWhile_not_NL: "one_line v \<Longrightarrow> takeWhile not_NL v = v"
  using one_line_no_NL by (auto simp: not_NL_def takeWhile_eq_all_conv)

lemma rmatch_value:
  assumes "one_line v"
  shows "first (rmatch (RSeq (RGrp n (lazy not_NL)) trailing_space) (pre, v, g)) =
     Some (rev v @ pre, [], (n, rstrip_by is_space v) # g)"
proof -
  have "rmatch (RSeq (RGrp n (lazy not_NL)) trailing_space) (pre, v, g) =
      concat (map (\<lambda>k. rmatch trailing_space (rev (take k v) @ pre, drop k v, (n, take k v) # g))
        [0..<Suc (length v)])"
    by (simp add: rmatch_lazy_upt takeWhile_not_NL [OF assms] comp_def min_def del: upt_Suc)
       (auto intro!: arg_cong [of _ _ concat] simp: min_def)
  with first_lazy_trailing [OF assms, of pre "\<lambda>k. (n, take k v) # g"] show ?thesis
    by (simp del: rmatch.simps upt_Suc)
qed

lemma rmatch_plus_value:
  assumes "one_line (c # v)"
  shows "first (rmatch (RSeq (RGrp n (rplus False (RChr not_NL))) trailing_space) (pre, c # v, g)) =
     Some (rev (c # v) @ pre, [], (n, c # rstrip_by is_space v) # g)"
proof -
  have c: "not_NL c" and v: "one_line v" using assms by (auto simp: not_NL_def)
  have "rmatch (RSeq (RGrp n (rplus False (RChr not_NL))) trailing_space) (pre, c # v, g) =
      concat (map (\<lambda>k. rmatch trailing_space (rev (take k v) @ c # pre, drop k v, (n, c # take k v) # g))
        [0..<Suc (length v)])"
    using c by (simp add: rplus_def rmatch_lazy_upt takeWhile_not_NL [OF v] comp_def del: upt_Suc)
       (auto intro!: arg_cong [of _ _ concat] simp: min_def take_Cons' Suc_diff_le)
  with first_lazy_trailing [OF v, of "c # pre" "\<lambda>k. (n, c # take k v) # g"] show ?thesis
    by (simp del: rmatch.simps upt_Suc)
qed

lemma rmatch_grp_plus_stop [rx_simps]:
  "\<not> P c \<Longrightarrow> rmatch (RSeq (RGrp n (rplus b (RChr P))) q) (pre, c # t, g) = []"
  by (simp add: rplus_def)

lemma rmatch_after_colon:
  assumes "one_line v"
  shows "first (rmatch (RSeq (star is_space) (RSeq (RGrp n (lazy not_NL)) trailing_space)) (pre, v, g)) =
    Some (rev v @ pre, [], (n, strip v) # g)"
proof -
  have ol: "one_line (dropWhile is_space v)"
    using assms by (metis one_line_append takeWhile_dropWhile_id)
  note val = rmatch_value [OF ol, of n "rev (takeWhile is_space v) @ pre" g]
  have "rmatch (RSeq (RGrp n (lazy not_NL)) trailing_space)
      (rev (takeWhile is_space v) @ pre, dropWhile is_space v, g) \<noteq> []"
    using val by (metis first_None option.distinct(1))
  from rmatch_star_first [OF this] val show ?thesis
    by (simp add: strip_by_def lstrip_by_def del: rmatch.simps)
      (metis append_assoc rev_append takeWhile_dropWhile_id)
qed

text \<open>A full match of \<^verbatim>\<open>[class]+\<close> is a non-empty text over the class.\<close>

lemma star_full: "list_ex (\<lambda>(_, s', _). s' = []) (rmatch (star P) (pre, s, g)) \<longleftrightarrow> list_all P s"
  by (induction s arbitrary: pre) (auto simp: rmatch_star_Nil rmatch_star_Cons)

lemma re_fullmatch_plus: "re_fullmatch (plus1 P) s \<longleftrightarrow> s \<noteq> [] \<and> list_all P s"
  by (cases s) (auto simp: re_fullmatch_def rplus_def star_full simp del: rmatch.simps(5))

section \<open>Matches as decompositions of the text\<close>

text \<open>
  Which states a pattern can reach, without their order: the collection \<open>rx_mem\<close> turns the
  membership in \<open>rmatch\<close> into a decomposition of the text.
\<close>

named_theorems rx_mem "membership in the matches of a pattern"

lemma mem_RChr [rx_mem]: "st \<in> set (rmatch (RChr P) (pre, s, g)) \<longleftrightarrow> (\<exists>c t. s = c # t \<and> P c \<and> st = (c # pre, t, g))"
  by (cases s) auto

lemma mem_RSeq [rx_mem]: "st \<in> set (rmatch (RSeq r q) st0) \<longleftrightarrow> (\<exists>st1. st1 \<in> set (rmatch r st0) \<and> st \<in> set (rmatch q st1))"
  by auto

lemma mem_RGrp [rx_mem]: "st \<in> set (rmatch (RGrp n r) (pre, s, g)) \<longleftrightarrow>
    (\<exists>p' s' g'. (p', s', g') \<in> set (rmatch r (pre, s, g)) \<and> st = (p', s', (n, take (length s - length s') s) # g'))"
  by force

lemma mem_rlit [rx_mem]: "st \<in> set (rmatch (rlit t) (pre, s, g)) \<longleftrightarrow> (\<exists>v. s = t @ v \<and> st = (rev t @ pre, v, g))"
  by (induction t arbitrary: pre s) (auto simp: mem_RChr)

lemma mem_star [rx_mem]: "st \<in> set (rmatch (RStar b (RChr P)) (pre, s, g)) \<longleftrightarrow>
    (\<exists>u v. s = u @ v \<and> list_all P u \<and> st = (rev u @ pre, v, g))"
proof -
  have "st \<in> set (rmatch (lazy P) (pre, s, g)) \<longleftrightarrow> (\<exists>u v. s = u @ v \<and> list_all P u \<and> st = (rev u @ pre, v, g))"
  proof (induction s arbitrary: pre)
    case (Cons c s)
    show ?case
    proof
      assume "st \<in> set (rmatch (lazy P) (pre, c # s, g))"
      then consider "st = (pre, c # s, g)" | "P c" "st \<in> set (rmatch (lazy P) (c # pre, s, g))"
        by (auto simp: rmatch_lazy_Cons split: if_splits)
      then show "\<exists>u v. c # s = u @ v \<and> list_all P u \<and> st = (rev u @ pre, v, g)"
      proof cases
        case 2
        then obtain u v where "s = u @ v" "list_all P u" "st = (rev u @ c # pre, v, g)" using Cons.IH by blast
        with 2(1) show ?thesis by - (rule exI [of _ "c # u"], rule exI [of _ v], simp)
      qed (rule exI [of _ "[]"], rule exI [of _ "c # s"], simp)
    next
      assume "\<exists>u v. c # s = u @ v \<and> list_all P u \<and> st = (rev u @ pre, v, g)"
      then obtain u v where uv: "c # s = u @ v" "list_all P u" "st = (rev u @ pre, v, g)" by blast
      then show "st \<in> set (rmatch (lazy P) (pre, c # s, g))"
        using Cons.IH [of "c # pre"] by (cases u) (auto simp: rmatch_lazy_Cons)
    qed
  qed (auto simp: rmatch_star_Nil)
  then show ?thesis by (cases b) (simp_all add: rmatch_star_lazy)
qed

lemma mem_plus [rx_mem]: "st \<in> set (rmatch (rplus b (RChr P)) (pre, s, g)) \<longleftrightarrow>
    (\<exists>u v. s = u @ v \<and> u \<noteq> [] \<and> list_all P u \<and> st = (rev u @ pre, v, g))"
proof
  assume "st \<in> set (rmatch (rplus b (RChr P)) (pre, s, g))"
  then obtain c u v where "s = c # u @ v" "P c" "list_all P u" "st = (rev u @ c # pre, v, g)"
    by (auto simp: rplus_def mem_RSeq mem_RChr mem_star)
  then show "\<exists>u v. s = u @ v \<and> u \<noteq> [] \<and> list_all P u \<and> st = (rev u @ pre, v, g)"
    by - (rule exI [of _ "c # u"], rule exI [of _ v], simp)
next
  assume "\<exists>u v. s = u @ v \<and> u \<noteq> [] \<and> list_all P u \<and> st = (rev u @ pre, v, g)"
  then obtain c u v where "s = c # u @ v" "P c" "list_all P u" "st = (rev u @ c # pre, v, g)"
    by (metis append_Cons append_assoc list.exhaust list.pred_inject(2) rev.simps(2) append_Nil)
  then show "st \<in> set (rmatch (rplus b (RChr P)) (pre, s, g))"
    by (auto simp: rplus_def mem_RSeq mem_RChr mem_star)
qed

lemma mem_anchors [rx_mem]:
  "st \<in> set (rmatch (RBol m) (pre, s, g)) \<longleftrightarrow> at_bol m pre \<and> st = (pre, s, g)"
  "st \<in> set (rmatch (REol m) (pre, s, g)) \<longleftrightarrow> at_eol m s \<and> st = (pre, s, g)"
  "st \<in> set (rmatch RWordb (pre, s, g)) \<longleftrightarrow> word_boundary pre s \<and> st = (pre, s, g)"
  "st \<in> set (rmatch REps (pre, s, g)) \<longleftrightarrow> st = (pre, s, g)"
  by auto

lemma mem_intros:
  "\<lbrakk>st1 \<in> set (rmatch r st); st2 \<in> set (rmatch q st1)\<rbrakk> \<Longrightarrow> st2 \<in> set (rmatch (RSeq r q) st)"
  "(p', s', g') \<in> set (rmatch r (p, s, g)) \<Longrightarrow> (p', s', (n, take (length s - length s') s) # g') \<in> set (rmatch (RGrp n r) (p, s, g))"
  "list_all P u \<Longrightarrow> (rev u @ p, v, g) \<in> set (rmatch (RStar b (RChr P)) (p, u @ v, g))"
  "u \<noteq> [] \<Longrightarrow> list_all P u \<Longrightarrow> (rev u @ p, v, g) \<in> set (rmatch (rplus b (RChr P)) (p, u @ v, g))"
  "P c \<Longrightarrow> (c # p, v, g) \<in> set (rmatch (RChr P) (p, [c] @ v, g))"
  "(rev l @ p, v, g) \<in> set (rmatch (rlit l) (p, l @ v, g))"
  "at_bol m p \<Longrightarrow> (p, s, g) \<in> set (rmatch (RBol m) (p, s, g))"
  "word_boundary p s \<Longrightarrow> (p, s, g) \<in> set (rmatch RWordb (p, s, g))"
  by (auto simp: rx_mem simp del: rmatch.simps(1,3,6) rlit.simps split_paired_Ex)

text \<open>A search passes over a text at which no match starts, and finds a match where there is one.\<close>

lemma re_search_skip:
  "(\<And>x y. u = x @ y \<Longrightarrow> y \<noteq> [] \<Longrightarrow> rmatch r (rev x @ pre, y @ s, []) = []) \<Longrightarrow>
     re_search_from r pre (u @ s) = re_search_from r (rev u @ pre) s"
proof (induction u arbitrary: pre)
  case (Cons c u)
  have "rmatch r (pre, c # u @ s, []) = []" using Cons.prems [of "[]" "c # u"] by simp
  moreover have "re_search_from r (c # pre) (u @ s) = re_search_from r (rev u @ c # pre) s"
  proof (rule Cons.IH)
    fix x y assume "u = x @ y" "y \<noteq> []"
    then show "rmatch r (rev x @ c # pre, y @ s, []) = []" using Cons.prems [of "c # x" y] by simp
  qed
  ultimately show ?case by simp
qed simp

lemma re_search_here:
  "rmatch r (pre, s, []) \<noteq> [] \<Longrightarrow> re_search_from r pre s = Some (pre, s, hd (rmatch r (pre, s, [])))"
  by (cases s) (auto split: list.splits)

lemma re_search_finds:
  "rmatch r (rev u @ pre, s, []) \<noteq> [] \<Longrightarrow> re_search_from r pre (u @ s) \<noteq> None"
proof (induction u arbitrary: pre)
  case Nil
  then show ?case by (simp add: re_search_here)
next
  case (Cons c u)
  then show ?case by (auto split: list.splits)
qed

lemma re_search_Some:
  "re_search_from r pre s = Some (pre', t, st) \<Longrightarrow>
     \<exists>u. s = u @ t \<and> pre' = rev u @ pre \<and> st \<in> set (rmatch r (pre', t, []))"
proof (induction r pre s rule: re_search_from.induct)
  case (1 r pre)
  then show ?case by (auto split: list.splits)
next
  case (2 r pre c s)
  show ?case
  proof (cases "rmatch r (pre, c # s, [])")
    case Nil
    with 2 obtain u where "s = u @ t" "pre' = rev u @ c # pre" "st \<in> set (rmatch r (pre', t, []))" by auto
    then show ?thesis by (intro exI [of _ "c # u"]) simp
  next
    case (Cons st' sts)
    with "2.prems" show ?thesis by (intro exI [of _ "[]"]) auto
  qed
qed

section \<open>Matches that need no backtracking\<close>

text \<open>The first match of a sequence, when what follows can go on from the first match of its head.\<close>

lemma first_seq:
  "first (rmatch r st) = Some st1 \<Longrightarrow> first (rmatch q st1) = Some st2 \<Longrightarrow> first (rmatch (RSeq r q) st) = Some st2"
  by (cases "rmatch r st") (auto simp: first_append)

lemma first_chr: "s = c # t \<Longrightarrow> P c \<Longrightarrow> first (rmatch (RChr P) (pre, s, g)) = Some (c # pre, t, g)"
  by simp

lemma first_lit: "s = t @ v \<Longrightarrow> first (rmatch (rlit t) (pre, s, g)) = Some (rev t @ pre, v, g)"
  by (induction t arbitrary: pre s) auto

lemma first_star:
  assumes "s = u @ v" "list_all P u" "v = [] \<or> \<not> P (hd v)"
  shows "first (rmatch (star P) (pre, s, g)) = Some (rev u @ pre, v, g)"
proof -
  have "takeWhile P s = u" "dropWhile P s = v"
    using assms takeWhile_append_stop [of u P v] dropWhile_append_stop [of u P v] by (auto simp: list_all_iff)
  then show ?thesis using rmatch_star_longest [of P pre s g] by auto
qed

lemma first_plus:
  assumes "s = u @ v" "u \<noteq> []" "list_all P u" "v = [] \<or> \<not> P (hd v)"
  shows "first (rmatch (plus1 P) (pre, s, g)) = Some (rev u @ pre, v, g)"
proof -
  obtain c w where u: "u = c # w" using assms(2) by (cases u) auto
  have "first (rmatch (RSeq (RChr P) (star P)) (pre, s, g)) = Some (rev w @ c # pre, v, g)"
    by (rule first_seq [OF first_chr first_star]) (use assms u in auto)
  then show ?thesis using u by (simp add: rplus_def)
qed

lemma first_grp:
  "first (rmatch r (pre, s, g)) = Some (p', s', g') \<Longrightarrow> s = u @ s' \<Longrightarrow>
     first (rmatch (RGrp n r) (pre, s, g)) = Some (p', s', (n, u) # g')"
  by simp

lemma first_wordb: "word_boundary pre s \<Longrightarrow> first (rmatch RWordb (pre, s, g)) = Some (pre, s, g)"
  by simp

end
