(* ===== verification/Yaml_Scan.thy ===== *)
theory Yaml_Scan
  imports Py_Regex
begin

text \<open>
  The line scanners for descriptor files: \<^verbatim>\<open>yaml_path_scalar\<close>, \<^verbatim>\<open>yaml_top_list\<close>
  and \<^verbatim>\<open>yaml_path_list\<close> of \<^verbatim>\<open>src/bin/validate_target.py\<close>, the second
  \<^verbatim>\<open>yaml_path_scalar\<close> that \<^verbatim>\<open>deps_core.py\<close> and \<^verbatim>\<open>render_support_matrix.py\<close>
  share, and the list editors of \<^verbatim>\<open>create_core.py\<close>. A loop over the lines is a recursive
  function over the list of lines; \<^verbatim>\<open>current_path\<close> is a stack with its top first.
\<close>

section \<open>Patterns\<close>

text \<open>\<^verbatim>\<open>^(\s*)([A-Za-z0-9_]+):\s*(.*?)\s*$\<close>\<close>

definition key_line_rx :: rx where
  "key_line_rx = rseq [RBol False, RGrp ''1'' (star is_space), RGrp ''2'' (plus1 is_key),
     RChr ((=) CHR '':''), star is_space, RGrp ''3'' (lazy not_NL), star is_space, REol False]"

text \<open>\<^verbatim>\<open>^(\s*)KEY:\s*(.*)$\<close> and \<^verbatim>\<open>^(\s*)KEY:\s*$\<close>\<close>

definition list_key_rx :: "string \<Rightarrow> rx" where
  "list_key_rx key = rseq [RBol False, RGrp ''1'' (star is_space), rlit key,
     RChr ((=) CHR '':''), star is_space, RGrp ''2'' (star not_NL), REol False]"

definition block_key_rx :: "string \<Rightarrow> rx" where
  "block_key_rx key = rseq [RBol False, RGrp ''1'' (star is_space), rlit key,
     RChr ((=) CHR '':''), star is_space, REol False]"

text \<open>\<^verbatim>\<open>^(\s*)-\s*(.+?)\s*$\<close>; \<^verbatim>\<open>yaml_top_list\<close> uses it without the first group.\<close>

definition item_rx :: rx where
  "item_rx = rseq [RBol False, RGrp ''1'' (star is_space), RChr ((=) CHR ''-''), star is_space,
     RGrp ''2'' (rplus False (RChr not_NL)), star is_space, REol False]"

section \<open>Scalars\<close>

type_synonym path_stack = "(nat \<times> string) list"

definition push_key :: "nat \<Rightarrow> string \<Rightarrow> path_stack \<Rightarrow> path_stack" where
  "push_key indent key cur = (indent, key) # dropWhile (\<lambda>e. indent \<le> fst e) cur"

definition stack_keys :: "path_stack \<Rightarrow> string list" where
  "stack_keys cur = rev (map snd cur)"

fun scan_scalar ::
    "(string \<Rightarrow> string) \<Rightarrow> string list \<Rightarrow> path_stack \<Rightarrow> string list \<Rightarrow> string option" where
  "scan_scalar unquote path cur [] = None"
| "scan_scalar unquote path cur (line # lines) =
     (let stripped = strip line
      in if stripped = [] \<or> prefix ''#'' stripped \<or> prefix ''- '' stripped
         then scan_scalar unquote path cur lines
         else (case re_match key_line_rx line of
                 None \<Rightarrow> scan_scalar unquote path cur lines
               | Some g \<Rightarrow>
                   (let cur' = push_key (length (group ''1'' g)) (group ''2'' g) cur;
                        value = group ''3'' g
                    in if stack_keys cur' = path
                       then (if value = [] then None else Some (unquote value))
                       else scan_scalar unquote path cur' lines)))"

text \<open>\<^verbatim>\<open>validate_target.py\<close> drops one quote at each end, when there is one at both ends.\<close>

definition unquote_ends :: "string \<Rightarrow> string" where
  "unquote_ends v =
     (if v \<noteq> [] \<and> is_quote (hd v) \<and> is_quote (last v) then butlast (tl v) else v)"

definition yaml_path_scalar :: "string \<Rightarrow> string list \<Rightarrow> string option" where
  "yaml_path_scalar text path = scan_scalar unquote_ends path [] (splitlines text)"

text \<open>\<^verbatim>\<open>deps_core.py\<close> and \<^verbatim>\<open>render_support_matrix.py\<close> strip every quote at both ends.\<close>

definition unquote_all :: "string \<Rightarrow> string" where
  "unquote_all v = strip_quotes (strip v)"

definition deps_yaml_path_scalar :: "string \<Rightarrow> string list \<Rightarrow> string option" where
  "deps_yaml_path_scalar text path = scan_scalar unquote_all path [] (splitlines text)"

definition render_yaml_path_scalar :: "string \<Rightarrow> string list \<Rightarrow> string option" where
  "render_yaml_path_scalar text path = scan_scalar unquote_all path [] (splitlines text)"

section \<open>Lists\<close>

definition inline_items :: "string \<Rightarrow> string list" where
  "inline_items inline =
     (if prefix ''['' inline \<and> suffix '']'' inline
      then (let body = strip (butlast (tl inline))
            in if body = [] then [] else map (\<lambda>i. strip_quotes (strip i)) (split_on CHR '','' body))
      else [strip_quotes inline])"

fun top_list_scan :: "string \<Rightarrow> nat option \<Rightarrow> string list \<Rightarrow> string list \<Rightarrow> string list" where
  "top_list_scan key base values [] = values"
| "top_list_scan key base values (line # lines) =
     (let stripped = strip line
      in if stripped = [] \<or> prefix ''#'' stripped then top_list_scan key base values lines
         else (case re_match (list_key_rx key) line of
                 Some g \<Rightarrow>
                   (let inline = strip (group ''2'' g)
                    in if inline = []
                       then top_list_scan key (Some (length (group ''1'' g))) values lines
                       else values @ inline_items inline)
               | None \<Rightarrow>
                   (case base of
                      None \<Rightarrow> top_list_scan key base values lines
                    | Some b \<Rightarrow>
                        if indent_of line \<le> b then values
                        else (case re_match item_rx line of
                                None \<Rightarrow> top_list_scan key base values lines
                              | Some g \<Rightarrow>
                                  top_list_scan key base
                                    (values @ [strip_quotes (strip (group ''2'' g))]) lines))))"

definition yaml_top_list :: "string \<Rightarrow> string \<Rightarrow> string list" where
  "yaml_top_list text key = top_list_scan key None [] (splitlines text)"

definition render_yaml_top_list :: "string \<Rightarrow> string \<Rightarrow> string list" where
  "render_yaml_top_list text key = top_list_scan key None [] (splitlines text)"

text \<open>Once the path is found, \<^verbatim>\<open>yaml_path_list\<close> takes items until a line is not one.\<close>

fun path_list_items :: "nat \<Rightarrow> string list \<Rightarrow> string list" where
  "path_list_items list_indent [] = []"
| "path_list_items list_indent (line # lines) =
     (let stripped = strip line
      in if stripped = [] \<or> prefix ''#'' stripped then path_list_items list_indent lines
         else (case re_match item_rx line of
                 Some g \<Rightarrow>
                   if list_indent < length (group ''1'' g)
                   then strip_quotes (strip (group ''2'' g)) # path_list_items list_indent lines
                   else []
               | None \<Rightarrow> []))"

fun path_list_scan :: "string list \<Rightarrow> path_stack \<Rightarrow> string list \<Rightarrow> string list" where
  "path_list_scan path cur [] = []"
| "path_list_scan path cur (line # lines) =
     (let stripped = strip line
      in if stripped = [] \<or> prefix ''#'' stripped then path_list_scan path cur lines
         else (case re_match key_line_rx line of
                 None \<Rightarrow> path_list_scan path cur lines
               | Some g \<Rightarrow>
                   (let indent = length (group ''1'' g);
                        cur' = push_key indent (group ''2'' g) cur
                    in if stack_keys cur' = path then path_list_items indent lines
                       else path_list_scan path cur' lines)))"

definition yaml_path_list :: "string \<Rightarrow> string list \<Rightarrow> string list" where
  "yaml_path_list text path = path_list_scan path [] (splitlines text)"

section \<open>Editing a block list\<close>

fun contains_scan :: "string \<Rightarrow> string \<Rightarrow> nat option \<Rightarrow> string list \<Rightarrow> bool" where
  "contains_scan key item base [] = False"
| "contains_scan key item base (line # lines) =
     (case re_match (block_key_rx key) line of
        Some g \<Rightarrow> contains_scan key item (Some (length (group ''1'' g))) lines
      | None \<Rightarrow>
          (case base of
             None \<Rightarrow> contains_scan key item base lines
           | Some b \<Rightarrow>
               if strip line \<noteq> [] \<and> indent_of line \<le> b then False
               else if strip line = ''- '' @ item then True
               else contains_scan key item base lines))"

definition yaml_top_list_contains :: "string \<Rightarrow> string \<Rightarrow> string \<Rightarrow> bool" where
  "yaml_top_list_contains text key item = contains_scan key item None (splitlines text)"

definition item_line :: "nat \<Rightarrow> string \<Rightarrow> string" where
  "item_line base item = replicate (base + 2) CHR '' '' @ ''- '' @ item"

text \<open>The output lines, and whether the item was inserted.\<close>

fun append_scan :: "string \<Rightarrow> string \<Rightarrow> nat option \<Rightarrow> string list \<Rightarrow> string list \<times> bool" where
  "append_scan key item base [] =
     (case base of None \<Rightarrow> ([], False) | Some b \<Rightarrow> ([item_line b item], True))"
| "append_scan key item base (line # lines) =
     (case re_match (block_key_rx key) line of
        Some g \<Rightarrow>
          (case append_scan key item (Some (length (group ''1'' g))) lines of
             (out, ins) \<Rightarrow> (line # out, ins))
      | None \<Rightarrow>
          (case base of
             None \<Rightarrow> (case append_scan key item base lines of (out, ins) \<Rightarrow> (line # out, ins))
           | Some b \<Rightarrow>
               if strip line = [] \<or> indent_of line \<le> b
               then (item_line b item # line # lines, True)
               else (case append_scan key item base lines of (out, ins) \<Rightarrow> (line # out, ins))))"

definition append_yaml_top_list_item :: "string \<Rightarrow> string \<Rightarrow> string \<Rightarrow> string res" where
  "append_yaml_top_list_item text key item =
     (if yaml_top_list_contains text key item then Inr text
      else (case append_scan key item None (splitlines text) of
              (out, inserted) \<Rightarrow>
                fail_if (\<not> inserted) (''could not find YAML list '' @ [SQ] @ key @ [SQ])
                  (Inr (join [NL] out @ [NL]))))"

section \<open>What the patterns match\<close>

lemma one_line_dropWhile: "one_line l \<Longrightarrow> one_line (dropWhile P l)"
  by (metis one_line_append takeWhile_dropWhile_id)

lemma one_line_tl: "one_line l \<Longrightarrow> one_line (tl l)"
  by (cases l) auto

lemma key_line_match:
  assumes "one_line line"
  defines "r \<equiv> dropWhile is_space line"
  shows "re_match key_line_rx line =
     (if takeWhile is_key r \<noteq> [] \<and> dropWhile is_key r \<noteq> [] \<and> hd (dropWhile is_key r) = CHR '':''
      then Some [(''3'', strip (tl (dropWhile is_key r))), (''2'', takeWhile is_key r),
                 (''1'', takeWhile is_space line)]
      else None)"
proof -
  let ?tail = "RSeq (star is_space) (RSeq (RGrp ''3'' (lazy not_NL)) trailing_space)"
  let ?r2 = "RSeq (RGrp ''2'' (plus1 is_key)) (RSeq (RChr ((=) CHR '':'')) ?tail)"
  let ?pre = "rev (takeWhile is_space line)"
  have stop: "rmatch ?r2 (pre, c # t, g) = []" if "is_space c" for pre c t g
    using that is_key_not_space by (blast intro: rmatch_grp_plus_stop)
  have "rmatch key_line_rx ([], line, []) = rmatch ?r2 (?pre, r, [(''1'', takeWhile is_space line)])"
    unfolding key_line_rx_def rseq.simps rmatch_bol_seq r_def
    by (simp add: at_bol_def rmatch_grp_star_commit [OF stop] del: rmatch.simps)
  also have "\<dots> = (if takeWhile is_key r = [] then []
      else rmatch (RSeq (RChr ((=) CHR '':'')) ?tail) (rev (takeWhile is_key r) @ ?pre,
        dropWhile is_key r, [(''2'', takeWhile is_key r), (''1'', takeWhile is_space line)]))"
    by (rule rmatch_grp_plus_commit) (auto simp: rmatch_chr_seq)
  finally have eq: "rmatch key_line_rx ([], line, []) = \<dots>" .
  show ?thesis
  proof (cases "dropWhile is_key r")
    case (Cons c v)
    then have "one_line v" using one_line_tl [OF one_line_dropWhile, of r is_key]
      one_line_dropWhile [OF assms(1), of is_space] by (simp add: r_def)
    from rmatch_after_colon [OF this] Cons show ?thesis
      by (simp add: re_match_first eq rmatch_chr_seq del: rmatch.simps)
  qed (simp add: re_match_first eq rmatch_chr_seq del: rmatch.simps dropWhile_eq_Nil_conv)
qed

lemma rmatch_lit_not_start:
  "key \<noteq> [] \<Longrightarrow> \<not> P (hd key) \<Longrightarrow> P c \<Longrightarrow> rmatch (RSeq (rlit key) q) (pre, c # t, g) = []"
  by (cases key) (auto simp: rmatch_lit_seq)

lemma rmatch_keyed:
  assumes "key \<noteq> []" "\<not> is_space (hd key)"
  shows "rmatch (rseq (RBol False # RGrp ''1'' (star is_space) # rlit key #
            RChr ((=) CHR '':'') # q # qs)) ([], line, []) =
     (if prefix (key @ '':'') (dropWhile is_space line)
      then rmatch (rseq (q # qs)) (rev (takeWhile is_space line @ key @ '':''),
             drop (Suc (length key)) (dropWhile is_space line), [(''1'', takeWhile is_space line)])
      else [])"
proof -
  let ?q = "RSeq (RChr ((=) CHR '':'')) (rseq (q # qs))"
  have stop: "rmatch (RSeq (rlit key) ?q) (pre, c # t, g) = []" if "is_space c" for pre c t g
    using rmatch_lit_not_start assms that by blast
  have "rmatch (rseq (RBol False # RGrp ''1'' (star is_space) # rlit key #
            RChr ((=) CHR '':'') # q # qs)) ([], line, []) =
      rmatch (RSeq (rlit key) ?q)
        (rev (takeWhile is_space line), dropWhile is_space line, [(''1'', takeWhile is_space line)])"
    by (simp add: at_bol_def rmatch_bol_seq rmatch_grp_star_commit [OF stop] del: rmatch.simps)
  also have "\<dots> = (if prefix (key @ '':'') (dropWhile is_space line)
      then rmatch (rseq (q # qs)) (rev (takeWhile is_space line @ key @ '':''),
             drop (Suc (length key)) (dropWhile is_space line), [(''1'', takeWhile is_space line)])
      else [])"
    by (auto simp: rmatch_lit_seq rmatch_chr_seq prefix_def split: list.splits simp del: rmatch.simps)
  finally show ?thesis .
qed

lemma list_key_match:
  assumes "one_line line" "key \<noteq> []" "\<not> is_space (hd key)"
  defines "r \<equiv> dropWhile is_space line"
  shows "re_match (list_key_rx key) line =
     (if prefix (key @ '':'') r
      then Some [(''2'', dropWhile is_space (drop (Suc (length key)) r)), (''1'', takeWhile is_space line)]
      else None)"
proof -
  let ?q = "RSeq (RGrp ''2'' (star not_NL)) (REol False)"
  have ol: "one_line (dropWhile is_space (drop (Suc (length key)) r))"
    using one_line_dropWhile [OF assms(1), of is_space]
    by (metis append_take_drop_id one_line_append one_line_dropWhile r_def)
  have all: "rmatch ?q (pre, v, g) = (rev v @ pre, [], (''2'', v) # g) # tl (rmatch ?q (pre, v, g))"
    if "one_line v" for pre v g
  proof -
    obtain more where "rmatch (star not_NL) (pre, v, g) =
        (rev (takeWhile not_NL v) @ pre, dropWhile not_NL v, g) # more"
      using rmatch_star_longest by blast
    moreover have "dropWhile not_NL v = []"
      using takeWhile_not_NL [OF that] by (metis takeWhile_eq_all_conv dropWhile_eq_Nil_conv)
    ultimately show ?thesis by (simp add: takeWhile_not_NL [OF that] at_eol_def)
  qed
  have first: "first (rmatch (RSeq (star is_space) ?q) (pre, v, g)) =
      Some (rev v @ pre, [], (''2'', dropWhile is_space v) # g)"
    if "one_line (dropWhile is_space v)" for pre v g
  proof -
    note a = all [OF that, of "rev (takeWhile is_space v) @ pre" g]
    have "first (rmatch (RSeq (star is_space) ?q) (pre, v, g)) =
        first (rmatch ?q (rev (takeWhile is_space v) @ pre, dropWhile is_space v, g))"
      by (rule rmatch_star_first) (metis a list.distinct(1))
    also have "\<dots> = Some (rev (dropWhile is_space v) @ rev (takeWhile is_space v) @ pre, [],
        (''2'', dropWhile is_space v) # g)"
      by (subst a) simp
    finally show ?thesis by (metis append_assoc rev_append takeWhile_dropWhile_id)
  qed
  have "rmatch (list_key_rx key) ([], line, []) =
     (if prefix (key @ '':'') r
      then rmatch (RSeq (star is_space) ?q) (rev (takeWhile is_space line @ key @ '':''),
             drop (Suc (length key)) r, [(''1'', takeWhile is_space line)])
      else [])"
    unfolding list_key_rx_def r_def by (subst rmatch_keyed [OF assms(2,3)]) simp
  then show ?thesis using first [OF ol] by (simp add: re_match_first del: rmatch.simps)
qed

lemma block_key_match:
  assumes "one_line line" "key \<noteq> []" "\<not> is_space (hd key)"
  defines "r \<equiv> dropWhile is_space line"
  shows "re_match (block_key_rx key) line =
     (if prefix (key @ '':'') r \<and> strip (drop (Suc (length key)) r) = []
      then Some [(''1'', takeWhile is_space line)] else None)"
proof -
  let ?v = "drop (Suc (length key)) r"
  have ol: "one_line ?v"
    using one_line_dropWhile [OF assms(1), of is_space]
    by (metis append_take_drop_id one_line_append r_def)
  have "rmatch (block_key_rx key) ([], line, []) =
     (if prefix (key @ '':'') r
      then rmatch trailing_space (rev (takeWhile is_space line @ key @ '':''), ?v,
             [(''1'', takeWhile is_space line)])
      else [])"
    unfolding block_key_rx_def r_def by (subst rmatch_keyed [OF assms(2,3)]) simp
  then show ?thesis
    using rmatch_trailing_space_all rmatch_trailing_space_stop [OF ol]
    by (cases "\<forall>c\<in>set ?v. is_space c") (auto simp: re_match_first strip_by_eq_Nil simp del: rmatch.simps)
qed

text \<open>
  Behind the dash of an item: when only white space is left, the last white space character is
  the item; otherwise the item is the text without the white space around it.
\<close>

abbreviation item_text :: rx where
  "item_text \<equiv> RSeq (RGrp ''2'' (rplus False (RChr not_NL))) trailing_space"

lemma rmatch_item_nil: "rmatch (RSeq (star is_space) item_text) (pre, [], g) = []"
  by (simp add: rmatch_star_Nil rplus_def)

lemma rmatch_item_blank:
  assumes "v \<noteq> []" "\<forall>c\<in>set v. is_space c" "one_line v"
  shows "first (rmatch (RSeq (star is_space) item_text) (pre, v, g)) =
     Some (rev v @ pre, [], (''2'', [last v]) # g)"
  using assms
proof (induction v arbitrary: pre)
  case (Cons c v)
  have split: "rmatch (RSeq (star is_space) item_text) (pre, c # v, g) =
      rmatch (RSeq (star is_space) item_text) (c # pre, v, g) @ rmatch item_text (pre, c # v, g)"
    using Cons.prems by (simp add: rmatch_star_Cons)
  show ?case
  proof (cases "v = []")
    case True
    with rmatch_plus_value [of c "[]" "''2''" pre g] Cons.prems show ?thesis
      by (simp add: split [unfolded True] rmatch_item_nil del: rmatch.simps)
  next
    case False
    with Cons.IH [of "c # pre"] Cons.prems show ?thesis
      by (simp add: split first_append del: rmatch.simps)
  qed
qed simp

lemma rmatch_item_full:
  assumes "strip v \<noteq> []" "one_line v"
  shows "first (rmatch (RSeq (star is_space) item_text) (pre, v, g)) =
     Some (rev v @ pre, [], (''2'', strip v) # g)"
proof -
  obtain c w where cw: "dropWhile is_space v = c # w"
    using assms(1) by (cases "dropWhile is_space v") (auto simp: strip_by_eq_Nil)
  then have c: "\<not> is_space c" by (rule takeWhile_dropWhile_hd)
  have ol: "one_line (c # w)" using one_line_dropWhile [OF assms(2)] cw by metis
  have sv: "strip v = c # rstrip_by is_space w"
    using c by (simp add: strip_by_def lstrip_by_def cw rstrip_by_def dropWhile_append3)
  have rv: "rev (c # w) @ rev (takeWhile is_space v) @ pre = rev v @ pre"
    by (metis append_assoc cw rev_append takeWhile_dropWhile_id)
  note val = rmatch_plus_value [OF ol, of "''2''" "rev (takeWhile is_space v) @ pre" g]
  have "rmatch item_text (rev (takeWhile is_space v) @ pre, dropWhile is_space v, g) \<noteq> []"
    using val unfolding cw by (metis first_None option.distinct(1))
  from rmatch_star_first [OF this] show ?thesis
    using val unfolding cw sv rv by (simp only:)
qed

text \<open>A line with an item: white space, a dash and at least one more character.\<close>

lemma item_match:
  assumes "one_line line"
  defines "r \<equiv> dropWhile is_space line"
  shows "re_match item_rx line =
     (if prefix ''-'' r \<and> tl r \<noteq> []
      then Some [(''2'', if strip (tl r) = [] then [last r] else strip (tl r)),
                 (''1'', takeWhile is_space line)]
      else None)"
proof -
  let ?s = "RSeq (star is_space) item_text"
  let ?g = "[(''1'', takeWhile is_space line)]"
  have stop: "rmatch (RSeq (RChr ((=) CHR ''-'')) ?s) (pre, c # t, g) = []" if "is_space c" for pre c t g
    using that by (auto simp: rmatch_chr_seq simp del: rmatch.simps)
  have eq: "rmatch item_rx ([], line, []) =
     rmatch (RSeq (RChr ((=) CHR ''-'')) ?s) (rev (takeWhile is_space line), r, ?g)"
    unfolding item_rx_def rseq.simps rmatch_bol_seq r_def
    by (simp add: at_bol_def rmatch_grp_star_commit [OF stop] del: rmatch.simps)
  show ?thesis
  proof (cases r)
    case (Cons d v)
    have ol: "one_line v" using one_line_dropWhile [OF assms(1), of is_space] Cons by (simp add: r_def)
    show ?thesis
    proof (cases "d = CHR ''-'' \<and> v \<noteq> []")
      case True
      with Cons rmatch_item_blank [OF _ _ ol] rmatch_item_full [OF _ ol] show ?thesis
        by (cases "strip v = []") (auto simp: re_match_first eq rmatch_chr_seq strip_by_eq_Nil simp del: rmatch.simps)
    next
      case False
      with Cons rmatch_item_nil show ?thesis
        by (auto simp: re_match_first eq rmatch_chr_seq simp del: rmatch.simps)
    qed
  qed (simp add: re_match_first eq rmatch_chr_seq del: rmatch.simps)
qed

end
