(* ===== verification/Yaml_Tree.thy ===== *)
theory Yaml_Tree
  imports Yaml_Scan
begin

text \<open>
  The abstract view of a descriptor: an ordered tree of named entries, its printed form, and
  the lookup of a key path in it. The scanners of \<open>Yaml_Scan\<close> implement this lookup on every
  printed tree; the locale \<open>descriptor_reader\<close> states that contract, and the three readers of
  the sources are its instances.
\<close>

section \<open>Trees, their printed form, and lookup\<close>

datatype ynode = YScalar string | YMap "(string \<times> ynode) list" | YList "string list"

type_synonym ytree = "(string \<times> ynode) list"

definition blanks :: "nat \<Rightarrow> string" where
  "blanks n = replicate n CHR '' ''"

function ydoc :: "nat \<Rightarrow> ytree \<Rightarrow> string list" where
  "ydoc n [] = []"
| "ydoc n ((k, YScalar v) # es) = (blanks n @ k @ '': '' @ v) # ydoc n es"
| "ydoc n ((k, YMap m) # es) = (blanks n @ k @ '':'') # ydoc (n + 2) m @ ydoc n es"
| "ydoc n ((k, YList xs) # es) =
     (blanks n @ k @ '':'') # map (\<lambda>x. blanks (n + 2) @ ''- '' @ x) xs @ ydoc n es"
  by pat_completeness auto
termination
  by (relation "measure (\<lambda>(n, es). size (YMap es))") auto

text \<open>What the reader returns at an entry: the value of a scalar, nothing for a collection.\<close>

fun yvalue :: "ynode \<Rightarrow> string option" where
  "yvalue (YScalar v) = Some v"
| "yvalue (YMap m) = None"
| "yvalue (YList xs) = None"

text \<open>\<open>yfind\<close> tells an entry without a value (\<open>Some None\<close>) from no entry at all.\<close>

function yfind :: "ytree \<Rightarrow> string list \<Rightarrow> string option option" where
  "yfind [] ks = None"
| "yfind ((k, nd) # es) ks =
     (if ks = [k] then Some (yvalue nd)
      else if ks \<noteq> [] \<and> hd ks = k
      then (case nd of
              YMap m \<Rightarrow> (case yfind m (tl ks) of None \<Rightarrow> yfind es ks | Some r \<Rightarrow> Some r)
            | YScalar v \<Rightarrow> yfind es ks
            | YList xs \<Rightarrow> yfind es ks)
      else yfind es ks)"
  by pat_completeness auto
termination
  by (relation "measure (\<lambda>(es, ks). size (YMap es))") auto

definition ylookup :: "ytree \<Rightarrow> string list \<Rightarrow> string option" where
  "ylookup t ks = Option.bind (yfind t ks) id"

text \<open>Well-formed trees, relative to the values a reader leaves as they are.\<close>

definition plain_text :: "string \<Rightarrow> bool" where
  "plain_text v = (v \<noteq> [] \<and> one_line v \<and> strip v = v)"

definition key_text :: "string \<Rightarrow> bool" where
  "key_text k = (k \<noteq> [] \<and> list_all is_key k)"

function ywf :: "(string \<Rightarrow> bool) \<Rightarrow> ytree \<Rightarrow> bool" where
  "ywf ok [] = True"
| "ywf ok ((k, YScalar v) # es) = (key_text k \<and> plain_text v \<and> ok v \<and> ywf ok es)"
| "ywf ok ((k, YMap m) # es) = (key_text k \<and> ywf ok m \<and> ywf ok es)"
| "ywf ok ((k, YList xs) # es) = (key_text k \<and> list_all plain_text xs \<and> ywf ok es)"
  by pat_completeness auto
termination
  by (relation "measure (\<lambda>(ok, es). size (YMap es))") auto

definition nonblank :: "string \<Rightarrow> bool" where
  "nonblank l = (strip l \<noteq> [])"

section \<open>Scanning one line\<close>

lemma takeWhile_blanks: "xs = [] \<or> \<not> is_space (hd xs) \<Longrightarrow> takeWhile is_space (blanks n @ xs) = blanks n"
  by (rule takeWhile_append_stop) (auto simp: blanks_def)

lemma dropWhile_blanks: "xs = [] \<or> \<not> is_space (hd xs) \<Longrightarrow> dropWhile is_space (blanks n @ xs) = xs"
  by (rule dropWhile_append_stop) (auto simp: blanks_def)

lemma length_blanks [simp]: "length (blanks n) = n"
  by (simp add: blanks_def)

lemma one_line_blanks [simp]: "one_line (blanks n)"
  by (simp add: blanks_def)

lemma strip_blanks [simp]: "strip (blanks n @ s) = strip s"
  by (rule strip_by_append_all_left) (simp add: blanks_def)

lemma key_text_hd: "key_text k \<Longrightarrow> is_key (hd k)"
  by (cases k) (auto simp: key_text_def)

lemma key_text_props: "key_text k \<Longrightarrow> k \<noteq> [] \<and> (\<forall>c\<in>set k. is_key c) \<and> one_line k"
  by (auto simp: key_text_def list_all_iff one_line_keys)

lemma strip_head:
  assumes "s \<noteq> []" "\<not> P (hd s)"
  shows "strip_by P s \<noteq> []" "hd (strip_by P s) = hd s"
proof -
  show ne: "strip_by P s \<noteq> []" using assms by (auto simp: strip_by_eq_Nil intro: list.set_sel(1))
  show "hd (strip_by P s) = hd s"
    using ne assms by (simp add: strip_by_def lstrip_by_self hd_rstrip_by)
qed

lemma key_line_groups:
  assumes "key_text k" "one_line v"
  shows "re_match key_line_rx (blanks n @ k @ CHR '':'' # v) =
     Some [(''3'', strip v), (''2'', k), (''1'', blanks n)]"
proof -
  let ?r = "k @ CHR '':'' # v"
  have hd: "\<not> is_space (hd ?r)" using key_text_hd [OF assms(1)] key_text_props [OF assms(1)]
    by (auto simp: is_key_not_space)
  have "takeWhile is_key ?r = k" "dropWhile is_key ?r = CHR '':'' # v"
    using key_text_props [OF assms(1)] by (auto intro: takeWhile_append_stop dropWhile_append_stop)
  then show ?thesis
    using assms key_text_props [OF assms(1)] hd
    by (subst key_line_match) (simp_all add: takeWhile_blanks dropWhile_blanks)
qed

lemma entry_not_skipped:
  assumes "key_text k"
  shows "strip (blanks n @ k @ t) \<noteq> []" "\<not> prefix ''#'' (strip (blanks n @ k @ t))"
    "\<not> prefix ''- '' (strip (blanks n @ k @ t))"
proof -
  have h: "k @ t \<noteq> []" "\<not> is_space (hd (k @ t))" "is_key (hd (k @ t))"
    using key_text_hd [OF assms] key_text_props [OF assms] by (auto simp: is_key_not_space)
  show "strip (blanks n @ k @ t) \<noteq> []" using strip_head [of _ is_space, OF h(1,2)] by simp
  moreover have "hd (strip (blanks n @ k @ t)) = hd (k @ t)" using strip_head [of _ is_space, OF h(1,2)] by simp
  ultimately show "\<not> prefix ''#'' (strip (blanks n @ k @ t))"
    "\<not> prefix ''- '' (strip (blanks n @ k @ t))"
    using h(3) not_key_punct(2,3) by (metis append_Cons list.sel(1) prefix_def)+
qed

lemma scan_entry:
  assumes "key_text k" "one_line v"
  shows "scan_scalar unq path cur ((blanks n @ k @ CHR '':'' # v) # lines) =
     (let cur' = push_key n k cur
      in if stack_keys cur' = path then (if strip v = [] then None else Some (unq (strip v)))
         else scan_scalar unq path cur' lines)"
  using entry_not_skipped [OF assms(1)] key_line_groups [OF assms]
  by (simp add: group_def Let_def)

lemma scan_items:
  "list_all plain_text xs \<Longrightarrow>
     scan_scalar unq path cur (map (\<lambda>x. blanks n @ ''- '' @ x) xs @ lines) =
     scan_scalar unq path cur lines"
proof (induction xs)
  case (Cons x xs)
  then have x: "x \<noteq> []" "strip x = x" by (auto simp: plain_text_def)
  then have "\<not> is_space (last x)" by (metis strip_by_ends(2))
  with x have "strip (''- '' @ x) = ''- '' @ x" by (intro strip_by_self) auto
  then have "prefix ''- '' (strip (blanks n @ ''- '' @ x))" by simp
  with Cons show ?case by simp
qed simp

lemma scan_blank_lines:
  "scan_scalar unq path cur (filter nonblank lines) = scan_scalar unq path cur lines"
  by (induction lines arbitrary: cur) (auto simp: nonblank_def Let_def split: option.splits)

section \<open>Scanning a printed tree\<close>

text \<open>The entries of a stack that an entry at indentation \<open>n\<close> leaves in place.\<close>

definition below :: "nat \<Rightarrow> path_stack \<Rightarrow> path_stack" where
  "below n cur = dropWhile (\<lambda>e. n \<le> fst e) cur"

text \<open>What a scan finds in a tree printed at indentation \<open>n\<close> when it enters it with \<open>cur\<close>.\<close>

definition yfind_at :: "nat \<Rightarrow> ytree \<Rightarrow> path_stack \<Rightarrow> string list \<Rightarrow> string option option" where
  "yfind_at n t cur path =
     (if prefix (stack_keys (below n cur)) path
      then yfind t (drop (length (below n cur)) path) else None)"

lemma below_below [simp]: "m \<le> n \<Longrightarrow> below m (below n cur) = below m cur"
  by (induction cur) (auto simp: below_def)

lemma below_push: "below n (push_key n k cur) = below n cur"
  by (simp add: push_key_def below_def)

lemma below_push_deeper: "below (n + 2) (push_key n k cur) = push_key n k cur"
  by (simp add: push_key_def below_def)

lemma length_stack_keys [simp]: "length (stack_keys cur) = length cur"
  by (simp add: stack_keys_def)

lemma stack_keys_push: "stack_keys (push_key n k cur) = stack_keys (below n cur) @ [k]"
  by (simp add: stack_keys_def push_key_def below_def)

lemma length_push: "length (push_key n k cur) = Suc (length (below n cur))"
  by (simp add: push_key_def below_def)

lemma push_hits: "stack_keys (push_key n k cur) = path \<longleftrightarrow>
    prefix (stack_keys (below n cur)) path \<and> drop (length (below n cur)) path = [k]"
  by (auto simp: stack_keys_push prefix_def)

lemma push_prefix: "prefix (stack_keys (push_key n k cur)) path \<longleftrightarrow>
    prefix (stack_keys (below n cur)) path \<and> drop (length (below n cur)) path \<noteq> [] \<and>
    hd (drop (length (below n cur)) path) = k"
  by (auto simp: stack_keys_push prefix_def neq_Nil_conv)

lemma drop_push: "drop (length (push_key n k cur)) path = tl (drop (length (below n cur)) path)"
  by (simp add: length_push drop_Suc tl_drop)

lemma yfind_at_Cons:
  "yfind_at n ((k, nd) # es) cur path =
     (if stack_keys (push_key n k cur) = path then Some (yvalue nd)
      else case (case nd of YMap m \<Rightarrow> yfind_at (n + 2) m (push_key n k cur) path | _ \<Rightarrow> None) of
             None \<Rightarrow> yfind_at n es cur path | Some r \<Rightarrow> Some r)"
  unfolding yfind_at_def below_push_deeper push_hits push_prefix drop_push
  by (auto split: ynode.splits option.splits)

lemma scan_doc:
  assumes "ywf ok t" and unq: "\<And>v. ok v \<Longrightarrow> unq v = v"
  shows "\<exists>cur'. below n cur' = below n cur \<and>
     scan_scalar unq path cur (ydoc n t @ lines) =
       (case yfind_at n t cur path of None \<Rightarrow> scan_scalar unq path cur' lines | Some r \<Rightarrow> r)"
  using assms(1)
proof (induction n t arbitrary: cur lines rule: ydoc.induct)
  case (1 n)
  show ?case by (rule exI [of _ cur]) (simp add: yfind_at_def)
next
  case (2 n k v es)
  then have wf: "key_text k" "one_line (CHR '' '' # v)" "strip (CHR '' '' # v) = v" "v \<noteq> []" "unq v = v"
    using unq by (auto simp: plain_text_def strip_by_def lstrip_by_def)
  from "2.IH" "2.prems" obtain cur' where IH: "below n cur' = below n (push_key n k cur)"
      "scan_scalar unq path (push_key n k cur) (ydoc n es @ lines) =
        (case yfind_at n es (push_key n k cur) path of
           None \<Rightarrow> scan_scalar unq path cur' lines | Some r \<Rightarrow> r)" by fastforce
  then show ?case
    using scan_entry [OF wf(1,2), of unq path cur n "ydoc n es @ lines"] wf
    by (intro exI [of _ cur']) (simp add: below_push yfind_at_Cons Let_def, simp add: yfind_at_def below_push)
next
  case (3 n k m es)
  let ?c1 = "push_key n k cur"
  from 3 have wf: "key_text k" "ywf ok m" "ywf ok es" by auto
  obtain c2 where c2: "below (n + 2) c2 = below (n + 2) ?c1"
      "scan_scalar unq path ?c1 (ydoc (n + 2) m @ ydoc n es @ lines) =
        (case yfind_at (n + 2) m ?c1 path of
           None \<Rightarrow> scan_scalar unq path c2 (ydoc n es @ lines) | Some r \<Rightarrow> r)"
    using "3.IH"(1) [OF wf(2), of ?c1 "ydoc n es @ lines"] by blast
  obtain c3 where c3: "below n c3 = below n c2"
      "scan_scalar unq path c2 (ydoc n es @ lines) =
        (case yfind_at n es c2 path of None \<Rightarrow> scan_scalar unq path c3 lines | Some r \<Rightarrow> r)"
    using "3.IH"(2) [OF wf(3), of c2 lines] by blast
  have b2: "below n c2 = below n cur"
    using c2(1) by (metis below_below below_push le_add1)
  have "yfind_at n es c2 path = yfind_at n es cur path" by (simp add: yfind_at_def b2)
  then show ?case
    using scan_entry [OF wf(1), of "[]" unq path cur n "ydoc (n + 2) m @ ydoc n es @ lines"] c2 c3 b2
    by (intro exI [of _ c3]) (auto simp: yfind_at_Cons Let_def split: option.splits)
next
  case (4 n k xs es)
  let ?c1 = "push_key n k cur"
  from 4 have wf: "key_text k" "list_all plain_text xs" "ywf ok es" by auto
  obtain c2 where c2: "below n c2 = below n ?c1"
      "scan_scalar unq path ?c1 (ydoc n es @ lines) =
        (case yfind_at n es ?c1 path of None \<Rightarrow> scan_scalar unq path c2 lines | Some r \<Rightarrow> r)"
    using "4.IH" [OF wf(3), of ?c1 lines] by blast
  have "yfind_at n es ?c1 path = yfind_at n es cur path" by (simp add: yfind_at_def below_push)
  then show ?case
    using scan_entry [OF wf(1), of "[]" unq path cur n
        "map (\<lambda>x. blanks (n + 2) @ ''- '' @ x) xs @ ydoc n es @ lines"] c2
      scan_items [OF wf(2), of unq path ?c1 "n + 2" "ydoc n es @ lines"]
    by (intro exI [of _ c2]) (auto simp: yfind_at_Cons Let_def below_push)
qed

lemma scan_printed:
  assumes "ywf ok t" "\<And>v. ok v \<Longrightarrow> unq v = v" "filter nonblank ls = ydoc 0 t"
  shows "scan_scalar unq path [] ls = ylookup t path"
proof -
  have "below 0 [] = []" by (simp add: below_def)
  then have "yfind_at 0 t [] path = yfind t path" by (simp add: yfind_at_def stack_keys_def)
  moreover obtain cur' where "scan_scalar unq path [] (ydoc 0 t @ []) =
      (case yfind_at 0 t [] path of None \<Rightarrow> scan_scalar unq path cur' [] | Some r \<Rightarrow> r)"
    using scan_doc [of ok t unq 0 "[]" path "[]"] assms(1,2) by blast
  ultimately have "scan_scalar unq path [] (ydoc 0 t) = ylookup t path"
    by (simp add: ylookup_def split: option.splits)
  then show ?thesis using scan_blank_lines [of unq path "[]" ls] assms(3) by simp
qed

section \<open>Lists in a printed tree\<close>

function ykeys :: "ytree \<Rightarrow> string list" where
  "ykeys [] = []"
| "ykeys ((k, YScalar v) # es) = k # ykeys es"
| "ykeys ((k, YMap m) # es) = k # ykeys m @ ykeys es"
| "ykeys ((k, YList xs) # es) = k # ykeys es"
  by pat_completeness auto
termination
  by (relation "measure (\<lambda>es. size (YMap es))") auto

definition quote_free :: "string \<Rightarrow> bool" where
  "quote_free x = (strip_quotes x = x)"

lemma prefix_key_colon:
  assumes "key_text key" "key_text k"
  shows "prefix (key @ '':'') (k @ CHR '':'' # v) \<longleftrightarrow> k = key"
proof
  assume "prefix (key @ '':'') (k @ CHR '':'' # v)"
  then obtain z where z: "k @ CHR '':'' # v = key @ CHR '':'' # z" by (auto simp: prefix_def)
  have "takeWhile is_key (k' @ CHR '':'' # w) = k'" if "key_text k'" for k' w
    using key_text_props [OF that] by (intro takeWhile_append_stop) auto
  with z assms show "k = key" by metis
qed auto

lemma list_key_entry:
  assumes "key_text key" "key_text k" "one_line v"
  shows "re_match (list_key_rx key) (blanks n @ k @ CHR '':'' # v) =
     (if k = key then Some [(''2'', dropWhile is_space v), (''1'', blanks n)] else None)"
proof -
  let ?r = "k @ CHR '':'' # v"
  have hd: "\<not> is_space (hd ?r)" "?r \<noteq> []" "\<not> is_space (hd key)" "key \<noteq> []"
    using key_text_hd key_text_props assms(1,2) by (auto simp: is_key_not_space)
  have "one_line (blanks n @ ?r)" using assms(2,3) key_text_props by auto
  from list_key_match [OF this hd(4,3)] show ?thesis
    using hd prefix_key_colon [OF assms(1,2)]
    by (auto simp: takeWhile_blanks dropWhile_blanks)
qed

lemma list_key_item:
  assumes "key_text key" "plain_text x"
  shows "re_match (list_key_rx key) (blanks n @ ''- '' @ x) = None"
proof -
  have ne: "key \<noteq> []" using key_text_props [OF assms(1)] by blast
  have sp: "\<not> is_space (hd key)" using key_text_hd [OF assms(1)] by (rule is_key_not_space)
  have dash: "hd key \<noteq> CHR ''-''" using key_text_hd [OF assms(1)] not_key_punct(2) by metis
  have ol: "one_line (blanks n @ ''- '' @ x)" using assms(2) by (simp add: plain_text_def)
  have "dropWhile is_space (blanks n @ ''- '' @ x) = ''- '' @ x" by (rule dropWhile_blanks) simp
  moreover have "\<not> prefix (key @ '':'') (''- '' @ x)" using ne dash by (cases key) auto
  ultimately show ?thesis unfolding list_key_match [OF ol ne sp] by simp
qed

lemma item_groups:
  assumes "plain_text x"
  shows "re_match item_rx (blanks n @ ''- '' @ x) = Some [(''2'', x), (''1'', blanks n)]"
proof -
  have ol: "one_line (blanks n @ ''- '' @ x)" using assms by (simp add: plain_text_def)
  have "strip (CHR '' '' # x) = x" "x \<noteq> []"
    using assms by (auto simp: plain_text_def strip_by_def lstrip_by_def)
  with item_match [OF ol] show ?thesis
    by (auto simp: takeWhile_blanks [of "''- '' @ x", simplified] dropWhile_blanks [of "''- '' @ x", simplified])
qed

lemma item_not_skipped:
  assumes "plain_text x"
  shows "strip (blanks n @ ''- '' @ x) = ''- '' @ x"
proof -
  have "\<not> is_space (last x)" "x \<noteq> []" using assms by (auto simp: plain_text_def) (metis strip_by_ends(2))
  then have "strip (''- '' @ x) = ''- '' @ x" by (intro strip_by_self) auto
  then show ?thesis by simp
qed

lemma top_list_skip_doc:
  assumes "key_text key" "ywf ok t" "key \<notin> set (ykeys t)"
  shows "top_list_scan key None vals (ydoc n t @ lines) = top_list_scan key None vals lines"
  using assms(2,3)
proof (induction n t arbitrary: lines rule: ydoc.induct)
  case (2 n k v es)
  then show ?case using entry_not_skipped list_key_entry [OF assms(1), of k "CHR '' '' # v"]
    by (auto simp: plain_text_def)
next
  case (3 n k m es)
  then show ?case using entry_not_skipped list_key_entry [OF assms(1), of k "[]"] by auto
next
  case (4 n k xs es)
  have "list_all plain_text xs \<Longrightarrow> top_list_scan key None vals
      (map (\<lambda>x. blanks (n + 2) @ ''- '' @ x) xs @ rest) = top_list_scan key None vals rest" for xs rest
    by (induction xs) (auto simp: item_not_skipped [simplified] list_key_item [OF assms(1), simplified])
  with 4 show ?case using entry_not_skipped list_key_entry [OF assms(1), of k "[]"] by auto
qed simp

lemma top_list_items:
  assumes "key_text key" "list_all plain_text xs" "list_all quote_free xs" "b < n"
  shows "top_list_scan key (Some b) vals (map (\<lambda>x. blanks n @ ''- '' @ x) xs @ lines) =
     top_list_scan key (Some b) (vals @ xs) lines"
  using assms(2,3)
proof (induction xs arbitrary: vals)
  case (Cons x xs)
  then have x: "plain_text x" "strip x = x" "strip_quotes x = x"
    by (auto simp: plain_text_def quote_free_def)
  have "lstrip_by is_space (blanks n @ ''- '' @ x) = ''- '' @ x"
    unfolding lstrip_by_def by (rule dropWhile_blanks) simp
  then have "\<not> indent_of (blanks n @ ''- '' @ x) \<le> b" using assms(4) by (simp add: indent_of_def)
  with x Cons show ?case
    by (simp add: item_not_skipped [simplified] list_key_item [OF assms(1), simplified]
        item_groups [simplified] group_def)
qed simp

lemma top_list_stop:
  assumes "key_text key" "ywf ok t" "key \<notin> set (ykeys t)" "t \<noteq> []"
  shows "top_list_scan key (Some n) vals (ydoc n t @ lines) = vals"
proof -
  obtain k nd es where t: "t = (k, nd) # es" using assms(4) by (cases t) auto
  obtain v ls where d: "ydoc n t = (blanks n @ k @ CHR '':'' # v) # ls" "one_line v"
    using assms(2) t by (cases nd) (auto simp: plain_text_def)
  have k: "key_text k" "k \<noteq> key" using assms t by (cases nd; auto)+
  have "lstrip_by is_space (blanks n @ k @ CHR '':'' # v) = k @ CHR '':'' # v"
    unfolding lstrip_by_def using key_text_hd [OF k(1)] key_text_props [OF k(1)]
    by (intro dropWhile_blanks) (auto simp: is_key_not_space)
  then have "indent_of (blanks n @ k @ CHR '':'' # v) = n" by (simp add: indent_of_def)
  then show ?thesis
    using d entry_not_skipped [OF k(1)] list_key_entry [OF assms(1) k(1) d(2)] k(2) by simp
qed

lemma top_list_blank_lines:
  "top_list_scan key base vals (filter nonblank lines) = top_list_scan key base vals lines"
  by (induction lines arbitrary: base vals) (auto simp: nonblank_def Let_def split: option.splits)

lemma blanks_0: "blanks 0 = []"
  by (simp add: blanks_def)

lemma ydoc_append: "ydoc n (t @ u) = ydoc n t @ ydoc n u"
  by (induction n t rule: ydoc.induct) auto

lemma ywf_append: "ywf ok (t @ u) \<longleftrightarrow> ywf ok t \<and> ywf ok u"
  by (induction ok t rule: ywf.induct) auto

lemma top_list_printed:
  assumes "ywf ok (t @ (key, YList xs) # u)" "key \<notin> set (ykeys t)" "key \<notin> set (ykeys u)"
    "list_all quote_free xs" "filter nonblank ls = ydoc 0 (t @ (key, YList xs) # u)"
  shows "top_list_scan key None [] ls = xs"
proof -
  from assms(1) have wf: "ywf ok t" "key_text key" "list_all plain_text xs" "ywf ok u"
    by (auto simp: ywf_append)
  have key: "re_match (list_key_rx key) (key @ '':'') = Some [(''2'', []), (''1'', [])]"
    using list_key_entry [OF wf(2,2), of "[]" 0] by (simp add: blanks_def)
  have "top_list_scan key (Some 0) xs (ydoc 0 u) = xs"
    using top_list_stop [OF wf(2,4) assms(3), of 0 xs "[]"] by (cases u) auto
  then have "top_list_scan key None [] (ydoc 0 (t @ (key, YList xs) # u)) = xs"
    using entry_not_skipped [OF wf(2), of 0 "'':''"]
      top_list_items [OF wf(2,3) assms(4), of 0 2 "[]" "ydoc 0 u"]
    by (simp add: ydoc_append top_list_skip_doc [OF wf(2,1) assms(2)] key group_def blanks_0 numeral_2_eq_2)
  then show ?thesis using top_list_blank_lines [of key None "[]" ls] assms(5) by simp
qed

section \<open>The contract of a descriptor reader\<close>

lemma ydoc_lines: "ywf ok t \<Longrightarrow> l \<in> set (ydoc n t) \<Longrightarrow> one_line l \<and> nonblank l"
proof (induction n t rule: ydoc.induct)
  case (2 n k v es)
  then show ?case using key_text_props [of k] entry_not_skipped [of k n "'': '' @ v"]
    by (auto simp: plain_text_def nonblank_def)
next
  case (3 n k m es)
  then show ?case using key_text_props [of k] entry_not_skipped [of k n "'':''"]
    by (auto simp: nonblank_def)
next
  case (4 n k xs es)
  have "one_line (blanks m @ ''- '' @ x) \<and> nonblank (blanks m @ ''- '' @ x)" if "plain_text x" for m x
    using that item_not_skipped [OF that] by (simp add: nonblank_def plain_text_def)
  with 4 show ?case using key_text_props [of k] entry_not_skipped [of k n "'':''"]
    by (auto simp: nonblank_def list_all_iff)
qed simp

locale descriptor_reader =
  fixes read :: "string \<Rightarrow> string list \<Rightarrow> string option"
    and ok :: "string \<Rightarrow> bool"
  assumes read_printed: "ywf ok t \<Longrightarrow> list_all one_line ls \<Longrightarrow> filter nonblank ls = ydoc 0 t \<Longrightarrow>
    read (unlines ls) path = ylookup t path"
begin

lemma read_doc: "ywf ok t \<Longrightarrow> read (unlines (ydoc 0 t)) path = ylookup t path"
  using ydoc_lines by (intro read_printed) (auto simp: list_all_iff intro!: filter_True)

text \<open>Sections before the one a path starts in do not change what is read.\<close>

lemma yfind_other_section: "hd ks \<notin> fst ` set t \<Longrightarrow> ks \<noteq> [] \<Longrightarrow> yfind (t @ u) ks = yfind u ks"
proof (induction t)
  case (Cons e t)
  then show ?case by (cases e) auto
qed simp

lemma read_section:
  assumes "ywf ok (t @ u)" "ks \<noteq> []" "hd ks \<notin> fst ` set t"
  shows "read (unlines (ydoc 0 (t @ u))) ks = read (unlines (ydoc 0 u)) ks"
proof -
  have "ywf ok u" using assms(1) by (simp add: ywf_append)
  then show ?thesis using assms by (simp add: read_doc ylookup_def yfind_other_section)
qed

end

lemma scan_unquote: "scan_scalar unq path cur ls = map_option unq (scan_scalar id path cur ls)"
  by (induction ls arbitrary: cur) (auto simp: Let_def split: option.splits)

interpretation validate_reader: descriptor_reader yaml_path_scalar "\<lambda>v. unquote_ends v = v"
  by unfold_locales (simp add: yaml_path_scalar_def splitlines_unlines scan_printed)

interpretation deps_reader: descriptor_reader deps_yaml_path_scalar "\<lambda>v. unquote_all v = v"
  by unfold_locales (simp add: deps_yaml_path_scalar_def splitlines_unlines scan_printed)

interpretation render_reader: descriptor_reader render_yaml_path_scalar "\<lambda>v. unquote_all v = v"
  by unfold_locales (simp add: render_yaml_path_scalar_def splitlines_unlines scan_printed)

lemma scan_value_stripped:
  "list_all one_line ls \<Longrightarrow> scan_scalar id path cur ls = Some v \<Longrightarrow> strip v = v \<and> v \<noteq> []"
proof (induction ls arbitrary: cur)
  case (Cons l ls)
  then show ?case
    by (auto simp: Let_def key_line_match group_def split: if_splits option.splits)
qed simp

lemma strip_quotes_of_ends:
  assumes "v = unquote_ends raw" "raw \<noteq> []"
    "v = [] \<or> \<not> is_quote (hd v) \<and> \<not> is_quote (last v)"
  shows "strip_quotes raw = v"
proof (cases "is_quote (hd raw) \<and> is_quote (last raw)")
  case True
  then have v: "v = butlast (tl raw)" using assms by (simp add: unquote_ends_def)
  show ?thesis
  proof (cases "tl raw = []")
    case True
    with \<open>raw \<noteq> []\<close> obtain c where "raw = [c]" by (cases raw) auto
    then show ?thesis using v \<open>is_quote (hd raw) \<and> is_quote (last raw)\<close>
      by (simp add: strip_by_def lstrip_by_def)
  next
    case False
    then obtain a b where raw: "raw = a # v @ [b]" using \<open>raw \<noteq> []\<close> v
      by (metis append_butlast_last_id list.collapse)
    then have ab: "is_quote a" "is_quote b" using True by auto
    then have s: "strip_quotes raw = strip_quotes (v @ [b])"
      by (simp add: raw strip_by_def lstrip_by_def)
    show ?thesis
    proof (cases "v = []")
      case False
      then have "lstrip_by is_quote (v @ [b]) = v @ [b]" using assms(3) by (simp add: lstrip_by_self)
      with False ab assms(3) show ?thesis unfolding s by (simp add: strip_by_def rstrip_by_self)
    qed (simp add: s, simp add: ab strip_by_def lstrip_by_def)
  qed
next
  case False
  then have "v = raw" using assms(1) by (auto simp: unquote_ends_def)
  with assms(3) show ?thesis by (metis strip_by_self)
qed

end
