(* ===== verification/Yaml_Edit.thy ===== *)
theory Yaml_Edit
  imports Yaml_Tree
begin

text \<open>
  What \<^verbatim>\<open>append_yaml_top_list_item\<close> of \<^verbatim>\<open>src/bin/create_core.py\<close> does to a
  descriptor: it inserts exactly one line, the edit is found by \<^verbatim>\<open>yaml_top_list_contains\<close>
  afterwards, and the list reader of \<^verbatim>\<open>validate_target.py\<close> sees the new item among the
  old ones.
\<close>

section \<open>Editing a list\<close>

lemma block_key_item_line:
  assumes "key_text key" "one_line item"
  shows "re_match (block_key_rx key) (item_line b item) = None"
proof -
  have ne: "key \<noteq> []" using key_text_props [OF assms(1)] by blast
  have sp: "\<not> is_space (hd key)" using key_text_hd [OF assms(1)] by (rule is_key_not_space)
  have dash: "hd key \<noteq> CHR ''-''" using key_text_hd [OF assms(1)] not_key_punct(2) by metis
  have il: "item_line b item = blanks (b + 2) @ ''- '' @ item"
    by (simp add: item_line_def blanks_def)
  have ol: "one_line (item_line b item)" using assms(2) by (simp add: item_line_def)
  have "dropWhile is_space (item_line b item) = ''- '' @ item"
    unfolding il by (rule dropWhile_blanks) simp
  moreover have "\<not> prefix (key @ '':'') (''- '' @ item)" using ne dash by (cases key) auto
  ultimately show ?thesis unfolding block_key_match [OF ol ne sp] by simp
qed

lemma item_line_eq: "item_line b item = blanks (b + 2) @ ''- '' @ item"
  by (simp add: item_line_def blanks_def)

lemma indent_of_item_line: "indent_of (item_line b item) = b + 2"
proof -
  have "dropWhile is_space (item_line b item) = ''- '' @ item"
    unfolding item_line_eq by (rule dropWhile_blanks) simp
  then show ?thesis by (simp add: indent_of_def lstrip_by_def item_line_eq)
qed

text \<open>The edit inserts one line and keeps every other line, in order.\<close>

definition keeps_line :: "string \<Rightarrow> nat option \<Rightarrow> string \<Rightarrow> nat option \<Rightarrow> bool" where
  "keeps_line key base l base' =
     (case re_match (block_key_rx key) l of
        Some g \<Rightarrow> base' = Some (length (group ''1'' g))
      | None \<Rightarrow> base' = base \<and> (\<forall>b. base = Some b \<longrightarrow> strip l \<noteq> [] \<and> b < indent_of l))"

lemma append_scan_ConsE:
  assumes "append_scan key item base (l # ls) = (out, True)"
  obtains (insert) b where "base = Some b" "out = item_line b item # l # ls"
    | (keep) base' out' where "append_scan key item base' ls = (out', True)" "out = l # out'"
        "keeps_line key base l base'"
proof (cases "re_match (block_key_rx key) l")
  case None
  show ?thesis
  proof (cases base)
    case (Some b)
    with None assms insert keep show ?thesis
      by (cases "strip l = [] \<or> indent_of l \<le> b") (auto simp: keeps_line_def split: prod.splits)
  qed (use None assms keep in \<open>auto simp: keeps_line_def split: prod.splits\<close>)
qed (use assms keep in \<open>auto simp: keeps_line_def split: prod.splits\<close>)

lemma append_scan_inserts:
  "append_scan key item base ls = (out, True) \<Longrightarrow>
     \<exists>xs ys b. ls = xs @ ys \<and> out = xs @ item_line b item # ys"
proof (induction ls arbitrary: base out)
  case Nil
  then obtain b where "out = [item_line b item]" by (auto split: option.splits)
  then show ?case by (intro exI [of _ "[]"]) auto
next
  case (Cons l ls)
  from Cons.prems show ?case
  proof (cases rule: append_scan_ConsE)
    case (insert b)
    then show ?thesis by (intro exI [of _ "[]"] exI [of _ "l # ls"] exI [of _ b]) simp
  next
    case (keep base' out')
    from Cons.IH [OF keep(1)] obtain xs ys b where "ls = xs @ ys" "out' = xs @ item_line b item # ys"
      by (elim exE conjE)
    with keep(2) show ?thesis by (intro exI [of _ "l # xs"] exI [of _ ys] exI [of _ b]) simp
  qed
qed

lemma strip_item_line: "plain_text item \<Longrightarrow> strip (item_line b item) = ''- '' @ item"
  unfolding item_line_eq by (rule item_not_skipped)

lemma contains_item_line:
  "key_text key \<Longrightarrow> plain_text item \<Longrightarrow> contains_scan key item (Some b) (item_line b item # ls)"
  by (simp add: block_key_item_line plain_text_def strip_item_line [unfolded plain_text_def, simplified]
      indent_of_item_line)

lemma append_scan_contains:
  assumes "key_text key" "plain_text item"
  shows "append_scan key item base ls = (out, True) \<Longrightarrow> contains_scan key item base out"
proof (induction ls arbitrary: base out)
  case Nil
  then show ?case using contains_item_line [OF assms] by (auto split: option.splits)
next
  case (Cons l ls)
  from Cons.prems show ?case
  proof (cases rule: append_scan_ConsE)
    case (insert b)
    then show ?thesis using contains_item_line [OF assms] by simp
  next
    case (keep base' out')
    then show ?thesis using Cons.IH [OF keep(1)]
      by (auto simp: keeps_line_def split: option.splits)
  qed
qed


section \<open>The edited list as the reader sees it\<close>

lemma top_list_acc: "top_list_scan key base vals ls = vals @ top_list_scan key base [] ls"
proof (induction ls arbitrary: base vals)
  case (Cons l ls)
  show ?case
    using Cons [of _ vals] Cons [of _ "vals @ _"] Cons [of _ "[_]"]
    by (auto simp: Let_def split: option.splits)
qed simp

lemma key_text_start: "key_text key \<Longrightarrow> key \<noteq> [] \<and> \<not> is_space (hd key)"
  using key_text_hd key_text_props is_key_not_space by blast

text \<open>Every line that opens the list opens it as a block: nothing follows the colon.\<close>

definition block_only :: "string \<Rightarrow> string list \<Rightarrow> bool" where
  "block_only key ls = list_all (\<lambda>l. re_match (list_key_rx key) l \<noteq> None \<longrightarrow>
     re_match (block_key_rx key) l \<noteq> None) ls"

lemma block_is_list_key:
  assumes "key_text key" "one_line l" "re_match (block_key_rx key) l = Some g"
  shows "\<exists>g'. re_match (list_key_rx key) l = Some g' \<and> strip (group ''2'' g') = [] \<and>
     group ''1'' g' = group ''1'' g \<and> strip l \<noteq> [] \<and> \<not> prefix ''#'' (strip l)"
proof -
  let ?r = "dropWhile is_space l"
  note k = key_text_start [OF assms(1)]
  from assms(3) have p: "prefix (key @ '':'') ?r" "strip (drop (Suc (length key)) ?r) = []"
    and g: "g = [(''1'', takeWhile is_space l)]"
    using block_key_match [OF assms(2)] k by (auto split: if_splits)
  obtain v where r: "?r = key @ CHR '':'' # v" using p(1) by (auto simp: prefix_def)
  have hd: "hd ?r = hd key" "?r \<noteq> []" using r k by auto
  have "strip l = strip ?r" by (simp add: lstrip_by_def strip_by_def)
  then have sl: "strip l \<noteq> []" "hd (strip l) = hd key"
    using strip_head [of ?r is_space] k hd by auto
  have "hd key \<noteq> CHR ''#''" using key_text_hd [OF assms(1)] not_key_punct(3) by metis
  then have "\<not> prefix ''#'' (strip l)" using sl by (cases "strip l") auto
  moreover have "strip (dropWhile is_space (drop (Suc (length key)) ?r)) = []"
    using p(2) by (simp add: lstrip_by_def strip_by_def)
  ultimately show ?thesis
    using list_key_match [OF assms(2), of key] k p(1) sl(1) by (simp add: g group_def)
qed

lemma top_list_plain_line:
  assumes "re_match (list_key_rx key) l = None"
    "\<And>b. base = Some b \<Longrightarrow> strip l \<noteq> [] \<and> b < indent_of l"
  shows "\<exists>zs. \<forall>ls'. top_list_scan key base [] (l # ls') = zs @ top_list_scan key base [] ls'"
proof (cases "prefix ''#'' (strip l) \<or> base = None \<or> re_match item_rx l = None")
  case True
  then show ?thesis using assms by (intro exI [of _ "[]"]) (auto split: option.splits)
next
  case False
  then obtain b g where "base = Some b" "re_match item_rx l = Some g" by auto
  then show ?thesis using assms False top_list_acc [of key base "[strip_quotes (strip (group ''2'' g))]"]
    by (intro exI [of _ "[strip_quotes (strip (group ''2'' g))]"]) simp
qed

lemma list_key_item_line:
  "key_text key \<Longrightarrow> plain_text item \<Longrightarrow> re_match (list_key_rx key) (item_line b item) = None"
  unfolding item_line_eq by (rule list_key_item)

lemma top_list_item_line:
  assumes "key_text key" "plain_text item" "quote_free item"
  shows "top_list_scan key (Some b) vals (item_line b item # ls) =
     top_list_scan key (Some b) (vals @ [item]) ls"
proof -
  have "map (\<lambda>x. blanks (b + 2) @ ''- '' @ x) [item] @ ls = item_line b item # ls"
    by (simp add: item_line_eq)
  then show ?thesis
    using top_list_items [of key "[item]" b "b + 2" vals ls] assms by simp
qed

lemma append_scan_top_list:
  assumes "key_text key" "plain_text item" "quote_free item"
  shows "append_scan key item base ls = (out, True) \<Longrightarrow> list_all one_line ls \<Longrightarrow> block_only key ls \<Longrightarrow>
     \<exists>xs ys. top_list_scan key base [] ls = xs @ ys \<and> top_list_scan key base [] out = xs @ item # ys"
proof (induction ls arbitrary: base out)
  case Nil
  then obtain b where "base = Some b" "out = [item_line b item]" by (auto split: option.splits)
  then show ?case using top_list_item_line [OF assms] by (intro exI [of _ "[]"]) simp
next
  case (Cons l ls)
  from Cons.prems(1) show ?case
  proof (cases rule: append_scan_ConsE)
    case (insert b)
    then show ?thesis using top_list_item_line [OF assms, of b "[]"] top_list_acc [of key _ "[item]"]
      by (intro exI [of _ "[]"] exI) simp
  next
    case (keep base' out')
    obtain xs ys where IH: "top_list_scan key base' [] ls = xs @ ys"
        "top_list_scan key base' [] out' = xs @ item # ys"
      using Cons.IH [OF keep(1)] Cons.prems(2,3) by (auto simp: block_only_def)
    have step: "\<exists>zs. \<forall>ls'. top_list_scan key base [] (l # ls') = zs @ top_list_scan key base' [] ls'"
    proof (cases "re_match (block_key_rx key) l")
      case (Some g)
      with block_is_list_key [OF assms(1) _ Some] Cons.prems(2) keep(3) show ?thesis
        by (intro exI [of _ "[]"]) (auto simp: keeps_line_def)
    next
      case None
      then have "re_match (list_key_rx key) l = None" "base' = base"
        using Cons.prems(3) keep(3) by (auto simp: block_only_def keeps_line_def)
      then show ?thesis using None keep(3) top_list_plain_line [of key l base]
        by (auto simp: keeps_line_def)
    qed
    then obtain zs where "\<forall>ls'. top_list_scan key base [] (l # ls') = zs @ top_list_scan key base' [] ls'" ..
    then show ?thesis using IH keep(2) by (intro exI [of _ "zs @ xs"] exI [of _ ys]) (simp del: top_list_scan.simps)
  qed
qed

lemma append_edit:
  assumes "plain_text item" "\<not> yaml_top_list_contains text key item"
    and "append_yaml_top_list_item text key item = Inr text'"
  obtains out where "append_scan key item None (splitlines text) = (out, True)"
    and "splitlines text' = out" "list_all one_line (splitlines text)"
proof -
  from assms(2,3) obtain out where out: "append_scan key item None (splitlines text) = (out, True)"
    and t': "text' = join [NL] out @ [NL]"
    by (auto simp: append_yaml_top_list_item_def res_simps split: prod.splits)
  have ol: "list_all one_line (splitlines text)" by (simp add: list_all_iff splitlines_one_line)
  from append_scan_inserts [OF out] obtain xs ys b
    where ins: "splitlines text = xs @ ys" "out = xs @ item_line b item # ys" by blast
  have "one_line (item_line b item)" using assms(1) by (simp add: item_line_def plain_text_def)
  then have "list_all one_line out" using ol ins by simp
  moreover have "text' = unlines out" unfolding t' by (rule join_NL_unlines) (simp add: ins)
  ultimately have "splitlines text' = out" by (simp only: splitlines_unlines)
  with out ol that show ?thesis by blast
qed

section \<open>Properties\<close>

text \<open>
  (C37) The descriptor reader of \<^verbatim>\<open>validate_target.py\<close> is correct on every printed descriptor
  tree, with blank lines anywhere: for each key path it returns the scalar the tree holds there,
  and nothing when the path leads to a collection or nowhere.
\<close>

theorem yaml_path_scalar_printed:
  assumes "ywf (\<lambda>v. unquote_ends v = v) t" and "list_all one_line ls"
    and "filter nonblank ls = ydoc 0 t"
  shows "yaml_path_scalar (unlines ls) path = ylookup t path"
  using assms by (rule validate_reader.read_printed)

theorem yaml_path_scalar_printed_witness:
  "yaml_path_scalar (unlines [''name: ibex'', [], ''zephyr:'', ''  status: supported''])
     [''zephyr'', ''status''] = Some ''supported''"
  using yaml_path_scalar_printed [of "[(''name'', YScalar ''ibex''),
      (''zephyr'', YMap [(''status'', YScalar ''supported'')])]"
    "[''name: ibex'', [], ''zephyr:'', ''  status: supported'']" "[''zephyr'', ''status'']"]
  by code_simp

lemma unquoted_scalar:
  assumes "yaml_path_scalar text path = Some v" "v = [] \<or> \<not> is_quote (hd v) \<and> \<not> is_quote (last v)"
  shows "scan_scalar unquote_all path [] (splitlines text) = Some v"
proof -
  let ?raw = "scan_scalar id path [] (splitlines text)"
  from assms(1) obtain raw where raw: "?raw = Some raw" "v = unquote_ends raw"
    by (auto simp: yaml_path_scalar_def scan_unquote [of unquote_ends])
  have "list_all one_line (splitlines text)" by (simp add: list_all_iff splitlines_one_line)
  from scan_value_stripped [OF this raw(1)] have "unquote_all raw = v"
    using strip_quotes_of_ends [OF raw(2) _ assms(2)] by (simp add: unquote_all_def)
  with raw(1) show ?thesis by (simp add: scan_unquote [of unquote_all])
qed

text \<open>
  (C40) The copies of \<^verbatim>\<open>yaml_path_scalar\<close> agree on every text: the one in \<^verbatim>\<open>validate_target.py\<close> finds
  nothing exactly when the ones in \<^verbatim>\<open>deps_core.py\<close> and \<^verbatim>\<open>render_support_matrix.py\<close> find nothing;
  these two always return the same; and what the first one finds is what they find, unless a quote
  is left at an end of the value.
\<close>

theorem readers_agree:
  "(yaml_path_scalar text path = None \<longleftrightarrow> deps_yaml_path_scalar text path = None) \<and>
   render_yaml_path_scalar text path = deps_yaml_path_scalar text path \<and>
   (\<forall>v. yaml_path_scalar text path = Some v \<longrightarrow> v = [] \<or> \<not> is_quote (hd v) \<and> \<not> is_quote (last v) \<longrightarrow>
      deps_yaml_path_scalar text path = Some v)"
proof (intro conjI allI impI)
  show "yaml_path_scalar text path = None \<longleftrightarrow> deps_yaml_path_scalar text path = None"
    by (simp add: yaml_path_scalar_def deps_yaml_path_scalar_def scan_unquote [of unquote_ends] scan_unquote [of unquote_all])
  show "render_yaml_path_scalar text path = deps_yaml_path_scalar text path"
    by (simp add: deps_yaml_path_scalar_def render_yaml_path_scalar_def)
  show "deps_yaml_path_scalar text path = Some v"
    if "yaml_path_scalar text path = Some v" "v = [] \<or> \<not> is_quote (hd v) \<and> \<not> is_quote (last v)" for v
    using unquoted_scalar [OF that] by (simp add: deps_yaml_path_scalar_def)
qed

theorem readers_agree_witness:
  "yaml_path_scalar (unlines [''isa: '' @ [DQ] @ ''rv32imc'' @ [DQ]]) [''isa''] = Some ''rv32imc'' \<and>
   deps_yaml_path_scalar (unlines [''isa: '' @ [DQ] @ ''rv32imc'' @ [DQ]]) [''isa''] = Some ''rv32imc'' \<and>
   render_yaml_path_scalar (unlines [''isa: '' @ [DQ] @ ''rv32imc'' @ [DQ]]) [''isa''] = Some ''rv32imc''"
proof -
  let ?t = "unlines [''isa: '' @ [DQ] @ ''rv32imc'' @ [DQ]]"
  have v: "yaml_path_scalar ?t [''isa''] = Some ''rv32imc''" "\<not> is_quote (hd ''rv32imc'') \<and> \<not> is_quote (last ''rv32imc'')"
    by code_simp+
  note r = readers_agree [of ?t "[''isa'']"]
  from r [THEN conjunct2, THEN conjunct2, rule_format, OF v(1) disjI2 [OF v(2)]]
  have d: "deps_yaml_path_scalar ?t [''isa''] = Some ''rv32imc''" .
  with r [THEN conjunct2, THEN conjunct1] have "render_yaml_path_scalar ?t [''isa''] = Some ''rv32imc''" by (rule trans)
  with v(1) d show ?thesis by (intro conjI)
qed

text \<open>
  A block list of a printed descriptor is read back item by item by \<^verbatim>\<open>yaml_top_list\<close>,
  when its key stands nowhere else in the descriptor.
\<close>

theorem yaml_top_list_printed:
  assumes "ywf ok (t @ (key, YList xs) # u)" "key \<notin> set (ykeys t)" "key \<notin> set (ykeys u)"
    and "list_all quote_free xs" "list_all one_line ls"
    and "filter nonblank ls = ydoc 0 (t @ (key, YList xs) # u)"
  shows "yaml_top_list (unlines ls) key = xs"
  using assms by (simp add: yaml_top_list_def splitlines_unlines top_list_printed)

theorem yaml_top_list_printed_witness:
  "yaml_top_list (unlines [''name: axku5'', ''supported_cores:'', ''  - ibex'', ''  - cv32e40p'',
      [], ''ram:'', ''  banks: 4'']) ''supported_cores'' = [''ibex'', ''cv32e40p'']"
  using yaml_top_list_printed [of "\<lambda>_. True" "[(''name'', YScalar ''axku5'')]" "''supported_cores''"
    "[''ibex'', ''cv32e40p'']" "[(''ram'', YMap [(''banks'', YScalar ''4'')])]"
    "[''name: axku5'', ''supported_cores:'', ''  - ibex'', ''  - cv32e40p'',
      [], ''ram:'', ''  banks: 4'']"]
  by code_simp

text \<open>
  (C38) \<^verbatim>\<open>append_yaml_top_list_item\<close> changes a text by inserting one item line, and keeps every
  other line in order; the list as \<^verbatim>\<open>yaml_top_list\<close> reads it gains exactly the item.
\<close>

theorem append_inserts_item:
  assumes "key_text key" "plain_text item" "quote_free item" "block_only key (splitlines text)"
    and "\<not> yaml_top_list_contains text key item"
    and "append_yaml_top_list_item text key item = Inr text'"
  shows "(\<exists>xs ys b. splitlines text = xs @ ys \<and> splitlines text' = xs @ item_line b item # ys) \<and>
    (\<exists>us vs. yaml_top_list text key = us @ vs \<and> yaml_top_list text' key = us @ item # vs)"
proof -
  obtain out where e: "append_scan key item None (splitlines text) = (out, True)"
    "splitlines text' = out" "list_all one_line (splitlines text)"
    using append_edit [OF assms(2,5,6)] .
  then show ?thesis
    using append_scan_inserts [OF e(1)] append_scan_top_list [OF assms(1-3) e(1,3) assms(4)]
    by (simp add: yaml_top_list_def)
qed

theorem append_inserts_item_witness:
  "\<exists>us vs. yaml_top_list (unlines [''supported_cores:'', ''  - ibex'', ''ram: 4'']) ''supported_cores'' = us @ vs \<and>
     yaml_top_list (unlines [''supported_cores:'', ''  - ibex'', ''  - cva6'', ''ram: 4'']) ''supported_cores''
       = us @ ''cva6'' # vs"
proof -
  let ?t = "unlines [''supported_cores:'', ''  - ibex'', ''ram: 4'']"
  let ?t' = "unlines [''supported_cores:'', ''  - ibex'', ''  - cva6'', ''ram: 4'']"
  have "key_text ''supported_cores''" "plain_text ''cva6''" "quote_free ''cva6''"
    "block_only ''supported_cores'' (splitlines ?t)"
    "\<not> yaml_top_list_contains ?t ''supported_cores'' ''cva6''"
    "append_yaml_top_list_item ?t ''supported_cores'' ''cva6'' = Inr ?t'"
    by code_simp+
  from append_inserts_item [OF this] show ?thesis by blast
qed

text \<open>
  (C39) After a successful edit the item is in the list as \<^verbatim>\<open>yaml_top_list_contains\<close> sees it,
  so that editing again changes nothing: registering a core with a board twice is the same as once.
\<close>

theorem append_idempotent:
  assumes "key_text key" "plain_text item"
    and "append_yaml_top_list_item text key item = Inr text'"
  shows "yaml_top_list_contains text' key item \<and>
    append_yaml_top_list_item text' key item = Inr text'"
proof -
  have "yaml_top_list_contains text' key item"
  proof (cases "yaml_top_list_contains text key item")
    case False
    obtain out where e: "append_scan key item None (splitlines text) = (out, True)" "splitlines text' = out"
      using append_edit [OF assms(2) False assms(3)] .
    then show ?thesis
      using append_scan_contains [OF assms(1,2) e(1)] by (simp add: yaml_top_list_contains_def)
  qed (use assms(3) in \<open>simp add: append_yaml_top_list_item_def\<close>)
  then show ?thesis by (simp add: append_yaml_top_list_item_def)
qed

theorem append_idempotent_witness:
  "append_yaml_top_list_item (unlines [''supported_cores:'', ''  - ibex'']) ''supported_cores'' ''ibex''
     = Inr (unlines [''supported_cores:'', ''  - ibex''])"
proof -
  have "key_text ''supported_cores''" "plain_text ''ibex''"
    "append_yaml_top_list_item (unlines [''supported_cores:'']) ''supported_cores'' ''ibex''
       = Inr (unlines [''supported_cores:'', ''  - ibex''])"
    by code_simp+
  from append_idempotent [OF this] show ?thesis by blast
qed

text \<open>
  The edit fails exactly when the text has no line that opens the list as a block (and the item
  is not in it): a missing list, or one written inline, is reported and never extended wrongly.
\<close>

theorem append_error:
  "append_yaml_top_list_item text key item = Inl e \<longleftrightarrow>
     e = Exit (''could not find YAML list '' @ quoted key) \<and>
     list_all (\<lambda>l. re_match (block_key_rx key) l = None) (splitlines text)"
proof -
  have some: "snd (append_scan key item (Some b) ls)" for b ls
    by (induction ls arbitrary: b) (auto simp: case_prod_beta split: option.splits)
  have none: "snd (append_scan key item None ls) \<longleftrightarrow>
      \<not> list_all (\<lambda>l. re_match (block_key_rx key) l = None) ls" for ls
    using some by (induction ls) (auto simp: case_prod_beta split: option.splits)
  have "list_all (\<lambda>l. re_match (block_key_rx key) l = None) ls \<Longrightarrow> \<not> contains_scan key item None ls" for ls
    by (induction ls) auto
  with none [of "splitlines text"] show ?thesis
    by (auto simp: append_yaml_top_list_item_def yaml_top_list_contains_def fail_if_def quoted_def
        case_prod_beta)
qed

end
