(* ===== verification/Py_Int.thy ===== *)
theory Py_Int
  imports Py_Str
begin

text \<open>
  Python integers as text: \<^verbatim>\<open>int(s, 0)\<close>, \<^verbatim>\<open>int(s, 10)\<close> on a run of digits,
  \<^verbatim>\<open>str(n)\<close> and the hexadecimal formats. The values are unbounded, as Python's are.
\<close>

section \<open>Printing\<close>

definition digit_char :: "nat \<Rightarrow> char" where
  "digit_char d = (if d < 10 then char_of (48 + d) else char_of (87 + d))"

fun in_base :: "nat \<Rightarrow> nat \<Rightarrow> string" where
  "in_base b n = (if b < 2 \<or> n < b then [digit_char n] else in_base b (n div b) @ [digit_char (n mod b)])"

declare in_base.simps [simp del]

definition py_str :: "int \<Rightarrow> string" where
  "py_str i = (if i < 0 then CHR ''-'' # in_base 10 (nat (- i)) else in_base 10 (nat i))"

definition py_hex :: "int \<Rightarrow> string" where
  "py_hex i = (if i < 0 then CHR ''-'' # in_base 16 (nat (- i)) else in_base 16 (nat i))"

text \<open>The format \<^verbatim>\<open>0{w}x\<close>: the sign counts for the width.\<close>

definition py_hex_pad :: "nat \<Rightarrow> int \<Rightarrow> string" where
  "py_hex_pad w i =
     (if i < 0 then CHR ''-'' # replicate (w - Suc (length (in_base 16 (nat (- i))))) CHR ''0'' @ in_base 16 (nat (- i))
      else replicate (w - length (in_base 16 (nat i))) CHR ''0'' @ in_base 16 (nat i))"

text \<open>\<^verbatim>\<open>repr\<close> of a text.\<close>

definition repr_char :: "char \<Rightarrow> char \<Rightarrow> string" where
  "repr_char q c =
     (if c = q \<or> c = CHR 0x5C then [CHR 0x5C, c]
      else if c = NL then [CHR 0x5C, CHR ''n'']
      else if c = TAB then [CHR 0x5C, CHR ''t'']
      else if c = CHR 0x0D then [CHR 0x5C, CHR ''r'']
      else if code c < 32 \<or> 127 \<le> code c \<and> code c \<le> 160 \<or> code c = 173
      then [CHR 0x5C, CHR ''x''] @ py_hex_pad 2 (int (code c))
      else [c])"

definition py_repr :: "string \<Rightarrow> string" where
  "py_repr s =
     (let q = (if SQ \<in> set s \<and> DQ \<notin> set s then DQ else SQ)
      in [q] @ concat (map (repr_char q) s) @ [q])"

section \<open>Reading\<close>

definition digit_val :: "char \<Rightarrow> nat" where
  "digit_val c =
     (let n = code c
      in if 48 \<le> n \<and> n \<le> 57 then n - 48
         else if 97 \<le> n \<and> n \<le> 122 then n - 87
         else if 65 \<le> n \<and> n \<le> 90 then n - 55
         else 36)"

definition digits_val :: "nat \<Rightarrow> string \<Rightarrow> nat" where
  "digits_val b s = foldl (\<lambda>v c. b * v + digit_val c) 0 s"

definition base_digits :: "nat \<Rightarrow> string \<Rightarrow> bool" where
  "base_digits b s = (s \<noteq> [] \<and> list_all (\<lambda>c. digit_val c < b) s)"

text \<open>Digits in groups, with single underscores between them.\<close>

definition grouped_val :: "nat \<Rightarrow> string \<Rightarrow> nat option" where
  "grouped_val b s =
     (let parts = split_on CHR ''_'' s
      in if list_all (base_digits b) parts then Some (digits_val b (concat parts)) else None)"

definition unsigned0 :: "string \<Rightarrow> nat option" where
  "unsigned0 s =
     (let prefixed = (\<lambda>b. grouped_val b (let t = drop 2 s in if prefix ''_'' t then tl t else t))
      in if prefix ''0x'' s \<or> prefix ''0X'' s then prefixed 16
         else if prefix ''0o'' s \<or> prefix ''0O'' s then prefixed 8
         else if prefix ''0b'' s \<or> prefix ''0B'' s then prefixed 2
         else if prefix ''0'' s
         then (case grouped_val 10 s of Some 0 \<Rightarrow> Some 0 | _ \<Rightarrow> None)
         else grouped_val 10 s)"

text \<open>White space around the number: the ASCII one, unless the text has other characters.\<close>

definition int_space :: "string \<Rightarrow> char \<Rightarrow> bool" where
  "int_space s c =
     (if list_all (\<lambda>d. code d < 128) s then 9 \<le> code c \<and> code c \<le> 13 \<or> code c = 32 else is_space c)"

definition py_int0 :: "string \<Rightarrow> int option" where
  "py_int0 text =
     (let s = strip_by (int_space text) text
      in if prefix ''-'' s then map_option (\<lambda>n. - int n) (unsigned0 (tl s))
         else if prefix ''+'' s then map_option int (unsigned0 (tl s))
         else map_option int (unsigned0 s))"

text \<open>\<^verbatim>\<open>int(s, 10)\<close> for a text of decimal digits only, as the patterns \<^verbatim>\<open>[0-9]+\<close> give it.\<close>

definition py_int10 :: "string \<Rightarrow> int option" where
  "py_int10 s = (if base_digits 10 s then Some (int (digits_val 10 s)) else None)"

section \<open>Round trips\<close>

lemma code_char_of: "n < 256 \<Longrightarrow> code (char_of n) = n"
  by (simp add: code_def)

lemma digit_val_char [simp]: "d < 16 \<Longrightarrow> digit_val (digit_char d) = d"
  by (simp add: digit_val_def digit_char_def code_char_of)

lemma digits_val_snoc [simp]: "digits_val b (s @ [c]) = b * digits_val b s + digit_val c"
  by (simp add: digits_val_def)

lemma digits_val_Nil [simp]: "digits_val b [] = 0"
  by (simp add: digits_val_def)

lemma digits_val_in_base: "2 \<le> b \<Longrightarrow> b \<le> 16 \<Longrightarrow> digits_val b (in_base b n) = n"
proof (induction b n rule: in_base.induct)
  case (1 b n)
  show ?case
  proof (cases "n < b")
    case True
    with 1 show ?thesis by (simp add: in_base.simps [of b n] digits_val_def)
  next
    case False
    with 1 have "digits_val b (in_base b (n div b)) = n div b" by auto
    moreover have "n mod b < b" using 1 by simp
    then have "n mod b < 16" using 1 by linarith
    ultimately show ?thesis using 1 False by (simp add: in_base.simps [of b n])
  qed
qed

lemma in_base_digits: "2 \<le> b \<Longrightarrow> b \<le> 16 \<Longrightarrow> base_digits b (in_base b n)"
proof (induction b n rule: in_base.induct)
  case (1 b n)
  have m: "n mod b < b" using 1 by simp
  then have "n mod b < 16" using 1 by linarith
  with 1 m show ?case by (cases "n < b") (auto simp: in_base.simps [of b n] base_digits_def)
qed

lemma in_base_no_leading_zero: "2 \<le> b \<Longrightarrow> b \<le> 16 \<Longrightarrow> 0 < n \<Longrightarrow> digit_val (hd (in_base b n)) \<noteq> 0"
proof (induction b n rule: in_base.induct)
  case (1 b n)
  have ne: "in_base b k \<noteq> []" for k using in_base_digits [of b k] 1 by (simp add: base_digits_def)
  show ?case
  proof (cases "n < b")
    case True
    with 1 show ?thesis by (simp add: in_base.simps [of b n])
  next
    case False
    with 1 have "0 < n div b" by (simp add: div_greater_zero_iff)
    with 1 False ne show ?thesis by (simp add: in_base.simps [of b n])
  qed
qed

lemma digit_val_lt: "digit_val c < 10 \<Longrightarrow> is_digit c"
  by (auto simp: digit_val_def is_digit_def Let_def split: if_splits)

lemma dec_digits: "\<forall>c\<in>set (in_base 10 n). is_digit c" "in_base 10 n \<noteq> []"
  using in_base_digits [of 10 n] by (auto simp: base_digits_def list_all_iff digit_val_lt)

lemma split_by_none: "\<forall>c\<in>set s. \<not> P c \<Longrightarrow> split_by P s = [s]"
  by (induction s) auto

lemma is_digit_code: "is_digit c \<longleftrightarrow> 48 \<le> code c \<and> code c \<le> 57"
  by (simp add: is_digit_def Let_def)

lemma code_lits [simp]: "code CHR ''_'' = 95" "code CHR ''-'' = 45" "code CHR ''+'' = 43" "code CHR ''0'' = 48"
  "code CHR ''x'' = 120" "code CHR ''X'' = 88" "code CHR ''o'' = 111" "code CHR ''O'' = 79"
  "code CHR ''b'' = 98" "code CHR ''B'' = 66"
  by (simp_all add: code_def)

lemma grouped_val_digits: "base_digits 10 s \<Longrightarrow> \<forall>c\<in>set s. is_digit c \<Longrightarrow> grouped_val 10 s = Some (digits_val 10 s)"
  using split_by_none [of s "(=) CHR ''_''"]
  by (force simp: grouped_val_def split_on_def is_digit_code)

lemma unsigned0_dec: "unsigned0 (in_base 10 n) = Some n"
proof -
  let ?s = "in_base 10 n"
  have g: "grouped_val 10 ?s = Some n"
    using grouped_val_digits [of ?s] dec_digits(1) in_base_digits [of 10 n] digits_val_in_base [of 10 n] by simp
  have np: "\<not> prefix [CHR ''0'', c] ?s" if "\<not> is_digit c" for c
    using dec_digits(1) [of n] that by (force simp: prefix_def)
  have nd: "\<not> is_digit CHR ''x''" "\<not> is_digit CHR ''X''" "\<not> is_digit CHR ''o''" "\<not> is_digit CHR ''O''"
    "\<not> is_digit CHR ''b''" "\<not> is_digit CHR ''B''" by (simp_all add: is_digit_code)
  have "n = 0" if "prefix ''0'' ?s"
  proof (rule ccontr)
    assume "n \<noteq> 0"
    then have "digit_val (hd ?s) \<noteq> 0" by (intro in_base_no_leading_zero) auto
    then show False using that by (auto simp: prefix_def digit_val_def)
  qed
  then show ?thesis using g np nd by (auto simp: unsigned0_def split: nat.splits)
qed

lemma strip_int_self:
  assumes "s \<noteq> []" "33 \<le> code (hd s)" "code (hd s) < 128" "33 \<le> code (last s)" "code (last s) < 128"
  shows "strip_by (int_space t) s = s"
  by (rule strip_by_self) (use assms in \<open>auto simp: int_space_def is_space_def Let_def\<close>)

lemma py_int0_str: "py_int0 (py_str i) = Some i"
proof -
  have d: "48 \<le> code (hd (in_base 10 n)) \<and> code (hd (in_base 10 n)) \<le> 57 \<and>
      48 \<le> code (last (in_base 10 n)) \<and> code (last (in_base 10 n)) \<le> 57" for n
    using dec_digits [of n] by (simp add: is_digit_code)
  have s: "strip_by (int_space (py_str i)) (py_str i) = py_str i"
    using d [of "nat i"] d [of "nat (- i)"] dec_digits(2)
    by (intro strip_int_self) (auto simp: py_str_def)
  have "\<not> prefix ''-'' (in_base 10 n)" "\<not> prefix ''+'' (in_base 10 n)" for n
    using d [of n] by (auto simp: prefix_def)
  then show ?thesis unfolding py_int0_def s by (auto simp: py_str_def unsigned0_dec)
qed

end
