(* ===== verification/Py_Format.thy ===== *)
theory Py_Format
  imports Py_Int
begin

text \<open>
  Replacement templates: what \<^verbatim>\<open>string.Formatter().parse\<close> and \<^verbatim>\<open>str.format\<close> do with
  keyword arguments that are texts, in the Python 3.13 that the Makefile asks for. A template is a
  list of pieces, and possibly an error that ends it; \<^verbatim>\<open>format\<close> reports an error of a piece
  before one further right. A field is looked up, converted (\<^verbatim>\<open>!s\<close>, \<^verbatim>\<open>!r\<close>, \<^verbatim>\<open>!a\<close>), its
  format specification is itself formatted when it has an opening brace, at most one level deep,
  and the result is formatted under the specification of a text: fill, alignment, width and
  precision. Only attribute and item access on an argument, \<^verbatim>\<open>{core.x}\<close> and \<^verbatim>\<open>{core[0]}\<close>, are
  left out, as \<open>Unmodelled\<close>, and so are widths for which the memory does not suffice.
\<close>

section \<open>Parsing\<close>

datatype piece = Lit string | Field string "char option" string

definition is_brace :: "char \<Rightarrow> bool" where
  "is_brace c = (c = CHR ''{'' \<or> c = CHR ''}'')"

lemma dropWhile_shorter [simp]: "length (dropWhile P xs) < Suc (length xs)"
  by (simp add: le_imp_less_Suc length_dropWhile_le)

text \<open>The name of a field, the character that ended it, and the rest.\<close>

fun scan_name :: "string \<Rightarrow> string \<times> char option \<times> string" where
  "scan_name [] = ([], None, [])"
| "scan_name (c # s) =
     (if c \<in> {CHR ''{'', CHR ''}'', CHR '':'', CHR ''!''} then ([], Some c, s)
      else if c = CHR ''[''
      then (case scan_name (dropWhile ((\<noteq>) CHR '']'') s) of
              (n, stop, rest) \<Rightarrow> (c # takeWhile ((\<noteq>) CHR '']'') s @ n, stop, rest))
      else (case scan_name s of (n, stop, rest) \<Rightarrow> (c # n, stop, rest)))"

text \<open>A format specification, up to the brace that closes the field.\<close>

fun scan_spec :: "nat \<Rightarrow> string \<Rightarrow> (string \<times> string) option" where
  "scan_spec depth [] = None"
| "scan_spec depth (c # s) =
     (if c = CHR ''}'' \<and> depth = 1 then Some ([], s)
      else (case scan_spec (if c = CHR ''{'' then depth + 1 else if c = CHR ''}'' then depth - 1 else depth) s of
              None \<Rightarrow> None
            | Some (spec, rest) \<Rightarrow> Some (c # spec, rest)))"

definition with_spec :: "string \<Rightarrow> char option \<Rightarrow> string \<Rightarrow> exc + (piece \<times> string)" where
  "with_spec name conv s =
     (case scan_spec 1 s of
        None \<Rightarrow> Inl (ValueError ''unmatched open brace in format spec'')
      | Some (spec, rest) \<Rightarrow> Inr (Field name conv spec, rest))"

definition parse_field :: "string \<Rightarrow> exc + (piece \<times> string)" where
  "parse_field s =
     (case scan_name s of
        (name, stop, rest) \<Rightarrow>
          if stop = Some CHR ''{'' then Inl (ValueError ''unexpected open brace in field name'')
          else if stop = Some CHR ''}'' then Inr (Field name None [], rest)
          else if stop = Some CHR '':'' then with_spec name None rest
          else if stop = Some CHR ''!''
          then (case rest of
                  [] \<Rightarrow> Inl (ValueError ''end of string while looking for conversion specifier'')
                | [conv] \<Rightarrow> Inl (ValueError ''unmatched open brace in format spec'')
                | conv # c # rest' \<Rightarrow>
                    if c = CHR ''}'' then Inr (Field name (Some conv) [], rest')
                    else if c = CHR '':'' then with_spec name (Some conv) rest'
                    else Inl (ValueError ''expected colon after conversion specifier''))
          else Inl (ValueError ''expected closing brace before end of string''))"

lemma scan_name_shorter: "scan_name s = (n, stop, rest) \<Longrightarrow> length rest \<le> length s"
proof (induction s arbitrary: n rule: scan_name.induct)
  case (2 c s)
  show ?case
  proof (cases "c = CHR ''[''")
    case True
    then obtain n' where "scan_name (dropWhile ((\<noteq>) CHR '']'') s) = (n', stop, rest)"
      using 2 by (auto split: prod.splits)
    with 2 True have "length rest \<le> length (dropWhile ((\<noteq>) CHR '']'') s)" by auto
    also have "\<dots> \<le> length s" by (rule length_dropWhile_le)
    finally show ?thesis by simp
  next
    case False
    with 2 show ?thesis by (force split: if_splits prod.splits)
  qed
qed simp

lemma scan_spec_shorter: "scan_spec d s = Some (spec, rest) \<Longrightarrow> length rest \<le> length s"
proof (induction d s arbitrary: spec rule: scan_spec.induct)
  case (2 d c s)
  then show ?case by (fastforce split: if_splits option.splits prod.splits)
qed simp

lemma parse_field_shorter: "parse_field s = Inr (p, rest) \<Longrightarrow> length rest \<le> length s"
  by (fastforce simp: parse_field_def with_spec_def split: prod.splits if_splits list.splits option.splits
      dest: scan_name_shorter scan_spec_shorter)

function parse_fmt :: "string \<Rightarrow> piece list \<times> exc option" where
  "parse_fmt s =
     (let lit = takeWhile (\<lambda>c. \<not> is_brace c) s
      in case dropWhile (\<lambda>c. \<not> is_brace c) s of
           [] \<Rightarrow> (if lit = [] then [] else [Lit lit], None)
         | c # t \<Rightarrow>
             if t \<noteq> [] \<and> hd t = c
             then (case parse_fmt (tl t) of (ps, e) \<Rightarrow> (Lit (lit @ [c]) # ps, e))
             else if c = CHR ''}'' then ([], Some (ValueError ''Single closing brace encountered in format string''))
             else if t = [] then ([], Some (ValueError ''Single open brace encountered in format string''))
             else (case parse_field t of
                     Inl e \<Rightarrow> ([], Some e)
                   | Inr (p, rest) \<Rightarrow> (case parse_fmt rest of (ps, e) \<Rightarrow> (Lit lit # p # ps, e))))"
  by pat_completeness auto
termination
proof (relation "measure length", goal_cases)
  case (2 s lit c t)
  then have "length (c # t) \<le> length s" by (metis length_dropWhile_le)
  then show ?case by simp
next
  case (3 s lit c t r p rest)
  then have "length (c # t) \<le> length s" by (metis length_dropWhile_le)
  with 3 parse_field_shorter show ?case by fastforce
qed simp

declare parse_fmt.simps [simp del]

lemma parse_field_error: "parse_field s = Inl e \<Longrightarrow> \<exists>m. e = ValueError m"
  by (auto simp: parse_field_def with_spec_def split: prod.splits if_splits list.splits option.splits)

lemma parse_fmt_error: "snd (parse_fmt s) = Some e \<Longrightarrow> \<exists>m. e = ValueError m"
proof (induction s rule: parse_fmt.induct)
  case (1 s)
  show ?case
  proof (cases "dropWhile (\<lambda>c. \<not> is_brace c) s")
    case Nil
    with "1.prems" show ?thesis by (subst (asm) parse_fmt.simps) (simp add: Let_def split: if_splits)
  next
    case (Cons c t)
    note IH = "1.IH" [OF refl Cons]
    show ?thesis
    proof (cases "t \<noteq> [] \<and> hd t = c")
      case True
      with "1.prems" Cons have "snd (parse_fmt (tl t)) = Some e"
        by (subst (asm) parse_fmt.simps) (simp add: Let_def case_prod_beta)
      with IH(1) [OF True] show ?thesis .
    next
      case False
      with "1.prems" Cons show ?thesis using IH(2) [OF False]
        by (subst (asm) parse_fmt.simps)
          (auto simp: Let_def case_prod_beta split: if_splits sum.splits dest: parse_field_error)
    qed
  qed
qed

section \<open>Formatter().parse and format\<close>

text \<open>\<^verbatim>\<open>{field for _, field, _, _ in Formatter().parse(template) if field}\<close>, as a list.\<close>

fun piece_name :: "piece \<Rightarrow> string list" where
  "piece_name (Lit s) = []"
| "piece_name (Field n c sp) = (if n = [] then [] else [n])"

definition format_fields :: "string \<Rightarrow> string list res" where
  "format_fields t =
     (case parse_fmt t of
        (ps, None) \<Rightarrow> Inr (remdups (concat (map piece_name ps)))
      | (ps, Some e) \<Rightarrow> Inl (Raise e))"

definition field_value :: "(string \<times> string) list \<Rightarrow> string \<Rightarrow> string res" where
  "field_value kws name =
     (let fst_part = takeWhile (\<lambda>c. c \<noteq> CHR ''.'' \<and> c \<noteq> CHR ''['') name
      in if 2 ^ 63 \<le> int (digits_val 10 (takeWhile is_digit fst_part))
         then Inl (Raise (ValueError ''Too many decimal digits in format string''))
         else if list_all is_digit fst_part then Inl (Raise IndexError)
         else (case map_of kws fst_part of
                 None \<Rightarrow> Inl (Raise (KeyError fst_part))
               | Some v \<Rightarrow> if fst_part = name then Inr v else Inl (Raise (Unmodelled ''attribute or item of a field''))))"

text \<open>Conversions. No conversion is the character with code 0.\<close>

definition py_ascii :: "string \<Rightarrow> string" where
  "py_ascii s =
     concat (map (\<lambda>c. if 128 \<le> code c then [CHR 0x5C, CHR ''x''] @ py_hex_pad 2 (int (code c)) else [c]) (py_repr s))"

definition convert :: "char option \<Rightarrow> string \<Rightarrow> string res" where
  "convert conv v =
     (case conv of
        None \<Rightarrow> Inr v
      | Some c \<Rightarrow>
          if c = CHR 0x00 \<or> c = CHR ''s'' then Inr v
          else if c = CHR ''r'' then Inr (py_repr v)
          else if c = CHR ''a'' then Inr (py_ascii v)
          else Inl (Raise (ValueError ''Unknown conversion specifier'')))"

subsection \<open>The specification of a text\<close>

record text_spec =
  sp_fill :: char
  sp_align :: char
  sp_sign :: "char option"
  sp_no_neg_0 :: bool
  sp_alternate :: bool
  sp_width :: "nat option"
  sp_precision :: "nat option"
  sp_type :: char

definition is_alignment :: "char \<Rightarrow> bool" where
  "is_alignment c = (c \<in> {CHR ''<'', CHR ''>'', CHR ''='', CHR ''^''})"

text \<open>A fill character in front of an alignment, or an alignment alone.\<close>

fun take_align :: "string \<Rightarrow> char option \<times> char option \<times> string" where
  "take_align (f # a # s) =
     (if is_alignment a then (Some f, Some a, s)
      else if is_alignment f then (None, Some f, a # s)
      else (None, None, f # a # s))"
| "take_align [a] = (if is_alignment a then (None, Some a, []) else (None, None, [a]))"
| "take_align [] = (None, None, [])"

fun take_char :: "char set \<Rightarrow> string \<Rightarrow> char option \<times> string" where
  "take_char C [] = (None, [])"
| "take_char C (c # s) = (if c \<in> C then (Some c, s) else (None, c # s))"

definition take_int :: "string \<Rightarrow> (nat option \<times> string) res" where
  "take_int s =
     (let ds = takeWhile is_digit s
      in if 2 ^ 63 \<le> int (digits_val 10 ds) then Inl (Raise (ValueError ''Too many decimal digits in format string''))
         else Inr (if ds = [] then None else Some (digits_val 10 ds), dropWhile is_digit s))"

definition take_precision :: "string \<Rightarrow> (nat option \<times> string) res" where
  "take_precision s =
     (if s \<noteq> [] \<and> hd s = CHR ''.''
      then bindr (take_int (tl s)) (\<lambda>(n, rest).
             if n = None then Inl (Raise (ValueError ''Format specifier missing precision'')) else Inr (n, rest))
      else Inr (None, s))"

text \<open>The separator of thousands; no text can have one, whatever the type character says.\<close>

definition separator_allowed :: "char option \<Rightarrow> char option \<Rightarrow> char \<Rightarrow> bool" where
  "separator_allowed comma underscore ty =
     (comma = None \<and> underscore = None \<or>
      ty \<in> {CHR ''d'', CHR ''e'', CHR ''f'', CHR ''g'', CHR ''E'', CHR ''G'', CHR ''%'', CHR ''F'', CHR 0x00} \<or>
      comma = None \<and> ty \<in> {CHR ''b'', CHR ''o'', CHR ''x'', CHR ''X''})"

text \<open>Separator, precision and type, behind the width.\<close>

definition spec_end :: "string \<Rightarrow> (nat option \<times> char) res" where
  "spec_end s =
     (let (comma, s) = take_char {CHR '',''} s;
          (underscore, s) = take_char {CHR ''_''} s
      in if underscore \<noteq> None \<and> (comma \<noteq> None \<or> s \<noteq> [] \<and> hd s = CHR '','')
         then Inl (Raise (ValueError ''Cannot specify both a comma and an underscore''))
         else bindr (take_precision s) (\<lambda>(precision, s).
           let ty = (if s = [] then CHR ''s'' else hd s)
           in if 1 < length s then Inl (Raise (ValueError ''Invalid format specifier''))
              else if \<not> separator_allowed comma underscore ty
              then Inl (Raise (ValueError ''Cannot specify a separator''))
              else Inr (precision, ty)))"

definition parse_spec :: "string \<Rightarrow> text_spec res" where
  "parse_spec s =
     (let (fill, align, s) = take_align s;
          (sign, s) = take_char {CHR '' '', CHR ''+'', CHR ''-''} s;
          (no_neg_0, s) = take_char {CHR ''z''} s;
          (alternate, s) = take_char {CHR ''#''} s;
          (zero, s) = (if fill = None then take_char {CHR ''0''} s else (None, s))
      in bindr (take_int s) (\<lambda>(width, s).
         bindr (spec_end s) (\<lambda>(precision, ty).
         Inr \<lparr>sp_fill = (case fill of Some c \<Rightarrow> c | None \<Rightarrow> if zero = None then CHR '' '' else CHR ''0''),
              sp_align = (case align of Some c \<Rightarrow> c | None \<Rightarrow> CHR ''<''),
              sp_sign = sign, sp_no_neg_0 = (no_neg_0 \<noteq> None), sp_alternate = (alternate \<noteq> None),
              sp_width = width, sp_precision = precision, sp_type = ty\<rparr>)))"

definition pad_text :: "char \<Rightarrow> char \<Rightarrow> nat \<Rightarrow> string \<Rightarrow> string" where
  "pad_text fill align width v =
     (let free = width - length v;
          left = (if align = CHR ''>'' then free else if align = CHR ''^'' then free div 2 else 0)
      in replicate left fill @ v @ replicate (free - left) fill)"

definition format_str :: "string \<Rightarrow> string \<Rightarrow> string res" where
  "format_str v spec =
     (if spec = [] then Inr v
      else bindr (parse_spec spec) (\<lambda>sp.
        if sp_type sp \<noteq> CHR ''s'' then Inl (Raise (ValueError ''Unknown format code''))
        else if sp_sign sp \<noteq> None then Inl (Raise (ValueError ''Sign not allowed in string format specifier''))
        else if sp_no_neg_0 sp
        then Inl (Raise (ValueError ''Negative zero coercion (z) not allowed in string format specifier''))
        else if sp_alternate sp
        then Inl (Raise (ValueError ''Alternate form (#) not allowed in string format specifier''))
        else if sp_align sp = CHR ''='' then Inl (Raise (ValueError ''alignment not allowed in string format specifier''))
        else Inr (pad_text (sp_fill sp) (sp_align sp) (case sp_width sp of None \<Rightarrow> 0 | Some n \<Rightarrow> n)
                    (case sp_precision sp of None \<Rightarrow> v | Some n \<Rightarrow> take n v))))"

subsection \<open>Fields and templates\<close>

text \<open>\<open>expand\<close> formats a specification that has a field of its own.\<close>

fun piece_text :: "(string \<Rightarrow> string res) \<Rightarrow> (string \<times> string) list \<Rightarrow> piece \<Rightarrow> string res" where
  "piece_text expand kws (Lit s) = Inr s"
| "piece_text expand kws (Field n conv spec) =
     bindr (field_value kws n) (\<lambda>v.
     bindr (convert conv v) (\<lambda>w.
     bindr (if CHR ''{'' \<in> set spec then expand spec else Inr spec) (format_str w)))"

primrec format_at :: "nat \<Rightarrow> (string \<times> string) list \<Rightarrow> string \<Rightarrow> string res" where
  "format_at 0 kws t = Inl (Raise (ValueError ''Max string recursion exceeded''))"
| "format_at (Suc depth) kws t =
     (case parse_fmt t of
        (ps, e) \<Rightarrow> bindr (mapr (piece_text (format_at depth kws) kws) ps) (\<lambda>ts.
          case e of None \<Rightarrow> Inr (concat ts) | Some x \<Rightarrow> Inl (Raise x)))"

definition format_kw :: "(string \<times> string) list \<Rightarrow> string \<Rightarrow> string res" where
  "format_kw kws t = format_at 2 kws t"

lemma format_kw_pieces:
  "format_kw kws t =
     (case parse_fmt t of
        (ps, e) \<Rightarrow> bindr (mapr (piece_text (format_at 1 kws) kws) ps) (\<lambda>ts.
          case e of None \<Rightarrow> Inr (concat ts) | Some x \<Rightarrow> Inl (Raise x)))"
  by (simp add: format_kw_def eval_nat_numeral)

text \<open>An empty specification leaves the text alone, and a specification can only fail with a \<^verbatim>\<open>ValueError\<close>.\<close>

definition value_error :: "err \<Rightarrow> bool" where
  "value_error e = (\<exists>m. e = Raise (ValueError m))"

lemma format_str_Nil [simp]: "format_str v [] = Inr v"
  by (simp add: format_str_def)

lemma convert_None [simp]: "convert None v = Inr v"
  by (simp add: convert_def)

lemma convert_error: "convert conv v = Inl e \<Longrightarrow> value_error e"
  by (auto simp: convert_def value_error_def split: option.splits if_splits)

lemma take_int_error: "take_int s = Inl e \<Longrightarrow> value_error e"
  by (auto simp: take_int_def value_error_def Let_def split: if_splits)

lemma take_precision_error: "take_precision s = Inl e \<Longrightarrow> value_error e"
  by (auto simp: take_precision_def res_simps split: if_splits prod.splits dest: take_int_error)
    (auto simp: value_error_def)

lemma spec_end_error: "spec_end s = Inl e \<Longrightarrow> value_error e"
  by (auto simp: spec_end_def Let_def case_prod_beta res_simps split: if_splits dest: take_precision_error)
    (auto simp: value_error_def)

lemma parse_spec_error: "parse_spec s = Inl e \<Longrightarrow> value_error e"
  by (auto simp: parse_spec_def Let_def case_prod_beta res_simps dest: take_int_error spec_end_error)

lemma format_str_error: "format_str v spec = Inl e \<Longrightarrow> value_error e"
  by (auto simp: format_str_def res_simps split: if_splits dest: parse_spec_error) (auto simp: value_error_def)

text \<open>A padded text is as wide as the specification asks, and holds the text itself.\<close>

lemma length_pad_text: "length (pad_text fill align width v) = max width (length v)"
  by (auto simp: pad_text_def Let_def)

section \<open>Templates whose fields have been checked\<close>

text \<open>A field name that is one of the arguments, in letters and underscores, is looked up.\<close>

definition arg_name :: "string \<Rightarrow> bool" where
  "arg_name n = (n \<noteq> [] \<and> list_all (\<lambda>c. is_lower c) n)"

lemma field_value_arg: "arg_name n \<Longrightarrow> map_of kws n = Some v \<Longrightarrow> field_value kws n = Inr v"
proof -
  assume n: "arg_name n" "map_of kws n = Some v"
  have low: "c \<noteq> CHR ''.'' \<and> c \<noteq> CHR ''['' \<and> \<not> is_digit c" if "c \<in> set n" for c
    using n(1) that by (auto simp: arg_name_def list_all_iff is_lower_def is_digit_def code_def Let_def)
  then have t: "takeWhile (\<lambda>c. c \<noteq> CHR ''.'' \<and> c \<noteq> CHR ''['') n = n"
    by (simp add: takeWhile_eq_all_conv)
  moreover have "\<not> list_all is_digit n" "takeWhile is_digit n = []" using n(1) low by (cases n; auto simp: arg_name_def)+
  ultimately show ?thesis using n(2) unfolding field_value_def Let_def t by simp
qed

lemma field_value_Nil: "field_value kws [] = Inl (Raise IndexError)"
  by (simp add: field_value_def)

text \<open>
  Fields without conversion and specification, fields without a name, and specifications that have
  fields of their own, which \<^verbatim>\<open>Formatter().parse\<close> does not report.
\<close>

fun plain_piece :: "piece \<Rightarrow> bool" where
  "plain_piece (Lit s) = True"
| "plain_piece (Field n conv spec) = (conv = None \<and> spec = [])"

fun nameless_piece :: "piece \<Rightarrow> bool" where
  "nameless_piece (Lit s) = False"
| "nameless_piece (Field n conv spec) = (n = [])"

fun nested_piece :: "piece \<Rightarrow> bool" where
  "nested_piece (Lit s) = False"
| "nested_piece (Field n conv spec) = (CHR ''{'' \<in> set spec)"

definition plain_template :: "string \<Rightarrow> bool" where
  "plain_template t = list_all plain_piece (fst (parse_fmt t))"

definition nameless_template :: "string \<Rightarrow> bool" where
  "nameless_template t = list_ex nameless_piece (fst (parse_fmt t))"

definition nested_template :: "string \<Rightarrow> bool" where
  "nested_template t = list_ex nested_piece (fst (parse_fmt t))"

text \<open>The errors a template can still give once its named fields are arguments.\<close>

definition checked_error :: "string \<Rightarrow> err \<Rightarrow> bool" where
  "checked_error t e =
     (e = Raise IndexError \<and> nameless_template t \<or>
      (\<exists>m. e = Raise (ValueError m)) \<and> \<not> plain_template t \<or>
      (\<exists>x. e = Raise x) \<and> nested_template t)"

lemma field_value_no_exit: "field_value kws n \<noteq> Inl (Exit m)"
  by (auto simp: field_value_def Let_def split: option.splits)

lemma value_error_no_exit: "\<not> value_error (Exit m)"
  by (simp add: value_error_def)

lemma piece_text_no_exit: "(\<And>s. expand s \<noteq> Inl (Exit m)) \<Longrightarrow> piece_text expand kws p \<noteq> Inl (Exit m)"
  by (cases p) (auto simp: res_simps field_value_no_exit value_error_no_exit split: if_splits
      dest!: convert_error format_str_error)

lemma format_at_no_exit: "format_at depth kws t \<noteq> Inl (Exit m)"
proof (induction depth arbitrary: t)
  case (Suc depth)
  have "piece_text (format_at depth kws) kws p \<noteq> Inl (Exit m)" for p by (rule piece_text_no_exit) (rule Suc)
  then have "mapr (piece_text (format_at depth kws) kws) ps \<noteq> Inl (Exit m)" for ps by (auto dest: mapr_Inl)
  then show ?case by (auto simp: res_simps split: prod.splits option.splits)
qed simp

lemma format_kw_no_exit: "format_kw kws t \<noteq> Inl (Exit m)"
  by (simp add: format_kw_def format_at_no_exit)

lemma piece_text_checked:
  assumes "set (piece_name p) \<subseteq> set (map fst kws)" "list_all arg_name (map fst kws)"
    and "piece_text (format_at depth kws) kws p = Inl e"
  shows "e = Raise IndexError \<and> nameless_piece p \<or> value_error e \<and> \<not> plain_piece p \<or> (\<exists>x. e = Raise x) \<and> nested_piece p"
proof (cases p)
  case (Field n conv spec)
  show ?thesis
  proof (cases "n = []")
    case True
    with Field assms(3) show ?thesis by (simp add: field_value_Nil)
  next
    case False
    with assms Field have "n \<in> fst ` set kws" by auto
    then obtain v where v: "map_of kws n = Some v" by (metis map_of_eq_None_iff option.exhaust)
    have "arg_name n" using assms(2) \<open>n \<in> fst ` set kws\<close> by (auto simp: list_all_iff)
    note n = field_value_arg [OF this v]
    show ?thesis
    proof (cases "CHR ''{'' \<in> set spec")
      case True
      moreover have "\<exists>x. e = Raise x"
        using assms(3) piece_text_no_exit [of "format_at depth kws" _ kws p] format_at_no_exit by (cases e) auto
      ultimately show ?thesis using Field by simp
    next
      case False
      then have "convert conv v = Inl e \<or> (\<exists>w. convert conv v = Inr w \<and> format_str w spec = Inl e)"
        using assms(3) Field n by (auto simp: res_simps)
      then have "value_error e" "\<not> plain_piece p" using Field by (auto dest: convert_error format_str_error)
      then show ?thesis by blast
    qed
  qed
qed (use assms(3) in simp)

lemma format_checked:
  assumes "format_fields t = Inr fs" "set fs \<subseteq> set (map fst kws)" "list_all arg_name (map fst kws)"
    and "format_kw kws t = Inl e"
  shows "checked_error t e"
proof -
  from assms(1) obtain ps where ps: "parse_fmt t = (ps, None)" and fs: "set fs = (\<Union>p\<in>set ps. set (piece_name p))"
    by (auto simp: format_fields_def split: prod.splits option.splits)
  from assms(4) have "mapr (piece_text (format_at 1 kws) kws) ps = Inl e"
    by (simp add: format_kw_pieces ps res_simps)
  from mapr_Inl [OF this] obtain p where p: "p \<in> set ps" "piece_text (format_at 1 kws) kws p = Inl e" by blast
  have "set (piece_name p) \<subseteq> set (map fst kws)" using p(1) fs assms(2) by blast
  from piece_text_checked [OF this assms(3) p(2)] p(1) show ?thesis
    by (auto simp: checked_error_def plain_template_def nameless_template_def nested_template_def ps list_all_iff
        list_ex_iff value_error_def)
qed

lemma plain_not_nested: "plain_template t \<Longrightarrow> \<not> nested_template t"
proof -
  have "plain_piece p \<Longrightarrow> \<not> nested_piece p" for p by (cases p) auto
  then show "plain_template t \<Longrightarrow> \<not> nested_template t" by (auto simp: plain_template_def nested_template_def list_all_iff list_ex_iff)
qed

lemma checked_key_error: "checked_error t (Raise (KeyError k)) \<Longrightarrow> nested_template t"
  by (simp add: checked_error_def)

text \<open>The check of the fields does not see the fields of a specification.\<close>

lemma nested_field_unchecked:
  "format_fields ''{core:{x}}'' = Inr [''core'']"
  "format_kw [(''core'', ''ibex''), (''board'', ''axku5'')] ''{core:{x}}'' = Inl (Raise (KeyError ''x''))"
  "format_kw [(''core'', ''ibex''), (''board'', ''axku5'')] ''{core:d}'' = Inl (Raise (ValueError ''Unknown format code''))"
  "format_kw [(''core'', ''ibex''), (''board'', ''axku5'')] ''{core!r:*^8.5}|{board:.{board}}'' =
     Inl (Raise (ValueError ''Format specifier missing precision''))"
  "format_kw [(''core'', ''ibex''), (''board'', ''axku5'')] ''{core!r:*^8.5}|{board:>07.3s}|'' =
     Inr (''*'' @ [SQ] @ ''ibex**|0000axk|'')"
  by code_simp+

end
