(* ===== verification/Repo.thy ===== *)
theory Repo
  imports Py_Str "HOL-Library.AList"
begin

text \<open>
  The checkout the scripts work on: the absolute path of its root and the text files below it.
  A path is its list of components; a file holds the text \<^verbatim>\<open>read_text\<close> returns for it, so
  that writing a text stores it with the line ends \<^verbatim>\<open>read_text\<close> would give back. There are
  no symbolic links, and a directory exists when it holds a file.
\<close>

type_synonym fpath = "string list"

record repo =
  root :: fpath
  files :: "(fpath \<times> string) list"

section \<open>Paths\<close>

text \<open>The operator \<^verbatim>\<open>/\<close> of \<^verbatim>\<open>pathlib\<close>: an absolute right side replaces the left one.\<close>

definition components :: "string \<Rightarrow> string list" where
  "components s = filter (\<lambda>c. c \<noteq> [] \<and> c \<noteq> ''.'') (split_on CHR ''/'' s)"

definition path_join :: "fpath \<Rightarrow> string \<Rightarrow> fpath" where
  "path_join p s = (if prefix ''/'' s then components s else p @ components s)"

text \<open>\<^verbatim>\<open>resolve()\<close>, without symbolic links.\<close>

fun norm_path :: "fpath \<Rightarrow> string list \<Rightarrow> fpath" where
  "norm_path p [] = p"
| "norm_path p (c # cs) = (if c = ''..'' then norm_path (butlast p) cs else norm_path (p @ [c]) cs)"

definition path_str :: "fpath \<Rightarrow> string" where
  "path_str p = CHR ''/'' # join ''/'' p"

text \<open>\<^verbatim>\<open>relative_to(REPO_ROOT)\<close>, which raises for a path outside the checkout.\<close>

definition relative_to_root :: "repo \<Rightarrow> fpath \<Rightarrow> string res" where
  "relative_to_root r p =
     (if prefix (root r) p then Inr (join ''/'' (drop (length (root r)) p))
      else Inl (Raise (ValueError ''is not in the subpath'')))"

section \<open>Reading\<close>

definition is_dir :: "repo \<Rightarrow> fpath \<Rightarrow> bool" where
  "is_dir r p = list_ex (\<lambda>(q, _). strict_prefix p q) (files r)"

text \<open>The file system walks a path; a parent step needs an existing directory before it.\<close>

fun walk_path :: "repo \<Rightarrow> fpath \<Rightarrow> string list \<Rightarrow> fpath option" where
  "walk_path r p [] = Some p"
| "walk_path r p [c] = Some (if c = ''..'' then butlast p else p @ [c])"
| "walk_path r p (c # d # cs) =
     (if c = ''..'' then walk_path r (butlast p) (d # cs)
      else if is_dir r (p @ [c]) then walk_path r (p @ [c]) (d # cs)
      else None)"

definition lookup_file :: "repo \<Rightarrow> fpath \<Rightarrow> string option" where
  "lookup_file r p =
     (if ''..'' \<in> set p then Option.bind (walk_path r [] p) (map_of (files r)) else map_of (files r) p)"

definition is_file :: "repo \<Rightarrow> fpath \<Rightarrow> bool" where
  "is_file r p = (lookup_file r p \<noteq> None)"

definition path_exists :: "repo \<Rightarrow> fpath \<Rightarrow> bool" where
  "path_exists r p = (is_file r p \<or> (case walk_path r [] p of None \<Rightarrow> False | Some q \<Rightarrow> is_dir r q))"

definition read_text :: "repo \<Rightarrow> fpath \<Rightarrow> string res" where
  "read_text r p =
     (case lookup_file r p of None \<Rightarrow> Inl (Raise FileNotFoundError) | Some t \<Rightarrow> Inr t)"

text \<open>The names of the entries of a directory, and those that \<^verbatim>\<open>glob("*" + ext)\<close> finds.\<close>

definition entries :: "repo \<Rightarrow> fpath \<Rightarrow> string list" where
  "entries r d = remdups (map (\<lambda>(q, _). q ! length d) (filter (\<lambda>(q, _). strict_prefix d q) (files r)))"

definition glob_ext :: "repo \<Rightarrow> fpath \<Rightarrow> string \<Rightarrow> string list" where
  "glob_ext r d ext = filter (suffix ext) (entries r d)"

definition stem :: "string \<Rightarrow> string \<Rightarrow> string" where
  "stem ext n = (if n = ext then n else take (length n - length ext) n)"

section \<open>Writing\<close>

text \<open>Universal newlines: a text file that holds CR or CR LF is read back with LF.\<close>

fun universal_newlines :: "string \<Rightarrow> string" where
  "universal_newlines [] = []"
| "universal_newlines (c # s) =
     (if c = CHR 0x0D then NL # universal_newlines (if s \<noteq> [] \<and> hd s = NL then tl s else s)
      else c # universal_newlines s)"

definition write_text :: "repo \<Rightarrow> fpath \<Rightarrow> string \<Rightarrow> repo" where
  "write_text r p t = r\<lparr>files := AList.update p (universal_newlines t) (files r)\<rparr>"

section \<open>Laws\<close>

lemma lookup_plain: "''..'' \<notin> set p \<Longrightarrow> lookup_file r p = map_of (files r) p"
  by (simp add: lookup_file_def)

lemma root_write [simp]: "root (write_text r p t) = root r"
  by (simp add: write_text_def)

lemma lookup_write:
  "''..'' \<notin> set p \<Longrightarrow> ''..'' \<notin> set q \<Longrightarrow>
     lookup_file (write_text r p t) q = (if q = p then Some (universal_newlines t) else lookup_file r q)"
  by (simp add: lookup_plain write_text_def update_conv)

lemma universal_newlines_no_cr: "CHR 0x0D \<notin> set (universal_newlines t)"
  by (induction t rule: universal_newlines.induct) (auto split: if_splits)

lemma universal_newlines_id: "CHR 0x0D \<notin> set t \<Longrightarrow> universal_newlines t = t"
  by (induction t rule: universal_newlines.induct) auto

lemma universal_newlines_idem [simp]: "universal_newlines (universal_newlines t) = universal_newlines t"
  by (rule universal_newlines_id) (rule universal_newlines_no_cr)

lemma read_text_ok: "read_text r p = Inr t \<longleftrightarrow> lookup_file r p = Some t"
  by (simp add: read_text_def split: option.splits)

lemma is_file_read: "is_file r p \<longleftrightarrow> (\<exists>t. read_text r p = Inr t)"
  by (auto simp: is_file_def read_text_ok)

lemma keys_update: "map fst (AList.update k v xs) = (if k \<in> fst ` set xs then map fst xs else map fst xs @ [k])"
  by (induction xs) auto

lemma entries_keys: "entries r d = remdups (map (\<lambda>q. q ! length d) (filter (strict_prefix d) (map fst (files r))))"
  by (simp add: entries_def filter_map o_def case_prod_unfold)

text \<open>The contract a text store gives its clients, and the checkout as an instance.\<close>

locale text_store =
  fixes get :: "'s \<Rightarrow> 'k \<Rightarrow> string option"
    and put :: "'s \<Rightarrow> 'k \<Rightarrow> string \<Rightarrow> 's"
    and norm :: "string \<Rightarrow> string"
    and valid :: "'k \<Rightarrow> bool"
  assumes get_put: "valid k \<Longrightarrow> valid j \<Longrightarrow> get (put s k t) j = (if j = k then Some (norm t) else get s j)"
    and norm_idem: "norm (norm t) = norm t"
begin

text \<open>Writing several new files: each is there afterwards, and nothing else has changed.\<close>

fun put_all :: "'s \<Rightarrow> ('k \<times> string) list \<Rightarrow> 's" where
  "put_all s [] = s"
| "put_all s ((k, t) # kts) = put_all (put s k t) kts"

lemma get_put_all_other:
  "valid j \<Longrightarrow> list_all valid (map fst kts) \<Longrightarrow> j \<notin> set (map fst kts) \<Longrightarrow> get (put_all s kts) j = get s j"
  by (induction s kts rule: put_all.induct) (auto simp: get_put)

lemma get_put_all:
  "distinct (map fst kts) \<Longrightarrow> list_all valid (map fst kts) \<Longrightarrow> (k, t) \<in> set kts \<Longrightarrow>
     get (put_all s kts) k = Some (norm t)"
proof (induction s kts rule: put_all.induct)
  case (2 s k' t' kts)
  have "valid k" using "2.prems" by (force simp: list_all_iff)
  then show ?case using 2 get_put_all_other [of k kts "put s k' t'"] by (force simp: get_put)
qed simp

lemma put_again: "valid k \<Longrightarrow> valid j \<Longrightarrow> get (put (put s k t) k (norm t)) j = get (put s k t) j"
  by (simp add: get_put norm_idem)

end

definition plain_path :: "fpath \<Rightarrow> bool" where
  "plain_path p = (''..'' \<notin> set p)"

interpretation checkout: text_store lookup_file write_text universal_newlines plain_path
  by unfold_locales (simp_all add: plain_path_def lookup_write)

end
