(* ===== verification/Targets.thy ===== *)
theory Targets
  imports Yaml_Edit Py_Format Repo
begin

text \<open>
  Target selection, the first half of \<^verbatim>\<open>src/bin/validate_target.py\<close>: descriptor files by
  name, required fields, the resolution of a core and a board to a build configuration, their
  compatibility, the listing of all combinations and the expected UART lines.
\<close>

section \<open>Descriptors by name\<close>

definition CORE_DIR :: "repo \<Rightarrow> fpath" where
  "CORE_DIR r = root r @ [''cfg'', ''cores'']"

definition BOARD_DIR :: "repo \<Rightarrow> fpath" where
  "BOARD_DIR r = root r @ [''cfg'', ''boards'']"

definition UART_BANNER_FILE :: "repo \<Rightarrow> fpath" where
  "UART_BANNER_FILE r = root r @ [''cfg'', ''validation'', ''uart_banners.yaml'']"

definition UART_FIRMWARES :: "string list" where
  "UART_FIRMWARES = [''baremetal'', ''zephyr'']"

definition UART_VARIANTS :: "string list" where
  "UART_VARIANTS = [''sim'', ''debug'', ''loader'']"

definition UART_BANNER_FIELDS :: "string list" where
  "UART_BANNER_FIELDS = [''core'', ''board'', ''target'']"

definition SUPPORTED_STATUS :: string where
  "SUPPORTED_STATUS = ''supported''"

definition ZEPHYR_STATUSES :: "string list" where
  "ZEPHYR_STATUSES = [''initial_supported'', ''supported'', ''planned'', ''unsupported'']"

definition PLATFORM_INTEGRATIONS :: "string list" where
  "PLATFORM_INTEGRATIONS = [''socket_region'', ''native_axi'']"

definition descriptor_names :: "repo \<Rightarrow> fpath \<Rightarrow> string list" where
  "descriptor_names r directory = sort (map (stem ''.yaml'') (glob_ext r directory ''.yaml''))"

definition descriptor_path :: "fpath \<Rightarrow> string \<Rightarrow> fpath" where
  "descriptor_path directory name = path_join directory (name @ ''.yaml'')"

text \<open>\<^verbatim>\<open>', '.join(names) or '(none)'\<close>, and \<^verbatim>\<open>value or default\<close> on an optional text.\<close>

abbreviation comma_list :: "string list \<Rightarrow> string" where
  "comma_list xs \<equiv> join '', '' xs"

definition or_none :: "string list \<Rightarrow> string" where
  "or_none xs = (if comma_list xs = [] then ''(none)'' else comma_list xs)"

fun opt_or :: "string option \<Rightarrow> string \<Rightarrow> string" where
  "opt_or None d = d"
| "opt_or (Some v) d = (if v = [] then d else v)"

definition require_scalar :: "string \<Rightarrow> string list \<Rightarrow> string \<Rightarrow> string res" where
  "require_scalar text path descriptor =
     (case yaml_path_scalar text path of
        None \<Rightarrow> Inl (Exit (''missing required field '' @ quoted (join ''.'' path) @ '' in '' @ descriptor))
      | Some v \<Rightarrow> Inr v)"

definition core_label :: "string \<Rightarrow> string" where
  "core_label core = ''CORE '' @ quoted core"

definition board_label :: "string \<Rightarrow> string" where
  "board_label board = ''BOARD '' @ quoted board"

section \<open>Expected UART lines\<close>

text \<open>\<^verbatim>\<open>fields - allowed\<close>, sorted, as the messages print it.\<close>

definition unsupported_fields :: "string list \<Rightarrow> string list \<Rightarrow> string list" where
  "unsupported_fields names allowed = sort (filter (\<lambda>f. f \<notin> set allowed) names)"

definition resolve_uart_banner :: "repo \<Rightarrow> string \<Rightarrow> string \<Rightarrow> string \<Rightarrow> string \<Rightarrow> string list res" where
  "resolve_uart_banner r firmware variant core board =
     fail_if (firmware \<notin> set UART_FIRMWARES)
       (''unknown firmware '' @ quoted firmware @ '', expected one of: '' @ comma_list UART_FIRMWARES) (
     fail_if (variant \<notin> set UART_VARIANTS)
       (''unknown variant '' @ quoted variant @ '', expected one of: '' @ comma_list UART_VARIANTS) (
     fail_if (\<not> is_file r (UART_BANNER_FILE r))
       (''missing UART banner descriptor: cfg/validation/uart_banners.yaml'') (
     bindr (read_text r (UART_BANNER_FILE r)) (\<lambda>text.
     let banner = yaml_path_list text [firmware, ''banner'']
     in fail_if (banner = []) (firmware @ ''.banner must list at least one expected line'') (
     case yaml_path_scalar text [firmware, ''alive'', variant] of
       None \<Rightarrow> Inl (Exit (firmware @ ''.alive.'' @ variant @ '' is not defined''))
     | Some alive \<Rightarrow>
         (let target = (if variant = ''sim'' then ''sim'' else ''fpga'')
          in mapr (format_kw [(''core'', core), (''board'', board), (''target'', target)])
               (banner @ [alive])))))))"

definition banner_line_check :: "string \<Rightarrow> string \<Rightarrow> unit res" where
  "banner_line_check firmware line =
     bindr (format_fields line) (\<lambda>names.
       let unsupported = unsupported_fields names UART_BANNER_FIELDS
       in fail_if (unsupported \<noteq> [])
            (firmware @ ''.banner contains unsupported placeholder(s): '' @ comma_list unsupported)
            (Inr ()))"

definition alive_check :: "string \<Rightarrow> string \<Rightarrow> string \<Rightarrow> unit res" where
  "alive_check text firmware variant =
     fail_if (yaml_path_scalar text [firmware, ''alive'', variant] = None)
       (firmware @ ''.alive.'' @ variant @ '' is not defined'') (Inr ())"

definition firmware_variants :: "string \<Rightarrow> string list" where
  "firmware_variants firmware =
     (if firmware = ''baremetal'' then UART_VARIANTS else [''debug'', ''loader''])"

definition firmware_check :: "string \<Rightarrow> string \<Rightarrow> unit res" where
  "firmware_check text firmware =
     (let banner = yaml_path_list text [firmware, ''banner'']
      in fail_if (banner = []) (firmware @ ''.banner must list at least one expected line'') (
         bindr (eachr (banner_line_check firmware) banner) (\<lambda>_.
         eachr (alive_check text firmware) (firmware_variants firmware))))"

definition check_uart_banner_descriptor :: "repo \<Rightarrow> unit res" where
  "check_uart_banner_descriptor r =
     fail_if (\<not> is_file r (UART_BANNER_FILE r))
       (''missing UART banner descriptor: cfg/validation/uart_banners.yaml'') (
     bindr (read_text r (UART_BANNER_FILE r)) (\<lambda>text.
     eachr (firmware_check text) UART_FIRMWARES))"

section \<open>Fields\<close>

definition parse_positive_int :: "string \<Rightarrow> string \<Rightarrow> int res" where
  "parse_positive_int value field =
     (case py_int0 value of
        None \<Rightarrow> Inl (Exit (field @ '' must be an integer, got '' @ quoted value))
      | Some parsed \<Rightarrow>
          fail_if (parsed \<le> 0) (field @ '' must be positive, got '' @ quoted value) (Inr parsed))"

definition parse_nonnegative_int :: "string \<Rightarrow> string \<Rightarrow> int res" where
  "parse_nonnegative_int value field =
     (case py_int0 value of
        None \<Rightarrow> Inl (Exit (field @ '' must be an integer, got '' @ quoted value))
      | Some parsed \<Rightarrow>
          fail_if (parsed < 0) (field @ '' must be non-negative, got '' @ quoted value) (Inr parsed))"

definition integration_status :: "string \<Rightarrow> string \<Rightarrow> string" where
  "integration_status core_text flow =
     opt_or (yaml_path_scalar core_text [''integration'', flow]) SUPPORTED_STATUS"

definition zephyr_status :: "string \<Rightarrow> string" where
  "zephyr_status core_text =
     opt_or (yaml_path_scalar core_text [''software'', ''zephyr'', ''status'']) ''planned''"

definition integration_message :: "string \<Rightarrow> string" where
  "integration_message integration =
     ''platform.integration must be one of '' @ comma_list (sort PLATFORM_INTEGRATIONS) @
     ''; got '' @ quoted integration"

definition platform_integration :: "string \<Rightarrow> string res" where
  "platform_integration core_text =
     bindr (require_scalar core_text [''platform'', ''integration''] ''CORE descriptor'') (\<lambda>integration.
     fail_if (integration \<notin> set PLATFORM_INTEGRATIONS) (integration_message integration)
       (Inr integration))"

definition fusesoc_core_flags :: "string \<Rightarrow> string list res" where
  "fusesoc_core_flags core_text =
     bindr (require_scalar core_text [''fusesoc'', ''core_flag''] ''CORE descriptor'') (\<lambda>core_flag.
     bindr (platform_integration core_text) (\<lambda>integration.
     Inr (core_flag # (if integration = ''socket_region'' then [''core_region''] else []))))"

definition flag_rx :: rx where
  "flag_rx = plus1 is_key"

definition fusesoc_board_flag :: "string \<Rightarrow> string res" where
  "fusesoc_board_flag board_text =
     bindr (require_scalar board_text [''fusesoc'', ''board_flag''] ''BOARD descriptor'') (\<lambda>flag.
     fail_if (\<not> re_fullmatch flag_rx flag)
       (''fusesoc.board_flag contains unsupported characters: '' @ flag) (Inr flag))"

section \<open>The configuration of a target\<close>

type_synonym config = "(string \<times> string) list"

definition target_args :: "string \<Rightarrow> string \<Rightarrow> (string \<times> string) list" where
  "target_args core board = [(''core'', core), (''board'', board)]"

definition template_check :: "string \<Rightarrow> string \<Rightarrow> unit res" where
  "template_check what template =
     bindr (format_fields template) (\<lambda>names.
       let unsupported = unsupported_fields names [''core'', ''board'']
       in fail_if (unsupported \<noteq> []) (''unsupported field(s) in '' @ what @ '': '' @ comma_list unsupported)
            (Inr ()))"

definition ram_words_text :: "string \<Rightarrow> string res" where
  "ram_words_text ram_bytes =
     (case py_int0 ram_bytes of
        None \<Rightarrow> Inl (Raise (ValueError ''invalid literal for int() with base 0''))
      | Some n \<Rightarrow> Inr (py_str (n div 4)))"

definition resolve_under :: "repo \<Rightarrow> string \<Rightarrow> string" where
  "resolve_under r s = path_str (norm_path [] (path_join (root r) s))"

definition target_config :: "repo \<Rightarrow> string \<Rightarrow> string \<Rightarrow> string \<Rightarrow> string \<Rightarrow> config res" where
  "target_config r core board core_text board_text =
     bindr (require_scalar board_text [''fpga'', ''top_template''] (board_label board)) (\<lambda>top_template.
     bindr (template_check ''board top_template'' top_template) (\<lambda>_.
     bindr (require_scalar board_text [''fpga'', ''target''] (board_label board)) (\<lambda>fpga_target_template.
     bindr (template_check ''board fpga.target'' fpga_target_template) (\<lambda>_.
     bindr (format_kw (target_args core board) fpga_target_template) (\<lambda>fpga_target.
     bindr (fusesoc_board_flag board_text) (\<lambda>board_flag.
     bindr (require_scalar board_text [''fpga'', ''work_root''] (board_label board)) (\<lambda>work_root.
     bindr (require_scalar board_text [''debug'', ''jtag_adapter''] (board_label board)) (\<lambda>jtag_adapter.
     bindr (require_scalar board_text [''clock'', ''soc_hz''] (board_label board)) (\<lambda>soc_clk_hz.
     bindr (require_scalar board_text [''uart'', ''baud''] (board_label board)) (\<lambda>uart_baud.
     let ram_bytes = opt_or (yaml_path_scalar board_text [''memory'', ''ram_bytes'']) ''1048576'' in
     bindr (ram_words_text ram_bytes) (\<lambda>ram_words.
     bindr (require_scalar core_text [''isa'', ''march''] (core_label core)) (\<lambda>march.
     bindr (require_scalar core_text [''isa'', ''mabi''] (core_label core)) (\<lambda>mabi.
     bindr (require_scalar core_text [''software'', ''toolchain''] (core_label core)) (\<lambda>toolchain.
     bindr (require_scalar core_text [''platform'', ''core_type''] (core_label core)) (\<lambda>core_type.
     bindr (platform_integration core_text) (\<lambda>integration.
     bindr (require_scalar core_text [''fusesoc'', ''sim_target''] (core_label core)) (\<lambda>sim_target.
     bindr (require_scalar core_text [''fusesoc'', ''core_flag''] (core_label core)) (\<lambda>core_flag.
     bindr (fusesoc_core_flags core_text) (\<lambda>core_flags.
     bindr (format_kw (target_args core board) top_template) (\<lambda>fpga_top.
     bindr (format_kw (target_args core board) work_root) (\<lambda>work.
     Inr [(''CORE_TYPE'', core_type),
          (''CORE_INTEGRATION'', integration),
          (''SIM_FUSESOC_TARGET'', sim_target),
          (''FUSESOC_CORE_FLAG'', core_flag),
          (''FUSESOC_CORE_FLAGS'', join '' '' core_flags),
          (''FUSESOC_BOARD_FLAG'', board_flag),
          (''FUSESOC_FLAGS'', join '' '' (core_flags @ [board_flag])),
          (''FPGA_TOP'', fpga_top),
          (''FPGA_TARGET'', fpga_target),
          (''FPGA_WORK_ROOT'', resolve_under r work),
          (''JTAG_ADAPTER'', jtag_adapter),
          (''MARCH'', march),
          (''MABI'', mabi),
          (''TOOLCHAIN'', toolchain),
          (''ZEPHYR_STATUS'', zephyr_status core_text),
          (''SOC_CLK_HZ'', soc_clk_hz),
          (''UART_BAUD'', uart_baud),
          (''SOC_RAM_BYTES'', ram_bytes),
          (''RAM_WORDS'', ram_words)])))))))))))))))))))))"

definition unknown_core :: "repo \<Rightarrow> string \<Rightarrow> string" where
  "unknown_core r core =
     ''unknown CORE '' @ quoted core @ ''. Available cores: '' @ or_none (descriptor_names r (CORE_DIR r))"

definition unknown_board :: "repo \<Rightarrow> string \<Rightarrow> string" where
  "unknown_board r board =
     ''unknown BOARD '' @ quoted board @ ''. Available boards: '' @ or_none (descriptor_names r (BOARD_DIR r))"

definition load_descriptors :: "repo \<Rightarrow> string \<Rightarrow> string \<Rightarrow> (string \<times> string) res" where
  "load_descriptors r core board =
     (let core_path = descriptor_path (CORE_DIR r) core;
          board_path = descriptor_path (BOARD_DIR r) board
      in fail_if (\<not> is_file r core_path) (unknown_core r core) (
         fail_if (\<not> is_file r board_path) (unknown_board r board) (
         bindr (read_text r core_path) (\<lambda>core_text.
         bindr (read_text r board_path) (\<lambda>board_text.
         Inr (core_text, board_text))))))"

definition is_compatible ::
    "string \<Rightarrow> string \<Rightarrow> string \<Rightarrow> string \<Rightarrow> string \<Rightarrow> bool \<Rightarrow> bool \<times> string" where
  "is_compatible core board core_text board_text flow allow_planned =
     (let status = integration_status core_text flow;
          compatible_boards = yaml_top_list core_text ''compatible_boards'';
          compatible_cores = yaml_top_list board_text ''compatible_cores''
      in if status = ''unsupported'' then (False, flow @ '' integration status: '' @ status)
         else if status \<noteq> SUPPORTED_STATUS \<and> \<not> allow_planned
         then (False, flow @ '' integration status: '' @ status)
         else if compatible_boards \<noteq> [] \<and> board \<notin> set compatible_boards
         then (False, ''core supports: '' @ comma_list compatible_boards)
         else if compatible_cores \<noteq> [] \<and> core \<notin> set compatible_cores
         then (False, ''board supports: '' @ comma_list compatible_cores)
         else (True, []))"

section \<open>Commands\<close>

text \<open>\<^verbatim>\<open>config[key]\<close>\<close>

definition config_get :: "config \<Rightarrow> string \<Rightarrow> string res" where
  "config_get config key =
     (case map_of config key of None \<Rightarrow> Inl (Raise (KeyError key)) | Some v \<Rightarrow> Inr v)"

definition validate_keys :: "string list" where
  "validate_keys = [''FPGA_TOP'', ''FPGA_TARGET'', ''FPGA_WORK_ROOT'', ''CORE_TYPE'',
     ''CORE_INTEGRATION'', ''SIM_FUSESOC_TARGET'', ''FUSESOC_CORE_FLAG'', ''FUSESOC_CORE_FLAGS'',
     ''FUSESOC_BOARD_FLAG'', ''FUSESOC_FLAGS'', ''JTAG_ADAPTER'', ''MARCH'', ''MABI'', ''TOOLCHAIN'',
     ''ZEPHYR_STATUS'', ''SOC_CLK_HZ'', ''UART_BAUD'']"

definition make_assignment :: "string \<times> string \<Rightarrow> string" where
  "make_assignment kv = ''$(eval '' @ fst kv @ '' := '' @ snd kv @ '')''"

definition validate_output ::
    "string \<Rightarrow> string \<Rightarrow> bool \<Rightarrow> bool \<Rightarrow> string \<Rightarrow> string \<Rightarrow> config \<Rightarrow> run" where
  "validate_output core board quiet as_make flow core_text config =
     (if quiet then emit []
      else if as_make then emit (map make_assignment config)
      else run_seq (emit [''CORE='' @ core, ''BOARD='' @ board, ''FLOW='' @ flow,
                          ''INTEGRATION_STATUS='' @ integration_status core_text flow])
             (run_each (\<lambda>key. run_res (config_get config key) (\<lambda>v. emit [key @ ''='' @ v])) validate_keys))"

definition validate :: "repo \<Rightarrow> string \<Rightarrow> string \<Rightarrow> bool \<Rightarrow> bool \<Rightarrow> bool \<Rightarrow> string \<Rightarrow> run" where
  "validate r core board quiet as_make allow_planned flow =
     run_res (load_descriptors r core board) (\<lambda>(core_text, board_text).
     case is_compatible core board core_text board_text flow allow_planned of
       (compatible, reason) \<Rightarrow>
         run_res (fail_if (\<not> compatible) (core_label core @ '' and '' @ board_label board @
             '' are not compatible ('' @ reason @ '')'') (Inr ())) (\<lambda>_.
         run_res (target_config r core board core_text board_text) (\<lambda>config.
         validate_output core board quiet as_make flow core_text config)))"

definition listed :: "string list \<Rightarrow> run" where
  "listed names = emit (if names = [] then [''  (none)''] else map (\<lambda>n. ''  '' @ n) names)"

definition combo_fields :: "(string \<times> string) list" where
  "combo_fields = [(''sim_target'', ''SIM_FUSESOC_TARGET''), (''core_flag'', ''FUSESOC_CORE_FLAG''),
     (''core_flags'', ''FUSESOC_CORE_FLAGS''), (''board_flag'', ''FUSESOC_BOARD_FLAG''),
     (''target'', ''FPGA_TARGET''), (''top'', ''FPGA_TOP''), (''core_type'', ''CORE_TYPE''),
     (''integration'', ''CORE_INTEGRATION''), (''toolchain'', ''TOOLCHAIN''), (''zephyr'', ''ZEPHYR_STATUS''),
     (''march'', ''MARCH''), (''mabi'', ''MABI'')]"

definition config_fields :: "config \<Rightarrow> (string \<times> string) list \<Rightarrow> string list res" where
  "config_fields config =
     mapr (\<lambda>(label, key). bindr (config_get config key) (\<lambda>v. Inr (label @ ''='' @ v)))"

definition combo_line :: "string \<Rightarrow> string \<Rightarrow> string \<Rightarrow> config \<Rightarrow> string res" where
  "combo_line core board core_text config =
     bindr (config_fields config combo_fields) (\<lambda>fs.
     bindr (config_get config ''SOC_CLK_HZ'') (\<lambda>clk.
     bindr (config_get config ''UART_BAUD'') (\<lambda>baud.
     Inr (''  '' @ core @ ''/'' @ board @ '': '' @ join '' '' (fs @ [''clk='' @ clk @ ''Hz'', ''baud='' @ baud] @
       map (\<lambda>flow. flow @ ''='' @ integration_status core_text flow) [''sim'', ''fpga'', ''debug''])))))"

definition unavailable_line :: "string \<times> string \<times> string \<Rightarrow> string" where
  "unavailable_line = (\<lambda>(core, board, reason). ''  '' @ core @ ''/'' @ board @ '': '' @ reason)"

text \<open>The loop over the combinations, with what it has found so far, and the lines after it.\<close>

fun list_combos ::
    "repo \<Rightarrow> (string \<times> string) list \<Rightarrow> bool \<Rightarrow> (string \<times> string \<times> string) list \<Rightarrow> run" where
  "list_combos r [] found unavailable =
     run_seq (emit (if found then [] else [''  (none)'']))
       (emit (if unavailable = [] then []
              else ''Unavailable combinations:'' # map unavailable_line unavailable))"
| "list_combos r ((core, board) # pairs) found unavailable =
     run_res (load_descriptors r core board) (\<lambda>(core_text, board_text).
     case is_compatible core board core_text board_text ''fpga'' True of
       (compatible, reason) \<Rightarrow>
         if \<not> compatible then list_combos r pairs found (unavailable @ [(core, board, reason)])
         else run_res (target_config r core board core_text board_text) (\<lambda>config.
              run_res (combo_line core board core_text config) (\<lambda>line.
              run_seq (emit [line]) (list_combos r pairs True unavailable))))"

definition list_targets :: "repo \<Rightarrow> run" where
  "list_targets r =
     (let cores = descriptor_names r (CORE_DIR r);
          boards = descriptor_names r (BOARD_DIR r)
      in run_seq (emit [''Available cores:'']) (run_seq (listed cores) (
         run_seq (emit [''Available boards:'']) (run_seq (listed boards) (
         run_seq (emit [''Descriptor combinations:''])
           (list_combos r (List.product cores boards) False []))))))"

definition print_compatible_cores :: "repo \<Rightarrow> string \<Rightarrow> run" where
  "print_compatible_cores r board =
     (let board_path = descriptor_path (BOARD_DIR r) board
      in run_res (fail_if (\<not> is_file r board_path) (unknown_board r board) (read_text r board_path))
           (\<lambda>board_text.
              let compatible_cores = yaml_top_list board_text ''compatible_cores''
              in emit [join '' '' (if compatible_cores \<noteq> [] then compatible_cores
                                  else descriptor_names r (CORE_DIR r))]))"

section \<open>Templates and fields\<close>

lemma require_scalar_ok [res_simps]: "require_scalar text path d = Inr v \<longleftrightarrow> yaml_path_scalar text path = Some v"
  by (simp add: require_scalar_def split: option.splits)

lemma require_scalar_no_raise [simp]: "require_scalar text path d \<noteq> Inl (Raise x)"
  by (simp add: require_scalar_def split: option.splits)

lemma fail_if_raise [res_simps]: "fail_if b msg k = Inl (Raise x) \<longleftrightarrow> \<not> b \<and> k = Inl (Raise x)"
  by (simp add: fail_if_def)

lemma unsupported_Nil: "unsupported_fields names allowed = [] \<longleftrightarrow> set names \<subseteq> set allowed"
proof -
  have "unsupported_fields names allowed = [] \<longleftrightarrow> set (unsupported_fields names allowed) = {}" by (metis set_empty)
  then show ?thesis by (auto simp: unsupported_fields_def)
qed

lemma arg_names: "list_all arg_name [''core'', ''board'', ''target'']"
  by code_simp

lemma template_check_ok [res_simps]:
  "template_check what t = Inr u \<longleftrightarrow> (\<exists>fs. format_fields t = Inr fs \<and> set fs \<subseteq> {''core'', ''board''})"
  by (auto simp: template_check_def res_simps unsupported_Nil)

lemma template_checked_format:
  assumes "template_check what t = Inr u" "format_kw (target_args core board) t = Inl e"
  shows "checked_error t e"
proof -
  from assms(1) obtain fs where fs: "format_fields t = Inr fs" "set fs \<subseteq> {''core'', ''board''}"
    by (auto simp: res_simps)
  show ?thesis using arg_names by (intro format_checked [OF fs(1) _ _ assms(2)]) (use fs(2) in \<open>auto simp: target_args_def\<close>)
qed

lemma template_check_no_key: "template_check what t \<noteq> Inl (Raise (KeyError k))"
  using parse_fmt_error [of t]
  by (auto simp: template_check_def format_fields_def res_simps Let_def split: prod.splits option.splits)

text \<open>
  (C35) Where a \<^verbatim>\<open>KeyError\<close> of \<^verbatim>\<open>target_config\<close> comes from: the template \<^verbatim>\<open>fpga.work_root\<close>,
  whose fields are not checked, or a checked one, \<^verbatim>\<open>fpga.top_template\<close> or \<^verbatim>\<open>fpga.target\<close>,
  with a field inside a format specification, such as \<^verbatim>\<open>{core:{x}}\<close>: \<^verbatim>\<open>Formatter().parse\<close>
  reports only the outer field, so the check passes. In both cases the exception is the one of
  \<^verbatim>\<open>format\<close> on that template. A plain checked template never gives one.
\<close>

theorem target_config_key_error:
  assumes "target_config r core board core_text board_text = Inl (Raise (KeyError k))"
  shows "\<exists>key t. yaml_path_scalar board_text [''fpga'', key] = Some t \<and>
    format_kw (target_args core board) t = Inl (Raise (KeyError k)) \<and>
    (key = ''work_root'' \<or>
     key \<in> {''top_template'', ''target''} \<and> (\<exists>what. template_check what t = Inr ()) \<and> nested_template t)"
proof -
  have checked: "nested_template t" if "template_check what t = Inr ()" "format_kw (target_args core board) t = Inl (Raise (KeyError k))"
    for what t using template_checked_format [OF that] by (rule checked_key_error)
  consider (target) t where "yaml_path_scalar board_text [''fpga'', ''target''] = Some t"
      "template_check ''board fpga.target'' t = Inr ()" "format_kw (target_args core board) t = Inl (Raise (KeyError k))"
    | (top) t where "yaml_path_scalar board_text [''fpga'', ''top_template''] = Some t"
      "template_check ''board top_template'' t = Inr ()" "format_kw (target_args core board) t = Inl (Raise (KeyError k))"
    | (work) t where "yaml_path_scalar board_text [''fpga'', ''work_root''] = Some t"
      "format_kw (target_args core board) t = Inl (Raise (KeyError k))"
    using assms template_check_no_key
    by (auto simp: target_config_def Let_def bindr_eq_Inl bindr_eq_Inr fail_if_raise require_scalar_ok platform_integration_def
        fusesoc_core_flags_def fusesoc_board_flag_def ram_words_text_def split: option.splits)
  then show ?thesis
  proof cases
    case target
    with checked [OF target(2,3)] show ?thesis by blast
  next
    case top
    with checked [OF top(2,3)] show ?thesis by blast
  qed blast
qed

text \<open>
  (C6) A resolved configuration is consistent: \<^verbatim>\<open>RAM_WORDS\<close> reads back as a quarter of
  \<^verbatim>\<open>SOC_RAM_BYTES\<close>, and the FuseSoC flags are the core flag, the region flag exactly for a core
  in a socket region, and the board flag, which is an identifier.
\<close>

theorem target_config_consistent:
  assumes "target_config r core board core_text board_text = Inr cfg"
  shows "\<exists>ram n core_flag flags flag integ. map_of cfg ''SOC_RAM_BYTES'' = Some ram \<and> py_int0 ram = Some n \<and>
    Option.bind (map_of cfg ''RAM_WORDS'') py_int0 = Some (n div 4) \<and>
    map_of cfg ''FUSESOC_CORE_FLAG'' = Some core_flag \<and>
    map_of cfg ''FUSESOC_CORE_FLAGS'' = Some flags \<and> map_of cfg ''FUSESOC_BOARD_FLAG'' = Some flag \<and>
    map_of cfg ''FUSESOC_FLAGS'' = Some (flags @ '' '' @ flag) \<and> list_all is_key flag \<and>
    map_of cfg ''CORE_INTEGRATION'' = Some integ \<and> integ \<in> set PLATFORM_INTEGRATIONS \<and>
    flags = core_flag @ (if integ = ''socket_region'' then '' core_region'' else [])"
  using assms
  by (auto simp: target_config_def Let_def res_simps platform_integration_def fusesoc_core_flags_def
      fusesoc_board_flag_def ram_words_text_def py_int0_str flag_rx_def re_fullmatch_plus split: option.splits)
lemma config_keys:
  assumes "target_config r core board core_text board_text = Inr cfg" "k \<in> set validate_keys"
  shows "\<exists>v. config_get cfg k = Inr v"
proof -
  from assms(1) have "map fst cfg = [''CORE_TYPE'', ''CORE_INTEGRATION'', ''SIM_FUSESOC_TARGET'',
      ''FUSESOC_CORE_FLAG'', ''FUSESOC_CORE_FLAGS'', ''FUSESOC_BOARD_FLAG'', ''FUSESOC_FLAGS'', ''FPGA_TOP'',
      ''FPGA_TARGET'', ''FPGA_WORK_ROOT'', ''JTAG_ADAPTER'', ''MARCH'', ''MABI'', ''TOOLCHAIN'',
      ''ZEPHYR_STATUS'', ''SOC_CLK_HZ'', ''UART_BAUD'', ''SOC_RAM_BYTES'', ''RAM_WORDS'']"
    by (auto simp: target_config_def Let_def res_simps)
  moreover have "set validate_keys \<subseteq> set [''CORE_TYPE'', ''CORE_INTEGRATION'', ''SIM_FUSESOC_TARGET'',
      ''FUSESOC_CORE_FLAG'', ''FUSESOC_CORE_FLAGS'', ''FUSESOC_BOARD_FLAG'', ''FUSESOC_FLAGS'', ''FPGA_TOP'',
      ''FPGA_TARGET'', ''FPGA_WORK_ROOT'', ''JTAG_ADAPTER'', ''MARCH'', ''MABI'', ''TOOLCHAIN'',
      ''ZEPHYR_STATUS'', ''SOC_CLK_HZ'', ''UART_BAUD'', ''SOC_RAM_BYTES'', ''RAM_WORDS'']"
    by code_simp
  ultimately have "k \<in> fst ` set cfg" using assms(2) by (metis set_map subsetD)
  then have "map_of cfg k \<noteq> None" by (simp add: map_of_eq_None_iff)
  then show ?thesis by (auto simp: config_get_def)
qed

lemma validate_output_ok:
  "target_config r core board core_text board_text = Inr cfg \<Longrightarrow>
     snd (validate_output c b q m flow ct cfg) = Inr ()"
  using config_keys [of r core board core_text board_text cfg]
  by (fastforce simp: validate_output_def res_simps)

lemma validate_end:
  "snd (validate r core board quiet as_make allow_planned flow) =
     bindr (load_descriptors r core board) (\<lambda>(core_text, board_text).
     fail_if (\<not> fst (is_compatible core board core_text board_text flow allow_planned))
       (core_label core @ '' and '' @ board_label board @ '' are not compatible ('' @
          snd (is_compatible core board core_text board_text flow allow_planned) @ '')'')
     (bindr (target_config r core board core_text board_text) (\<lambda>_. Inr ())))"
  by (auto simp: validate_def run_res_def bindr_def fail_if_def validate_output_ok case_prod_beta
      split: sum.splits)

text \<open>
  The three output modes of \<^verbatim>\<open>validate\<close> accept the same targets and fail with the same
  error; nothing is printed unless the target is accepted.
\<close>

theorem validate_modes_agree:
  "snd (validate r core board quiet as_make allow_planned flow) =
     snd (validate r core board quiet' as_make' allow_planned flow) \<and>
   (fst (validate r core board quiet as_make allow_planned flow) = [] \<or>
    snd (validate r core board quiet as_make allow_planned flow) = Inr ())"
proof -
  have "fst (validate r core board quiet as_make allow_planned flow) = []"
    if "snd (validate r core board quiet as_make allow_planned flow) \<noteq> Inr ()"
    using that by (auto simp: validate_def run_res_def fail_if_def validate_output_ok case_prod_beta
      split: sum.splits if_splits)
  then show ?thesis by (auto simp: validate_end)
qed

text \<open>The output accounts for a combination: with a line of its own, or as unavailable.\<close>

definition accounted :: "repo \<Rightarrow> string list \<Rightarrow> string \<times> string \<Rightarrow> bool" where
  "accounted r out = (\<lambda>(core, board). \<exists>ct bt. load_descriptors r core board = Inr (ct, bt) \<and>
     (case is_compatible core board ct bt ''fpga'' True of
        (True, _) \<Rightarrow> \<exists>cfg l. target_config r core board ct bt = Inr cfg \<and>
          combo_line core board ct cfg = Inr l \<and> l \<in> set out
      | (False, reason) \<Rightarrow> unavailable_line (core, board, reason) \<in> set out))"

lemma accounted_mono:
  assumes "accounted r out p" "set out \<subseteq> set out'"
  shows "accounted r out' p"
proof (cases p)
  case (Pair core board)
  with assms(1) obtain ct bt where ld: "load_descriptors r core board = Inr (ct, bt)" by (auto simp: accounted_def)
  obtain ok reason where ic: "is_compatible core board ct bt ''fpga'' True = (ok, reason)" by fastforce
  show ?thesis using assms by (cases ok) (auto simp: Pair accounted_def ld ic)
qed

lemma list_combos_listed:
  "snd (list_combos r ps found un) = Inr () \<Longrightarrow>
     unavailable_line ` set un \<subseteq> set (fst (list_combos r ps found un)) \<and>
     (\<forall>p\<in>set ps. accounted r (fst (list_combos r ps found un)) p)"
proof (induction r ps found un rule: list_combos.induct)
  case (1 r found un)
  then show ?case by (simp add: run_seq_out res_simps) blast
next
  case (2 r core board ps found un)
  from "2.prems" obtain ct bt where ld: "load_descriptors r core board = Inr (ct, bt)"
    by (auto simp: res_simps)
  obtain ok reason where ic: "is_compatible core board ct bt ''fpga'' True = (ok, reason)" by fastforce
  show ?case
  proof (cases ok)
    case False
    have out: "list_combos r ((core, board) # ps) found un = list_combos r ps found (un @ [(core, board, reason)])"
      using False by (simp add: ld ic)
    from "2.IH"(1) [OF ic [symmetric] False] "2.prems" show ?thesis
      unfolding out by (auto simp: accounted_def ld ic False)
  next
    case True
    with "2.prems" obtain cfg l where c: "target_config r core board ct bt = Inr cfg"
      "combo_line core board ct cfg = Inr l" and s: "snd (list_combos r ps True un) = Inr ()"
      by (auto simp: ld ic res_simps)
    have out: "fst (list_combos r ((core, board) # ps) found un) = l # fst (list_combos r ps True un)"
      using True c s by (simp add: ld ic run_seq_out)
    have "unavailable_line ` set un \<subseteq> set (fst (list_combos r ps True un)) \<and>
        (\<forall>p\<in>set ps. accounted r (fst (list_combos r ps True un)) p)"
      using "2.IH"(2) [OF ic [symmetric]] True s by simp
    moreover have "accounted r (l # fst (list_combos r ps True un)) (core, board)"
      by (simp add: accounted_def ld ic True c)
    ultimately show ?thesis unfolding out by (fastforce intro: accounted_mono)
  qed
qed

text \<open>
  (C7) \<^verbatim>\<open>--list\<close> agrees with \<^verbatim>\<open>validate\<close>: when it ends normally, every core and board
  appears, as a combination that \<^verbatim>\<open>validate --allow-planned\<close> accepts, or as an unavailable
  one with the reason for which \<^verbatim>\<open>validate\<close> rejects it.
\<close>

theorem list_targets_agrees:
  assumes "snd (list_targets r) = Inr ()"
    and "core \<in> set (descriptor_names r (CORE_DIR r))" "board \<in> set (descriptor_names r (BOARD_DIR r))"
  shows "(snd (validate r core board quiet as_make True ''fpga'') = Inr () \<and>
      (\<exists>l\<in>set (fst (list_targets r)). prefix (''  '' @ core @ ''/'' @ board @ '': sim_target='') l)) \<or>
    (\<exists>reason. snd (validate r core board quiet as_make True ''fpga'') =
        Inl (Exit (core_label core @ '' and '' @ board_label board @ '' are not compatible ('' @ reason @ '')'')) \<and>
      ''  '' @ core @ ''/'' @ board @ '': '' @ reason \<in> set (fst (list_targets r)))"
proof -
  let ?ps = "List.product (descriptor_names r (CORE_DIR r)) (descriptor_names r (BOARD_DIR r))"
  let ?L = "list_combos r ?ps False []"
  from assms(1) have ok: "snd ?L = Inr ()" by (simp add: list_targets_def Let_def res_simps)
  have out: "set (fst ?L) \<subseteq> set (fst (list_targets r))"
    by (auto simp: list_targets_def Let_def run_seq_out listed_def)
  have "(core, board) \<in> set ?ps" using assms(2,3) by simp
  with list_combos_listed [OF ok] have "accounted r (fst ?L) (core, board)" by blast
  then obtain ct bt where ld: "load_descriptors r core board = Inr (ct, bt)"
    and c: "case is_compatible core board ct bt ''fpga'' True of
        (True, _) \<Rightarrow> \<exists>cfg l. target_config r core board ct bt = Inr cfg \<and> combo_line core board ct cfg = Inr l \<and>
          l \<in> set (fst ?L)
      | (False, reason) \<Rightarrow> unavailable_line (core, board, reason) \<in> set (fst ?L)"
    by (auto simp: accounted_def)
  show ?thesis
  proof (cases "is_compatible core board ct bt ''fpga'' True")
    case (Pair b reason)
    show ?thesis
    proof (cases b)
      case True
      with c Pair obtain cfg l where cfg: "target_config r core board ct bt = Inr cfg"
        "combo_line core board ct cfg = Inr l" "l \<in> set (fst ?L)" by auto
      from cfg(2) have "prefix (''  '' @ core @ ''/'' @ board @ '': sim_target='') l"
        by (auto simp: combo_line_def config_fields_def combo_fields_def res_simps)
      with cfg out Pair True show ?thesis by (auto simp: validate_end ld)
    next
      case False
      with c Pair out have "unavailable_line (core, board, reason) \<in> set (fst (list_targets r))" by auto
      with Pair False show ?thesis by (auto simp: validate_end ld unavailable_line_def)
    qed
  qed
qed

lemma banner_line_checked:
  assumes "banner_line_check firmware line = Inr ()"
    and "format_kw [(''core'', c), (''board'', b), (''target'', t)] line = Inl e"
  shows "checked_error line e"
proof -
  from assms(1) obtain fs where fs: "format_fields line = Inr fs" "set fs \<subseteq> {''core'', ''board'', ''target''}"
    by (auto simp: banner_line_check_def res_simps Let_def unsupported_Nil UART_BANNER_FIELDS_def)
  then show ?thesis using arg_names by (intro format_checked [OF fs(1) _ _ assms(2)]) auto
qed

lemma uart_firmware_checked:
  assumes "check_uart_banner_descriptor r = Inr ()" "firmware \<in> set UART_FIRMWARES"
  obtains content where "lookup_file r (UART_BANNER_FILE r) = Some content" "firmware_check content firmware = Inr ()"
  using assms by (auto simp: check_uart_banner_descriptor_def res_simps read_text_ok)


text \<open>
  \<^verbatim>\<open>parse_positive_int\<close> and \<^verbatim>\<open>parse_nonnegative_int\<close> invert decimal printing on
  exactly the values they admit, and report every other text as an error, never as an exception.
\<close>

theorem parse_int_str:
  "parse_positive_int (py_str n) field =
     (if 0 < n then Inr n else Inl (Exit (field @ '' must be positive, got '' @ quoted (py_str n)))) \<and>
   parse_nonnegative_int (py_str n) field =
     (if 0 \<le> n then Inr n else Inl (Exit (field @ '' must be non-negative, got '' @ quoted (py_str n)))) \<and>
   parse_positive_int value field \<noteq> Inl (Raise x) \<and> parse_nonnegative_int value field \<noteq> Inl (Raise x)"
  by (auto simp: parse_positive_int_def parse_nonnegative_int_def py_int0_str res_simps fail_if_def split: option.splits)

end
