(* ===== verification/Checks.thy ===== *)
theory Checks
  imports Targets "HOL-Library.AList"
begin

text \<open>
  Descriptor checks, the second half of \<^verbatim>\<open>src/bin/validate_target.py\<close>: \<^verbatim>\<open>core_check\<close>,
  \<^verbatim>\<open>board_check\<close>, \<^verbatim>\<open>target_check\<close> with the files they consult, and \<^verbatim>\<open>main\<close>.
  The two long checks are cut at their paragraphs; each part takes the values it needs and the
  parts run in source order, so that the first problem is the one reported.
\<close>

unbundle bit_operations_syntax

section \<open>Files the checks consult\<close>

definition make_target_rx :: "string \<Rightarrow> rx" where
  "make_target_rx target = rseq [RBol True, rlit target, star is_space, RChr ((=) CHR '':'')]"

definition make_target_exists :: "repo \<Rightarrow> string \<Rightarrow> bool" where
  "make_target_exists r target =
     (let make_files = (root r @ [''Makefile'']) #
            map (\<lambda>n. root r @ [''mk'', n]) (sort (glob_ext r (root r @ [''mk'']) ''.mk''))
      in list_ex (\<lambda>p. case lookup_file r p of
           None \<Rightarrow> False | Some t \<Rightarrow> re_search (make_target_rx target) t \<noteq> None) make_files)"

definition fusesoc_target_rx :: "string \<Rightarrow> rx" where
  "fusesoc_target_rx target = rseq [RBol True, RChr is_space, RChr is_space, rlit target,
     RChr ((=) CHR '':''), star is_space, REol True]"

definition fusesoc_target_exists :: "repo \<Rightarrow> string \<Rightarrow> bool" where
  "fusesoc_target_exists r target =
     (case lookup_file r (root r @ [''corejack.core'']) of
        None \<Rightarrow> False | Some t \<Rightarrow> re_search (fusesoc_target_rx target) t \<noteq> None)"

definition check_repo_file :: "repo \<Rightarrow> string \<Rightarrow> string \<Rightarrow> fpath res" where
  "check_repo_file r path_text field =
     (let path = path_join (root r) path_text
      in fail_if (\<not> is_file r path) (field @ '' points to a missing file: '' @ path_text) (Inr path))"

definition PLATFORM_PKG :: "repo \<Rightarrow> fpath" where
  "PLATFORM_PKG r = root r @ [''rtl'', ''pkg'', ''platform_pkg.sv'']"

definition core_type_e_rx :: rx where
  "core_type_e_rx = rseq [rlit ''typedef'', plus1 is_space, rlit ''enum'', plus1 is_space, rlit ''int'',
     plus1 is_space, rlit ''unsigned'', star is_space, RChr ((=) CHR ''{''),
     RGrp ''body'' (lazy (\<lambda>_. True)), RChr ((=) CHR ''}''), star is_space, rlit ''core_type_e'',
     star is_space, RChr ((=) CHR '';'')]"

definition enum_member_rx :: rx where
  "enum_member_rx = rseq [RWordb, RGrp ''1'' (RSeq (rlit ''Core'') (plus1 is_alnum)), star is_space,
     RChr ((=) CHR ''=''), star is_space, RGrp ''2'' (plus1 is_digit)]"

definition int_of_digits :: "string \<Rightarrow> int" where
  "int_of_digits s = int (digits_val 10 s)"

definition enum_values :: "string \<Rightarrow> (string \<times> int) list" where
  "enum_values body =
     foldl (\<lambda>values m. AList.update (group ''1'' (snd m)) (int_of_digits (group ''2'' (snd m))) values) []
       (re_finditer enum_member_rx body)"

definition platform_core_type_values :: "repo \<Rightarrow> (string \<times> int) list res" where
  "platform_core_type_values r =
     fail_if (\<not> is_file r (PLATFORM_PKG r)) ''missing platform package: rtl/pkg/platform_pkg.sv'' (
     bindr (read_text r (PLATFORM_PKG r)) (\<lambda>text.
     case re_search core_type_e_rx text of
       None \<Rightarrow> Inl (Exit ''could not find platform_pkg::core_type_e'')
     | Some g \<Rightarrow> Inr (enum_values (group ''body'' g))))"

definition MEM_SS_PKG :: "repo \<Rightarrow> fpath" where
  "MEM_SS_PKG r = root r @ [''rtl'', ''pkg'', ''mem_ss_pkg.sv'']"

definition mem_banks_rx :: rx where
  "mem_banks_rx = rseq [RBol True, star is_space, rlit ''localparam'', plus1 is_space, rlit ''int'',
     plus1 is_space, rlit ''unsigned'', plus1 is_space, rlit ''MemNumBanksDefault'', star is_space,
     RChr ((=) CHR ''=''), star is_space, RGrp ''1'' (plus1 (\<lambda>c. is_digit c \<or> c = CHR ''_'')),
     star is_space, RChr ((=) CHR '';'')]"

definition mem_num_banks :: "repo \<Rightarrow> int res" where
  "mem_num_banks r =
     fail_if (\<not> is_file r (MEM_SS_PKG r)) ''missing memory subsystem package: rtl/pkg/mem_ss_pkg.sv'' (
     bindr (read_text r (MEM_SS_PKG r)) (\<lambda>text.
     case re_search mem_banks_rx text of
       None \<Rightarrow> Inl (Exit ''could not find mem_ss_pkg::MemNumBanksDefault'')
     | Some g \<Rightarrow>
         (case py_int10 (replace_all ''_'' [] (group ''1'' g)) of
            None \<Rightarrow> Inl (Raise (ValueError ''invalid literal for int() with base 10''))
          | Some banks \<Rightarrow>
              fail_if (banks < 2 \<or> banks AND (banks - 1) \<noteq> 0)
                (''mem_ss_pkg::MemNumBanksDefault must be a power of two >= 2, got '' @ py_str banks)
                (Inr banks))))"

text \<open>
  \<^verbatim>\<open>re.split(r"[^A-Za-z0-9]+", core.lower())\<close> without its empty segments. On the code points
  below 256, \<^verbatim>\<open>lower\<close> moves the letters of ASCII and of Latin-1; a segment is ASCII, so that
  \<^verbatim>\<open>capitalize\<close> changes its first letter only.
\<close>

definition segments_of :: "(char \<Rightarrow> bool) \<Rightarrow> string \<Rightarrow> string list" where
  "segments_of P s = filter (\<lambda>seg. seg \<noteq> []) (split_by (\<lambda>c. \<not> P c) s)"

definition expected_core_enum_name :: "string \<Rightarrow> string" where
  "expected_core_enum_name core =
     ''Core'' @ concat (map capitalize (segments_of is_alnum (py_lower core)))"

text \<open>The usage of each core type, in the order in which the types are first met.\<close>

fun usage_scan :: "repo \<Rightarrow> string list \<Rightarrow> (int \<times> string list) list \<Rightarrow> (int \<times> string list) list res" where
  "usage_scan r [] usage = Inr usage"
| "usage_scan r (core # cores) usage =
     bindr (read_text r (descriptor_path (CORE_DIR r) core)) (\<lambda>core_text.
     case yaml_path_scalar core_text [''platform'', ''core_type''] of
       None \<Rightarrow> usage_scan r cores usage
     | Some v \<Rightarrow>
         bindr (parse_nonnegative_int v (core @ ''.platform.core_type'')) (\<lambda>core_type.
         usage_scan r cores (AList.map_default core_type [core] (\<lambda>us. us @ [core]) usage)))"

definition core_type_usage :: "repo \<Rightarrow> (int \<times> string list) list res" where
  "core_type_usage r = usage_scan r (descriptor_names r (CORE_DIR r)) []"

definition require_status :: "string \<Rightarrow> string \<Rightarrow> unit res" where
  "require_status value field =
     fail_if (value \<notin> {''supported'', ''planned'', ''unsupported''})
       (field @ '' must be supported, planned, or unsupported; got '' @ quoted value) (Inr ())"

section \<open>core_check\<close>

definition FLOWS :: "string list" where
  "FLOWS = [''sim'', ''fpga'', ''debug'']"

definition module_rx :: "string \<Rightarrow> rx" where
  "module_rx name = rseq [RBol True, star is_space, rlit ''module'', plus1 is_space, rlit name, RWordb]"

record core_info =
  ci_display_name :: string
  ci_statuses :: "(string \<times> string) list"
  ci_adapter_module :: string
  ci_adapter_file :: string
  ci_core_type :: int
  ci_integration :: string
  ci_enum_name :: string
  ci_wrapper_module :: string
  ci_sim_target :: string
  ci_core_flag :: string
  ci_xlen :: int
  ci_march :: string
  ci_mabi :: string
  ci_boot_addr :: int
  ci_mtvec_addr :: int
  ci_instruction_bus :: string
  ci_data_bus :: string
  ci_min_hz :: int
  ci_max_hz :: int
  ci_default_target :: string
  ci_toolchain :: string
  ci_zephyr :: string
  ci_boards :: "string list"

definition core_identity :: "string \<Rightarrow> string \<Rightarrow> (string \<times> (string \<times> string) list) res" where
  "core_identity core core_text =
     bindr (require_scalar core_text [''name''] (core_label core)) (\<lambda>name.
     bindr (require_scalar core_text [''display_name''] (core_label core)) (\<lambda>display_name.
     fail_if (name \<noteq> core)
       (''CORE descriptor name '' @ quoted name @ '' does not match filename '' @ quoted core) (
     bindr (mapr (\<lambda>flow. bindr (require_scalar core_text [''integration'', flow] (core_label core))
               (\<lambda>status. Inr (flow, status))) FLOWS) (\<lambda>statuses.
     bindr (eachr (\<lambda>(flow, status). require_status status (''integration.'' @ flow)) statuses) (\<lambda>_.
     Inr (display_name, statuses))))))"

definition core_adapter :: "repo \<Rightarrow> string \<Rightarrow> string \<Rightarrow> (string \<times> string) res" where
  "core_adapter r core core_text =
     bindr (require_scalar core_text [''adapter'', ''module''] (core_label core)) (\<lambda>adapter_module.
     bindr (require_scalar core_text [''adapter'', ''file''] (core_label core)) (\<lambda>adapter_file.
     bindr (check_repo_file r adapter_file ''adapter.file'') (\<lambda>adapter_path.
     bindr (read_text r adapter_path) (\<lambda>adapter_text.
     fail_if (re_search (module_rx adapter_module) adapter_text = None)
       (''adapter.file does not define module '' @ adapter_module @ '': '' @ adapter_file)
       (Inr (adapter_module, adapter_file))))))"

definition core_type_check :: "repo \<Rightarrow> string \<Rightarrow> string \<Rightarrow> (int \<times> string \<times> string) res" where
  "core_type_check r core core_text =
     bindr (bindr (require_scalar core_text [''platform'', ''core_type''] (core_label core))
              (\<lambda>v. parse_nonnegative_int v ''platform.core_type'')) (\<lambda>core_type.
     bindr (require_scalar core_text [''platform'', ''integration''] (core_label core)) (\<lambda>integration.
     bindr (platform_core_type_values r) (\<lambda>values.
     let enum_name = expected_core_enum_name core
     in case map_of values enum_name of
          None \<Rightarrow> Inl (Exit (''platform_pkg::core_type_e is missing '' @ enum_name))
        | Some v \<Rightarrow>
            fail_if (v \<noteq> core_type)
              (''platform.core_type='' @ py_str core_type @ '' does not match platform_pkg::'' @
                 enum_name @ ''='' @ py_str v) (
            bindr (core_type_usage r) (\<lambda>usage.
            let users = (case map_of usage core_type of None \<Rightarrow> [] | Some us \<Rightarrow> us);
                duplicates = filter (\<lambda>name. name \<noteq> core) users
            in fail_if (duplicates \<noteq> [])
                 (''platform.core_type='' @ py_str core_type @ '' is also used by: '' @ comma_list duplicates)
                 (Inr (core_type, integration, enum_name)))))))"

definition require_int ::
    "(string \<Rightarrow> string \<Rightarrow> int res) \<Rightarrow> string \<Rightarrow> string list \<Rightarrow> string \<Rightarrow> int res" where
  "require_int parse text path descriptor =
     bindr (require_scalar text path descriptor) (\<lambda>v. parse v (join ''.'' path))"

text \<open>The fields read after the core type, in source order; \<open>ident\<close>, \<open>adapter\<close> and \<open>ctype\<close> come from above.\<close>

definition core_fields ::
    "string \<Rightarrow> string \<Rightarrow> string \<times> (string \<times> string) list \<Rightarrow> string \<times> string \<Rightarrow> int \<times> string \<times> string
      \<Rightarrow> core_info res" where
  "core_fields core core_text ident adapter ctype =
     (let get = (\<lambda>path. require_scalar core_text path (core_label core));
          nonneg = (\<lambda>path. require_int parse_nonnegative_int core_text path (core_label core))
      in bindr (get [''wrapper'', ''module'']) (\<lambda>wrapper_module.
         bindr (get [''fusesoc'', ''sim_target'']) (\<lambda>sim_target.
         bindr (get [''fusesoc'', ''core_flag'']) (\<lambda>core_flag.
         bindr (require_int parse_positive_int core_text [''isa'', ''xlen''] (core_label core)) (\<lambda>xlen.
         bindr (get [''isa'', ''march'']) (\<lambda>march.
         bindr (get [''isa'', ''mabi'']) (\<lambda>mabi.
         bindr (nonneg [''reset'', ''boot_addr'']) (\<lambda>boot_addr.
         bindr (nonneg [''reset'', ''mtvec_addr'']) (\<lambda>mtvec_addr.
         bindr (get [''buses'', ''instruction'']) (\<lambda>instruction_bus.
         bindr (get [''buses'', ''data'']) (\<lambda>data_bus.
         bindr (nonneg [''clocking'', ''validated_min_hz'']) (\<lambda>validated_min_hz.
         bindr (nonneg [''clocking'', ''validated_max_hz'']) (\<lambda>validated_max_hz.
         bindr (get [''software'', ''default_target'']) (\<lambda>default_target.
         bindr (get [''software'', ''toolchain'']) (\<lambda>toolchain.
         bindr (get [''software'', ''zephyr'', ''status'']) (\<lambda>zephyr.
         Inr \<lparr>ci_display_name = fst ident, ci_statuses = snd ident, ci_adapter_module = fst adapter,
              ci_adapter_file = snd adapter, ci_core_type = fst ctype, ci_integration = fst (snd ctype),
              ci_enum_name = snd (snd ctype), ci_wrapper_module = wrapper_module, ci_sim_target = sim_target,
              ci_core_flag = core_flag, ci_xlen = xlen, ci_march = march, ci_mabi = mabi,
              ci_boot_addr = boot_addr, ci_mtvec_addr = mtvec_addr, ci_instruction_bus = instruction_bus,
              ci_data_bus = data_bus, ci_min_hz = validated_min_hz, ci_max_hz = validated_max_hz,
              ci_default_target = default_target, ci_toolchain = toolchain, ci_zephyr = zephyr,
              ci_boards = yaml_top_list core_text ''compatible_boards''\<rparr>))))))))))))))))"

definition BUSES :: "string list" where
  "BUSES = [''obi'', ''axi'', ''ahb_lite'', ''serv_wishbone_minimal'', ''picorv32_native'']"

definition sim_target_rx :: rx where
  "sim_target_rx = plus1 (\<lambda>c. is_key c \<or> c \<in> {CHR ''.'', CHR '':'', CHR ''-''})"

definition core_rules :: "core_info \<Rightarrow> unit res" where
  "core_rules ci =
     fail_if (ci_xlen ci \<notin> {32, 64}) (''isa.xlen must be 32 or 64, got '' @ py_str (ci_xlen ci)) (
     let expected_march_prefix = ''rv'' @ py_str (ci_xlen ci) in
     fail_if (\<not> prefix expected_march_prefix (ci_march ci))
       (''isa.march must start with '' @ expected_march_prefix @ '', got '' @ quoted (ci_march ci)) (
     fail_if (ci_xlen ci = 32 \<and> \<not> prefix ''ilp32'' (ci_mabi ci))
       (''RV32 core must use an ilp32 ABI, got '' @ quoted (ci_mabi ci)) (
     fail_if (ci_xlen ci = 64 \<and> \<not> prefix ''lp64'' (ci_mabi ci))
       (''RV64 core must use an lp64 ABI, got '' @ quoted (ci_mabi ci)) (
     fail_if (ci_boot_addr ci mod 4 \<noteq> 0)
       (''reset.boot_addr must be word-aligned, got 0x'' @ py_hex (ci_boot_addr ci)) (
     fail_if (ci_mtvec_addr ci mod 4 \<noteq> 0)
       (''reset.mtvec_addr must be word-aligned, got 0x'' @ py_hex (ci_mtvec_addr ci)) (
     fail_if (ci_instruction_bus ci \<notin> set BUSES)
       (''unsupported instruction bus contract: '' @ ci_instruction_bus ci) (
     fail_if (ci_data_bus ci \<notin> set BUSES) (''unsupported data bus contract: '' @ ci_data_bus ci) (
     fail_if (ci_max_hz ci \<noteq> 0 \<and> ci_max_hz ci < ci_min_hz ci)
       ''clocking.validated_min_hz must be <= validated_max_hz'' (
     fail_if (ci_default_target ci \<notin> {''sim'', ''fpga''})
       (''software.default_target must be sim or fpga, got '' @ quoted (ci_default_target ci)) (
     fail_if (\<not> re_fullmatch sim_target_rx (ci_sim_target ci))
       (''fusesoc.sim_target contains unsupported characters: '' @ ci_sim_target ci) (
     fail_if (\<not> re_fullmatch flag_rx (ci_core_flag ci))
       (''fusesoc.core_flag contains unsupported characters: '' @ ci_core_flag ci) (
     fail_if (ci_integration ci \<notin> set PLATFORM_INTEGRATIONS) (integration_message (ci_integration ci)) (
     fail_if (ci_integration ci = ''native_axi'' \<and>
         (ci_instruction_bus ci \<noteq> ''axi'' \<or> ci_data_bus ci \<noteq> ''axi''))
       ''platform.integration native_axi requires axi instruction and data buses'' (
     fail_if (ci_toolchain ci \<noteq> ''riscv-multilib'')
       (''unsupported software.toolchain: '' @ ci_toolchain ci) (
     fail_if (ci_zephyr ci \<notin> set ZEPHYR_STATUSES)
       (''unsupported software.zephyr.status: '' @ ci_zephyr ci) (
     fail_if (ci_boards ci = []) ''compatible_boards must list at least one board'' (Inr ())))))))))))))))))"

definition core_debug_check :: "string \<Rightarrow> string \<Rightarrow> string \<Rightarrow> unit res" where
  "core_debug_check core core_text debug_status =
     bindr (require_scalar core_text [''debug'', ''supported''] (core_label core)) (\<lambda>debug_supported.
     fail_if (debug_supported \<notin> {''true'', ''false''})
       (''debug.supported must be true or false, got '' @ quoted debug_supported) (
     fail_if (debug_status = ''supported'' \<and> debug_supported \<noteq> ''true'')
       ''integration.debug is supported but debug.supported is not true'' (
     fail_if (debug_status = ''unsupported'' \<and> debug_supported \<noteq> ''false'')
       ''integration.debug is unsupported but debug.supported is not false'' (
     if debug_status = ''supported''
     then bindr (require_int parse_positive_int core_text [''debug'', ''hart_count''] (core_label core)) (\<lambda>_.
          eachr (\<lambda>key. bindr (require_int parse_nonnegative_int core_text [''debug'', key] (core_label core))
                   (\<lambda>_. Inr ())) [''hartsel'', ''halt_addr'', ''exception_addr''])
     else Inr ()))))"

definition core_boards_check :: "repo \<Rightarrow> string \<Rightarrow> string list \<Rightarrow> unit res" where
  "core_boards_check r core boards =
     (let known_boards = descriptor_names r (BOARD_DIR r);
          missing_boards = filter (\<lambda>b. b \<notin> set known_boards) boards
      in fail_if (missing_boards \<noteq> [])
           (''compatible_boards references unknown board(s): '' @ comma_list missing_boards) (
         eachr (\<lambda>board.
           bindr (read_text r (descriptor_path (BOARD_DIR r) board)) (\<lambda>board_text.
           let compatible_cores = yaml_top_list board_text ''compatible_cores''
           in fail_if (compatible_cores \<noteq> [] \<and> core \<notin> set compatible_cores)
                (board_label board @ '' does not list '' @ core_label core @ '' in compatible_cores'') (Inr ())))
         boards))"

definition status_of :: "(string \<times> string) list \<Rightarrow> string \<Rightarrow> string" where
  "status_of statuses flow = (case map_of statuses flow of None \<Rightarrow> [] | Some s \<Rightarrow> s)"

definition core_checked :: "repo \<Rightarrow> string \<Rightarrow> (string \<times> core_info) res" where
  "core_checked r core =
     (let core_path = descriptor_path (CORE_DIR r) core
      in fail_if (\<not> is_file r core_path) (unknown_core r core) (
         bindr (read_text r core_path) (\<lambda>core_text.
         bindr (core_identity core core_text) (\<lambda>ident.
         bindr (core_adapter r core core_text) (\<lambda>adapter.
         bindr (core_type_check r core core_text) (\<lambda>ctype.
         bindr (core_fields core core_text ident adapter ctype) (\<lambda>ci.
         bindr (core_rules ci) (\<lambda>_.
         bindr (core_debug_check core core_text (status_of (ci_statuses ci) ''debug'')) (\<lambda>_.
         bindr (core_boards_check r core (ci_boards ci)) (\<lambda>_.
         Inr (core_text, ci)))))))))))"

definition core_report :: "string \<Rightarrow> string \<Rightarrow> core_info \<Rightarrow> run" where
  "core_report core core_text ci =
     run_seq (emit [''CORE='' @ core, ''DISPLAY_NAME='' @ ci_display_name ci, ''ADAPTER='' @ ci_adapter_module ci,
       ''ADAPTER_FILE='' @ ci_adapter_file ci, ''WRAPPER='' @ ci_wrapper_module ci,
       ''SIM_FUSESOC_TARGET='' @ ci_sim_target ci, ''FUSESOC_CORE_FLAG='' @ ci_core_flag ci]) (
     run_res (fusesoc_core_flags core_text) (\<lambda>flags.
     emit [''FUSESOC_CORE_FLAGS='' @ join '' '' flags, ''CORE_TYPE='' @ py_str (ci_core_type ci),
       ''CORE_INTEGRATION='' @ ci_integration ci, ''CORE_TYPE_ENUM='' @ ci_enum_name ci,
       ''XLEN='' @ py_str (ci_xlen ci), ''MARCH='' @ ci_march ci, ''MABI='' @ ci_mabi ci,
       ''BUSES='' @ ci_instruction_bus ci @ '','' @ ci_data_bus ci, ''TOOLCHAIN='' @ ci_toolchain ci,
       ''ZEPHYR_STATUS='' @ ci_zephyr ci, ''COMPATIBLE_BOARDS='' @ join '' '' (ci_boards ci),
       ''INTEGRATION='' @ join '' '' (map (\<lambda>flow. flow @ '':'' @ status_of (ci_statuses ci) flow) FLOWS),
       ''CORE_CHECK=passed'']))"

definition core_check :: "repo \<Rightarrow> string \<Rightarrow> bool \<Rightarrow> run" where
  "core_check r core verbose =
     run_res (core_checked r core) (\<lambda>(core_text, ci).
       if verbose then core_report core core_text ci else emit [])"

section \<open>board_check\<close>

record board_info =
  bi_display_name :: string
  bi_part :: string
  bi_top_template :: string
  bi_target_template :: string
  bi_board_flag :: string
  bi_work_root :: string
  bi_input_hz :: int
  bi_soc_hz :: int
  bi_clk_p :: string
  bi_clk_n :: string
  bi_reset_polarity :: string
  bi_reset_port :: string
  bi_uart_baud :: int
  bi_uart_tx :: string
  bi_uart_rx :: string
  bi_debug_transport :: string
  bi_jtag_adapter :: string
  bi_xdc :: string
  bi_programming_flow :: string
  bi_bitstream_target :: string
  bi_program_target :: string
  bi_smoke_app :: string
  bi_cores :: "string list"

definition ram_bytes_check :: "repo \<Rightarrow> string \<Rightarrow> unit res" where
  "ram_bytes_check r board_text =
     (case yaml_path_scalar board_text [''memory'', ''ram_bytes''] of
        None \<Rightarrow> Inr ()
      | Some raw \<Rightarrow>
          bindr (parse_positive_int raw ''memory.ram_bytes'') (\<lambda>ram_bytes.
          bindr (mem_num_banks r) (\<lambda>banks.
          let ram_granule = 8 * banks
          in if ram_bytes mod ram_granule \<noteq> 0
             then bindr (mem_num_banks r) (\<lambda>banks'.
                    Inl (Exit (''memory.ram_bytes must be a multiple of '' @ py_str ram_granule @
                      '' (64-bit SRAM word x '' @ py_str banks' @ '' banks)'')))
             else Inr ())))"

definition board_fields :: "repo \<Rightarrow> string \<Rightarrow> string \<Rightarrow> board_info res" where
  "board_fields r board board_text =
     (let get = (\<lambda>path. require_scalar board_text path (board_label board));
          pos = (\<lambda>path. require_int parse_positive_int board_text path (board_label board))
      in bindr (get [''display_name'']) (\<lambda>display_name.
         bindr (get [''fpga'', ''part'']) (\<lambda>part.
         bindr (get [''fpga'', ''top_template'']) (\<lambda>top_template.
         bindr (get [''fpga'', ''target'']) (\<lambda>fpga_target_template.
         bindr (fusesoc_board_flag board_text) (\<lambda>board_flag.
         bindr (get [''fpga'', ''work_root'']) (\<lambda>work_root.
         bindr (pos [''clock'', ''input_hz'']) (\<lambda>input_hz.
         bindr (pos [''clock'', ''soc_hz'']) (\<lambda>soc_hz.
         bindr (get [''clock'', ''constraints_ports'', ''p'']) (\<lambda>clk_p.
         let clk_n = opt_or (yaml_path_scalar board_text [''clock'', ''constraints_ports'', ''n'']) [] in
         bindr (get [''reset'', ''polarity'']) (\<lambda>reset_polarity.
         bindr (get [''reset'', ''constraints_port'']) (\<lambda>reset_port.
         bindr (ram_bytes_check r board_text) (\<lambda>_.
         bindr (pos [''uart'', ''baud'']) (\<lambda>uart_baud.
         bindr (get [''uart'', ''tx_port'']) (\<lambda>uart_tx.
         bindr (get [''uart'', ''rx_port'']) (\<lambda>uart_rx.
         bindr (get [''debug'', ''transport'']) (\<lambda>debug_transport.
         bindr (get [''debug'', ''jtag_adapter'']) (\<lambda>jtag_adapter.
         bindr (get [''constraints'', ''xdc'']) (\<lambda>xdc.
         bindr (get [''programming'', ''flow'']) (\<lambda>programming_flow.
         bindr (get [''programming'', ''bitstream_target'']) (\<lambda>bitstream_target.
         bindr (get [''programming'', ''program_target'']) (\<lambda>program_target.
         bindr (get [''validation'', ''smoke_app'']) (\<lambda>smoke_app.
         Inr \<lparr>bi_display_name = display_name, bi_part = part, bi_top_template = top_template,
              bi_target_template = fpga_target_template, bi_board_flag = board_flag, bi_work_root = work_root,
              bi_input_hz = input_hz, bi_soc_hz = soc_hz, bi_clk_p = clk_p, bi_clk_n = clk_n,
              bi_reset_polarity = reset_polarity, bi_reset_port = reset_port, bi_uart_baud = uart_baud,
              bi_uart_tx = uart_tx, bi_uart_rx = uart_rx, bi_debug_transport = debug_transport,
              bi_jtag_adapter = jtag_adapter, bi_xdc = xdc, bi_programming_flow = programming_flow,
              bi_bitstream_target = bitstream_target, bi_program_target = program_target,
              bi_smoke_app = smoke_app,
              bi_cores = yaml_top_list board_text ''compatible_cores''\<rparr>)))))))))))))))))))))))"

text \<open>The wrapper module and its file.\<close>

definition board_top_check :: "repo \<Rightarrow> string \<Rightarrow> board_info \<Rightarrow> (string \<times> fpath) res" where
  "board_top_check r board bi =
     bindr (template_check ''fpga.top_template'' (bi_top_template bi)) (\<lambda>_.
     bindr (format_kw (target_args (if bi_cores bi \<noteq> [] then hd (bi_cores bi) else ''core'') board)
              (bi_top_template bi)) (\<lambda>top_module.
     let wrapper_path = path_join (path_join (root r @ [''rtl'', ''platform'', ''fpga'', ''boards'']) board)
                          (top_module @ ''.sv'')
     in if \<not> is_file r wrapper_path
        then bindr (relative_to_root r wrapper_path) (\<lambda>rel.
               Inl (Exit (''expected FPGA wrapper file is missing: '' @ rel)))
        else bindr (read_text r wrapper_path) (\<lambda>wrapper_text.
             if re_search (module_rx top_module) wrapper_text = None
             then bindr (relative_to_root r wrapper_path) (\<lambda>rel.
                    Inl (Exit (''FPGA wrapper file does not define module '' @ top_module @ '': '' @ rel)))
             else Inr (top_module, wrapper_path))))"

definition openocd_cfg :: "board_info \<Rightarrow> string" where
  "openocd_cfg bi = ''rtl/platform/fpga/scripts/openocd-'' @ bi_jtag_adapter bi @ ''.cfg''"

definition board_refs_check :: "repo \<Rightarrow> string \<Rightarrow> board_info \<Rightarrow> unit res" where
  "board_refs_check r board bi =
     bindr (check_repo_file r (bi_xdc bi) ''constraints.xdc'') (\<lambda>_.
     bindr (check_repo_file r (openocd_cfg bi) ''debug.jtag_adapter (derived OpenOCD config)'') (\<lambda>_.
     bindr (template_check ''fpga.target'' (bi_target_template bi)) (\<lambda>_.
     bindr (eachr (\<lambda>core.
              bindr (format_kw (target_args core board) (bi_target_template bi)) (\<lambda>fpga_target.
              fail_if (\<not> fusesoc_target_exists r fpga_target)
                (''fpga.target is not defined in corejack.core: '' @ fpga_target) (Inr ()))) (bi_cores bi)) (\<lambda>_.
     fail_if (\<not> make_target_exists r (bi_bitstream_target bi))
       (''programming.bitstream_target is not a Make target: '' @ bi_bitstream_target bi) (
     fail_if (\<not> make_target_exists r (bi_program_target bi))
       (''programming.program_target is not a Make target: '' @ bi_program_target bi) (Inr ()))))))"

definition board_rules :: "board_info \<Rightarrow> unit res" where
  "board_rules bi =
     fail_if (bi_reset_polarity bi \<notin> {''active_low'', ''active_high''})
       (''reset.polarity must be active_low or active_high, got '' @ quoted (bi_reset_polarity bi)) (
     fail_if (bi_debug_transport bi \<noteq> ''jtag'')
       (''debug.transport currently must be jtag, got '' @ quoted (bi_debug_transport bi)) (
     fail_if (bi_programming_flow bi \<noteq> ''vivado'')
       (''programming.flow currently must be vivado, got '' @ quoted (bi_programming_flow bi)) (
     fail_if (\<not> contains ''{board}'' (bi_work_root bi))
       ''fpga.work_root should include {board} to keep board builds isolated'' (
     fail_if (\<not> contains ''{core}'' (bi_work_root bi))
       ''fpga.work_root should include {core} to keep core builds isolated'' (
     fail_if (bi_cores bi = []) ''compatible_cores must list at least one core'' (Inr ()))))))"

definition board_cores_check :: "repo \<Rightarrow> string \<Rightarrow> string list \<Rightarrow> unit res" where
  "board_cores_check r board cores =
     (let known_cores = descriptor_names r (CORE_DIR r);
          missing_cores = filter (\<lambda>c. c \<notin> set known_cores) cores
      in fail_if (missing_cores \<noteq> [])
           (''compatible_cores references unknown core(s): '' @ comma_list missing_cores) (
         eachr (\<lambda>core.
           bindr (read_text r (descriptor_path (CORE_DIR r) core)) (\<lambda>core_text.
           let compatible_boards = yaml_top_list core_text ''compatible_boards''
           in fail_if (compatible_boards \<noteq> [] \<and> board \<notin> set compatible_boards)
                (core_label core @ '' does not list '' @ board_label board @ '' in compatible_boards'') (Inr ())))
         cores))"

definition board_checked :: "repo \<Rightarrow> string \<Rightarrow> (board_info \<times> string \<times> fpath) res" where
  "board_checked r board =
     (let board_path = descriptor_path (BOARD_DIR r) board
      in fail_if (\<not> is_file r board_path) (unknown_board r board) (
         bindr (read_text r board_path) (\<lambda>board_text.
         bindr (board_fields r board board_text) (\<lambda>bi.
         bindr (board_top_check r board bi) (\<lambda>top.
         bindr (board_refs_check r board bi) (\<lambda>_.
         bindr (board_rules bi) (\<lambda>_.
         bindr (check_uart_banner_descriptor r) (\<lambda>_.
         bindr (board_cores_check r board (bi_cores bi)) (\<lambda>_.
         Inr (bi, top))))))))))"

definition board_report :: "repo \<Rightarrow> string \<Rightarrow> board_info \<Rightarrow> string \<Rightarrow> fpath \<Rightarrow> run" where
  "board_report r board bi top_module wrapper_path =
     run_seq (emit [''BOARD='' @ board, ''DISPLAY_NAME='' @ bi_display_name bi, ''FPGA_PART='' @ bi_part bi,
       ''FPGA_TARGET_TEMPLATE='' @ bi_target_template bi, ''FUSESOC_BOARD_FLAG='' @ bi_board_flag bi,
       ''FPGA_TOP='' @ top_module]) (
     run_res (relative_to_root r wrapper_path) (\<lambda>wrapper.
     emit [''FPGA_WRAPPER='' @ wrapper, ''XDC='' @ bi_xdc bi,
       ''JTAG_ADAPTER='' @ bi_jtag_adapter bi, ''OPENOCD_CFG='' @ openocd_cfg bi,
       ''CLOCK_INPUT_HZ='' @ py_str (bi_input_hz bi), ''SOC_CLK_HZ='' @ py_str (bi_soc_hz bi),
       ''CLOCK_PORTS='' @ bi_clk_p bi @ (if bi_clk_n bi \<noteq> [] then '','' @ bi_clk_n bi else []),
       ''RESET='' @ bi_reset_port bi @ '','' @ bi_reset_polarity bi,
       ''UART='' @ bi_uart_tx bi @ '','' @ bi_uart_rx bi @ '','' @ py_str (bi_uart_baud bi),
       ''SMOKE_APP='' @ bi_smoke_app bi, ''COMPATIBLE_CORES='' @ join '' '' (bi_cores bi),
       ''BOARD_CHECK=passed'']))"

definition board_check :: "repo \<Rightarrow> string \<Rightarrow> bool \<Rightarrow> run" where
  "board_check r board verbose =
     run_res (board_checked r board) (\<lambda>(bi, top_module, wrapper_path).
       if verbose then board_report r board bi top_module wrapper_path else emit [])"

section \<open>target_check and main\<close>

text \<open>One flow of a target: the entry it adds to \<^verbatim>\<open>flow_results\<close>.\<close>

definition flow_check :: "string \<Rightarrow> string \<Rightarrow> string \<Rightarrow> string \<Rightarrow> string \<Rightarrow> string res" where
  "flow_check core board core_text board_text flow =
     (let status = integration_status core_text flow
      in if status = SUPPORTED_STATUS
         then (case is_compatible core board core_text board_text flow False of
                 (compatible, reason) \<Rightarrow>
                   fail_if (\<not> compatible)
                     (core @ ''/'' @ board @ '' failed '' @ flow @ '' compatibility: '' @ reason)
                     (Inr (flow @ '':supported'')))
         else Inr (flow @ '':'' @ status))"

definition target_fields :: "(string \<times> string) list" where
  "target_fields = [(''top'', ''FPGA_TOP''), (''core_type'', ''CORE_TYPE''), (''integration'', ''CORE_INTEGRATION''),
     (''toolchain'', ''TOOLCHAIN''), (''zephyr'', ''ZEPHYR_STATUS''), (''march'', ''MARCH''), (''mabi'', ''MABI'')]"

definition target_core_check :: "repo \<Rightarrow> string \<Rightarrow> string \<Rightarrow> run" where
  "target_core_check r board core =
     run_seq (core_check r core False) (
     run_res (load_descriptors r core board) (\<lambda>(core_text, board_text).
     run_res (target_config r core board core_text board_text) (\<lambda>config.
     run_res (mapr (flow_check core board core_text board_text) FLOWS) (\<lambda>flow_results.
     run_res (config_fields config target_fields) (\<lambda>fs.
     emit [''TARGET='' @ core @ ''/'' @ board @ '' '' @ join '' '' fs @ '' '' @ join '' '' flow_results])))))"

definition target_check :: "repo \<Rightarrow> string \<Rightarrow> run" where
  "target_check r board =
     (let board_path = descriptor_path (BOARD_DIR r) board
      in run_res (fail_if (\<not> is_file r board_path) (unknown_board r board) (read_text r board_path)) (\<lambda>board_text.
         let compatible_cores = yaml_top_list board_text ''compatible_cores'' in
         run_res (fail_if (compatible_cores = []) (board_label board @ '' has no compatible_cores entries'') (Inr ())) (\<lambda>_.
         run_seq (board_check r board False) (
         run_seq (emit [''BOARD='' @ board, ''COMPATIBLE_CORES='' @ join '' '' compatible_cores]) (
         run_seq (run_each (target_core_check r board) compatible_cores) (
         emit [''TARGET_CHECK=passed board='' @ board @ '' targets='' @ py_str (int (length compatible_cores))]))))))"

text \<open>The parsed command line. The parser itself restricts flow, firmware and variant.\<close>

record args =
  arg_core :: "string option"
  arg_board :: "string option"
  arg_quiet :: bool
  arg_make :: bool
  arg_flow :: string
  arg_allow_planned :: bool
  arg_list :: bool
  arg_compatible_cores :: bool
  arg_board_check :: bool
  arg_core_check :: bool
  arg_target_check :: bool
  arg_uart_banner :: bool
  arg_firmware :: string
  arg_variant :: string
  arg_alive_only :: bool
  arg_mem_num_banks :: bool

definition default_args :: args where
  "default_args = \<lparr>arg_core = None, arg_board = None, arg_quiet = False, arg_make = False,
     arg_flow = ''fpga'', arg_allow_planned = False, arg_list = False, arg_compatible_cores = False,
     arg_board_check = False, arg_core_check = False, arg_target_check = False, arg_uart_banner = False,
     arg_firmware = ''baremetal'', arg_variant = ''debug'', arg_alive_only = False, arg_mem_num_banks = False\<rparr>"

definition need_arg :: "string option \<Rightarrow> string \<Rightarrow> string res" where
  "need_arg a msg = fail_if (opt_or a [] = []) msg (Inr (opt_or a []))"

definition main :: "repo \<Rightarrow> args \<Rightarrow> run" where
  "main r args =
     (if arg_mem_num_banks args then run_res (mem_num_banks r) (\<lambda>n. emit [py_str n])
      else if arg_uart_banner args
      then run_res (need_arg (arg_core args) ''--core is required with --uart-banner'') (\<lambda>core.
           run_res (need_arg (arg_board args) ''--board is required with --uart-banner'') (\<lambda>board.
           run_res (resolve_uart_banner r (arg_firmware args) (arg_variant args) core board) (\<lambda>lines.
           emit (if arg_alive_only args then drop (length lines - 1) lines else lines))))
      else if arg_list args then list_targets r
      else if arg_compatible_cores args
      then run_res (need_arg (arg_board args) ''--board is required with --compatible-cores'')
             (print_compatible_cores r)
      else if arg_board_check args
      then run_res (need_arg (arg_board args) ''--board is required with --board-check'')
             (\<lambda>board. board_check r board True)
      else if arg_core_check args
      then run_res (need_arg (arg_core args) ''--core is required with --core-check'')
             (\<lambda>core. core_check r core True)
      else if arg_target_check args
      then run_res (need_arg (arg_board args) ''--board is required with --target-check'') (target_check r)
      else run_res (need_arg (arg_core args) (''--core is required unless --list, --compatible-cores, '' @
                      ''--board-check, --core-check, or --target-check is used'')) (\<lambda>core.
           run_res (need_arg (arg_board args) ''--board is required unless --list is used'') (\<lambda>board.
           validate r core board (arg_quiet args) (arg_make args) (arg_allow_planned args) (arg_flow args))))"

section \<open>Bank counts\<close>

lemma and_pred_power:
  fixes n :: int
  assumes "0 < n" "n AND (n - 1) = 0"
  shows "\<exists>k. n = 2 ^ k"
  using assms
proof (induction n rule: measure_induct_rule [of nat])
  case (less n)
  show ?case
  proof (cases "even n")
    case True
    then obtain m where m: "n = 2 * m" by blast
    have "n AND (n - 1) = of_bool (odd n \<and> odd (n - 1)) + 2 * ((n div 2) AND ((n - 1) div 2))"
      by (rule and_int_rec)
    moreover have "(n - 1) div 2 = m - 1" "n div 2 = m" using m by simp_all
    ultimately have "n AND (n - 1) = 2 * (m AND (m - 1))" using True by simp
    with less.prems m have "\<exists>k. m = 2 ^ k" using less.IH [of m] by simp
    then show ?thesis using m by (metis power_Suc)
  next
    case False
    then obtain m where m: "n = 2 * m + 1" by (metis oddE)
    have "n AND (n - 1) = of_bool (odd n \<and> odd (n - 1)) + 2 * ((n div 2) AND ((n - 1) div 2))"
      by (rule and_int_rec)
    then have "n AND (n - 1) = 2 * m" using m by simp
    with less.prems m have "n = 2 ^ 0" by simp
    then show ?thesis by blast
  qed
qed

lemma power_pos_exponent: "2 \<le> (2 :: int) ^ k \<Longrightarrow> 1 \<le> k"
  by (cases k) auto

lemma mem_num_banks_power:
  assumes "mem_num_banks r = Inr banks"
  shows "\<exists>k\<ge>1. banks = 2 ^ k"
proof -
  from assms have b: "2 \<le> banks" "banks AND (banks - 1) = 0"
    by (auto simp: mem_num_banks_def res_simps split: option.splits)
  then obtain k where "banks = 2 ^ k" using and_pred_power [of banks] by auto
  with b power_pos_exponent show ?thesis by blast
qed

lemma parse_positive_ok [res_simps]:
  "parse_positive_int v field = Inr n \<longleftrightarrow> py_int0 v = Some n \<and> 0 < n"
  by (auto simp: parse_positive_int_def res_simps split: option.splits)

lemma parse_nonnegative_ok [res_simps]:
  "parse_nonnegative_int v field = Inr n \<longleftrightarrow> py_int0 v = Some n \<and> 0 \<le> n"
  by (auto simp: parse_nonnegative_int_def res_simps split: option.splits)

lemma require_int_ok [res_simps]:
  "require_int parse t path d = Inr n \<longleftrightarrow>
     (\<exists>v. yaml_path_scalar t path = Some v \<and> parse v (join ''.'' path) = Inr n)"
  by (auto simp: require_int_def res_simps)

text \<open>
  A bank count that \<^verbatim>\<open>mem_num_banks\<close> returns is a power of two and at least two: the
  test \<^verbatim>\<open>banks & (banks - 1)\<close> is exact.
\<close>

theorem mem_num_banks_exact:
  assumes "is_file r (MEM_SS_PKG r)" "lookup_file r (MEM_SS_PKG r) = Some text"
    and "re_search mem_banks_rx text = Some g"
    and "py_int10 (replace_all ''_'' [] (group ''1'' g)) = Some banks"
  shows "mem_num_banks r = Inr banks \<longleftrightarrow> (\<exists>k\<ge>1. banks = 2 ^ k)"
proof
  assume "\<exists>k\<ge>1. banks = 2 ^ k"
  then obtain k where k: "1 \<le> k" "banks = 2 ^ k" by blast
  then have "2 \<le> banks" by (cases k) auto
  moreover have "banks AND (banks - 1) = 0"
    using k by (simp add: mask_eq_exp_minus_1 [symmetric] take_bit_eq_mask [symmetric])
  ultimately show "mem_num_banks r = Inr banks"
    using assms by (simp add: mem_num_banks_def read_text_def)
qed (rule mem_num_banks_power)

text \<open>
  (C4) A board that passes \<^verbatim>\<open>board_check\<close> and sets its RAM size has RAM that divides into
  equal banks of 64-bit words: the truncating division of \<^verbatim>\<open>soc_top\<close> loses nothing.
\<close>

theorem board_check_ram:
  assumes "board_check r board verbose = (out, Inr ())"
    and "lookup_file r (descriptor_path (BOARD_DIR r) board) = Some board_text"
    and "yaml_path_scalar board_text [''memory'', ''ram_bytes''] = Some raw"
  shows "\<exists>n k. py_int0 raw = Some n \<and> 0 < n \<and> 1 \<le> k \<and> mem_num_banks r = Inr (2 ^ k) \<and>
    8 * 2 ^ k * ((n div 8) div 2 ^ k) = n"
proof -
  from assms(1) obtain bi top where "board_checked r board = Inr (bi, top)"
    by (cases "board_checked r board") (auto simp: board_check_def)
  then have "ram_bytes_check r board_text = Inr ()"
    using assms(2) by (auto simp: board_checked_def board_fields_def Let_def res_simps read_text_def)
  with assms(3) obtain n banks where nb: "py_int0 raw = Some n" "0 < n" "mem_num_banks r = Inr banks"
    "n mod (8 * banks) = 0"
    by (auto simp: ram_bytes_check_def Let_def res_simps split: if_splits)
  from mem_num_banks_power [OF nb(3)] obtain k where k: "1 \<le> k" "banks = 2 ^ k" by blast
  have "8 * banks * ((n div 8) div banks) = n"
    using nb(4) by (simp add: zdiv_zmult2_eq [symmetric] k mod_eq_0_iff_dvd)
  then show ?thesis using nb k by blast
qed

section \<open>Core types\<close>

lemma usage_scan_keeps:
  "usage_scan r cores u = Inr u' \<Longrightarrow> map_of u t = Some us \<Longrightarrow> c \<in> set us \<Longrightarrow>
     \<exists>us'. map_of u' t = Some us' \<and> c \<in> set us'"
proof (induction r cores u arbitrary: us rule: usage_scan.induct)
  case (2 r core cores u)
  from "2.prems"(1) obtain ct where ct: "read_text r (descriptor_path (CORE_DIR r) core) = Inr ct"
    by (auto simp: res_simps)
  show ?case
  proof (cases "yaml_path_scalar ct [''platform'', ''core_type'']")
    case None
    then show ?thesis using 2 ct by auto
  next
    case (Some v)
    with "2.prems"(1) ct obtain t' where t': "parse_nonnegative_int v (core @ ''.platform.core_type'') = Inr t'"
      "usage_scan r cores (AList.map_default t' [core] (\<lambda>us. us @ [core]) u) = Inr u'"
      by (auto simp: bindr_eq_Inr)
    have "\<exists>us2. map_of (AList.map_default t' [core] (\<lambda>us. us @ [core]) u) t = Some us2 \<and> c \<in> set us2"
      using "2.prems"(2,3) by (auto simp: map_of_map_default)
    then show ?thesis using "2.IH"(2) [OF Some] t' by blast
  qed
qed simp

lemma usage_scan_finds:
  assumes "usage_scan r cores u = Inr u'" "c \<in> set cores"
    "lookup_file r (descriptor_path (CORE_DIR r) c) = Some ct"
    "yaml_path_scalar ct [''platform'', ''core_type''] = Some v"
  shows "\<exists>t us. py_int0 v = Some t \<and> 0 \<le> t \<and> map_of u' t = Some us \<and> c \<in> set us"
  using assms
proof (induction r cores u rule: usage_scan.induct)
  case (2 r core cores u)
  show ?case
  proof (cases "c = core")
    case True
    with "2.prems" obtain t where t: "parse_nonnegative_int v (core @ ''.platform.core_type'') = Inr t"
      "usage_scan r cores (AList.map_default t [core] (\<lambda>us. us @ [core]) u) = Inr u'"
      by (auto simp: bindr_eq_Inr read_text_def)
    have "\<exists>us. map_of (AList.map_default t [core] (\<lambda>us. us @ [core]) u) t = Some us \<and> core \<in> set us"
      by (auto simp: map_of_map_default split: option.splits)
    then show ?thesis using usage_scan_keeps [OF t(2)] t(1) True by (auto simp: parse_nonnegative_ok)
  next
    case False
    with "2.prems"(2) have c: "c \<in> set cores" by simp
    from "2.prems"(1) obtain ct0 where ct0: "read_text r (descriptor_path (CORE_DIR r) core) = Inr ct0"
      by (auto simp: bindr_eq_Inr)
    show ?thesis
    proof (cases "yaml_path_scalar ct0 [''platform'', ''core_type'']")
      case None
      with 2 c ct0 show ?thesis by simp
    next
      case (Some v0)
      with "2.prems"(1) ct0 obtain t0 where
        "usage_scan r cores (AList.map_default t0 [core] (\<lambda>us. us @ [core]) u) = Inr u'"
        by (auto simp: bindr_eq_Inr)
      with "2.IH"(2) [OF Some] c "2.prems" show ?thesis by blast
    qed
  qed
qed simp

text \<open>
  (C3) A core that passes \<^verbatim>\<open>core_check\<close> has a core type of its own: no other core descriptor
  of the checkout denotes the same number, in whatever base it is written, and the number is the
  one of its member of \<^verbatim>\<open>core_type_e\<close>.
\<close>

theorem core_check_unique_type:
  assumes "core_check r core verbose = (out, Inr ())"
  shows "\<exists>ct v t vals. lookup_file r (descriptor_path (CORE_DIR r) core) = Some ct \<and>
    yaml_path_scalar ct [''platform'', ''core_type''] = Some v \<and> py_int0 v = Some t \<and> 0 \<le> t \<and>
    platform_core_type_values r = Inr vals \<and> map_of vals (expected_core_enum_name core) = Some t \<and>
    (\<forall>c ct' v'. c \<in> set (descriptor_names r (CORE_DIR r)) \<longrightarrow> c \<noteq> core \<longrightarrow>
       lookup_file r (descriptor_path (CORE_DIR r) c) = Some ct' \<longrightarrow>
       yaml_path_scalar ct' [''platform'', ''core_type''] = Some v' \<longrightarrow> py_int0 v' \<noteq> Some t)"
proof -
  from assms obtain ct ci where "core_checked r core = Inr (ct, ci)"
    by (cases "core_checked r core") (auto simp: core_check_def)
  then obtain ctype where ct: "lookup_file r (descriptor_path (CORE_DIR r) core) = Some ct"
    and cc: "core_type_check r core ct = Inr ctype"
    by (auto simp: core_checked_def Let_def res_simps read_text_ok)
  from cc obtain v t vals usage where v: "yaml_path_scalar ct [''platform'', ''core_type''] = Some v"
    "py_int0 v = Some t" "0 \<le> t" "platform_core_type_values r = Inr vals"
    "map_of vals (expected_core_enum_name core) = Some t" "core_type_usage r = Inr usage"
    and dup: "filter (\<lambda>name. name \<noteq> core) (case map_of usage t of None \<Rightarrow> [] | Some us \<Rightarrow> us) = []"
    by (auto simp: core_type_check_def Let_def res_simps split: option.splits)
  have "py_int0 v' \<noteq> Some t" if "c \<in> set (descriptor_names r (CORE_DIR r))" "c \<noteq> core"
    "lookup_file r (descriptor_path (CORE_DIR r) c) = Some ct'"
    "yaml_path_scalar ct' [''platform'', ''core_type''] = Some v'" for c ct' v'
    using usage_scan_finds [OF v(6) [unfolded core_type_usage_def] that(1,3,4)] that(2) dup
    by (auto simp: filter_empty_conv split: option.splits)
  then show ?thesis using ct v(1-5) by blast
qed

section \<open>Checks and commands agree\<close>

lemma core_check_checked: "core_check r core verbose = (out, Inr ()) \<Longrightarrow> \<exists>ct ci. core_checked r core = Inr (ct, ci)"
  by (cases "core_checked r core") (auto simp: core_check_def)

lemma core_checked_parts:
  assumes "core_checked r core = Inr (ct, ci)"
  shows "lookup_file r (descriptor_path (CORE_DIR r) core) = Some ct"
    and "core_rules ci = Inr ()" "core_boards_check r core (ci_boards ci) = Inr ()"
    and "\<exists>ident adapter ctype. core_identity core ct = Inr ident \<and> core_adapter r core ct = Inr adapter \<and>
      core_type_check r core ct = Inr ctype \<and> core_fields core ct ident adapter ctype = Inr ci"
  using assms by (auto simp: core_checked_def Let_def res_simps read_text_ok)

lemma core_type_check_integration:
  "core_type_check r core ct = Inr ctype \<Longrightarrow> yaml_path_scalar ct [''platform'', ''integration''] = Some (fst (snd ctype))"
  by (auto simp: core_type_check_def Let_def res_simps split: option.splits)

lemma core_fields_flags:
  "core_fields core ct ident adapter ctype = Inr ci \<Longrightarrow>
     yaml_path_scalar ct [''fusesoc'', ''core_flag''] = Some (ci_core_flag ci) \<and>
     ci_integration ci = fst (snd ctype)"
  by (auto simp: core_fields_def Let_def res_simps)

lemma core_rules_integration: "core_rules ci = Inr () \<Longrightarrow> ci_integration ci \<in> set PLATFORM_INTEGRATIONS"
  by (simp add: core_rules_def Let_def fail_if_eq_Inr)

lemma core_report_ok:
  assumes "core_checked r core = Inr (ct, ci)"
  shows "snd (core_report core ct ci) = Inr ()"
proof -
  from core_checked_parts(4) [OF assms] obtain ident adapter ctype where
    "core_type_check r core ct = Inr ctype" "core_fields core ct ident adapter ctype = Inr ci" by blast
  then have "yaml_path_scalar ct [''platform'', ''integration''] = Some (ci_integration ci)"
    "yaml_path_scalar ct [''fusesoc'', ''core_flag''] = Some (ci_core_flag ci)"
    using core_type_check_integration core_fields_flags by auto
  then have "\<exists>fs. fusesoc_core_flags ct = Inr fs"
    using core_rules_integration [OF core_checked_parts(2) [OF assms]]
    by (simp add: fusesoc_core_flags_def platform_integration_def require_scalar_def)
  then show ?thesis by (auto simp: core_report_def run_seq_def)
qed

lemma core_check_end: "snd (core_check r core verbose) = bindr (core_checked r core) (\<lambda>_. Inr ())"
  by (cases "core_checked r core") (auto simp: core_check_def core_report_ok)

text \<open>
  The report of \<^verbatim>\<open>core_check\<close> cannot fail: with and without \<^verbatim>\<open>verbose\<close> the same
  cores pass, and a failing check prints nothing.
\<close>

theorem core_check_verbose_agrees:
  "snd (core_check r core True) = snd (core_check r core False) \<and>
   (snd (core_check r core True) = Inr () \<or> fst (core_check r core True) = [])"
proof (cases "core_checked r core")
  case (Inl e)
  then show ?thesis by (simp add: core_check_def)
qed (simp add: core_check_end)

text \<open>
  (C33) What \<^verbatim>\<open>core_check\<close> guarantees about the instruction set: a core that passes has a
  width of 32 or 64 bits with the matching \<^verbatim>\<open>march\<close> prefix and ABI, word-aligned boot and
  trap addresses as its descriptor gives them, and AXI on both buses when it is integrated as a
  native AXI core.
\<close>

theorem core_check_isa:
  assumes "core_check r core verbose = (out, Inr ())"
  shows "\<exists>ct ci. core_checked r core = Inr (ct, ci) \<and> lookup_file r (descriptor_path (CORE_DIR r) core) = Some ct \<and>
    (\<exists>x. yaml_path_scalar ct [''isa'', ''xlen''] = Some x \<and> py_int0 x = Some (ci_xlen ci)) \<and>
    yaml_path_scalar ct [''isa'', ''march''] = Some (ci_march ci) \<and>
    yaml_path_scalar ct [''isa'', ''mabi''] = Some (ci_mabi ci) \<and>
    (ci_xlen ci = 32 \<and> prefix ''rv32'' (ci_march ci) \<and> prefix ''ilp32'' (ci_mabi ci) \<or>
     ci_xlen ci = 64 \<and> prefix ''rv64'' (ci_march ci) \<and> prefix ''lp64'' (ci_mabi ci)) \<and>
    (\<exists>b. yaml_path_scalar ct [''reset'', ''boot_addr''] = Some b \<and> py_int0 b = Some (ci_boot_addr ci)) \<and>
    (\<exists>m. yaml_path_scalar ct [''reset'', ''mtvec_addr''] = Some m \<and> py_int0 m = Some (ci_mtvec_addr ci)) \<and>
    0 \<le> ci_boot_addr ci \<and> 4 dvd ci_boot_addr ci \<and> 0 \<le> ci_mtvec_addr ci \<and> 4 dvd ci_mtvec_addr ci \<and>
    (yaml_path_scalar ct [''platform'', ''integration''] = Some ''native_axi'' \<longrightarrow>
     yaml_path_scalar ct [''buses'', ''instruction''] = Some ''axi'' \<and>
     yaml_path_scalar ct [''buses'', ''data''] = Some ''axi'')"
proof -
  from core_check_checked [OF assms] obtain ct ci where p: "core_checked r core = Inr (ct, ci)" by blast
  from core_checked_parts(4) [OF p] obtain ident adapter ctype where
    c: "core_type_check r core ct = Inr ctype" "core_fields core ct ident adapter ctype = Inr ci" by blast
  from core_type_check_integration [OF c(1)] core_fields_flags [OF c(2)]
  have int: "yaml_path_scalar ct [''platform'', ''integration''] = Some (ci_integration ci)" by simp
  from c(2) obtain x b m where fl: "yaml_path_scalar ct [''isa'', ''xlen''] = Some x" "py_int0 x = Some (ci_xlen ci)"
    "yaml_path_scalar ct [''isa'', ''march''] = Some (ci_march ci)"
    "yaml_path_scalar ct [''isa'', ''mabi''] = Some (ci_mabi ci)"
    "yaml_path_scalar ct [''buses'', ''instruction''] = Some (ci_instruction_bus ci)"
    "yaml_path_scalar ct [''buses'', ''data''] = Some (ci_data_bus ci)"
    "yaml_path_scalar ct [''reset'', ''boot_addr''] = Some b" "py_int0 b = Some (ci_boot_addr ci)" "0 \<le> ci_boot_addr ci"
    "yaml_path_scalar ct [''reset'', ''mtvec_addr''] = Some m" "py_int0 m = Some (ci_mtvec_addr ci)" "0 \<le> ci_mtvec_addr ci"
    by (auto simp: core_fields_def Let_def res_simps)
  have s: "py_str 32 = ''32''" "py_str 64 = ''64''" by code_simp+
  from core_checked_parts(2) [OF p] have ru: "ci_xlen ci = 32 \<or> ci_xlen ci = 64"
    "prefix (''rv'' @ py_str (ci_xlen ci)) (ci_march ci)"
    "ci_xlen ci = 32 \<longrightarrow> prefix ''ilp32'' (ci_mabi ci)" "ci_xlen ci = 64 \<longrightarrow> prefix ''lp64'' (ci_mabi ci)"
    "4 dvd ci_boot_addr ci" "4 dvd ci_mtvec_addr ci"
    "ci_integration ci = ''native_axi'' \<longrightarrow> ci_instruction_bus ci = ''axi'' \<and> ci_data_bus ci = ''axi''"
    by (simp_all add: core_rules_def Let_def fail_if_eq_Inr mod_eq_0_iff_dvd)
  have "ci_xlen ci = 32 \<and> prefix ''rv32'' (ci_march ci) \<and> prefix ''ilp32'' (ci_mabi ci) \<or>
     ci_xlen ci = 64 \<and> prefix ''rv64'' (ci_march ci) \<and> prefix ''lp64'' (ci_mabi ci)"
    using ru(1-4) s by auto
  with p core_checked_parts(1) [OF p] fl ru(5-7) int show ?thesis by (intro exI [of _ ct] exI [of _ ci]) simp
qed

lemma board_checked_cores:
  assumes "board_checked r board = Inr x" "lookup_file r (descriptor_path (BOARD_DIR r) board) = Some bt"
    "core \<in> set (yaml_top_list bt ''compatible_cores'')"
    "lookup_file r (descriptor_path (CORE_DIR r) core) = Some ct"
  shows "yaml_top_list ct ''compatible_boards'' = [] \<or> board \<in> set (yaml_top_list ct ''compatible_boards'')"
proof -
  from assms(1,2) obtain bi where "board_fields r board bt = Inr bi" "board_cores_check r board (bi_cores bi) = Inr ()"
    by (auto simp: board_checked_def Let_def res_simps read_text_def)
  moreover from this(1) have "bi_cores bi = yaml_top_list bt ''compatible_cores''"
    by (auto simp: board_fields_def Let_def res_simps)
  ultimately show ?thesis using assms(3,4)
    by (auto simp: board_cores_check_def Let_def res_simps read_text_def)
qed

lemma checked_compatible:
  assumes "board_checked r board = Inr x" "lookup_file r (descriptor_path (BOARD_DIR r) board) = Some bt"
    "core \<in> set (yaml_top_list bt ''compatible_cores'')"
    "lookup_file r (descriptor_path (CORE_DIR r) core) = Some ct" "integration_status ct flow = ''supported''"
  shows "is_compatible core board ct bt flow allow_planned = (True, [])"
  using board_checked_cores [OF assms(1-4)] assms(3,5)
  by (auto simp: is_compatible_def Let_def SUPPORTED_STATUS_def)

text \<open>
  (C12) After \<^verbatim>\<open>board_check\<close> the flow checks of \<^verbatim>\<open>target_check\<close> cannot fail: the descriptors
  of the board and of each of its cores list each other, so that every supported flow is compatible.
\<close>

theorem flow_check_passes:
  assumes "board_check r board verbose = (out, Inr ())"
    and "load_descriptors r core board = Inr (core_text, board_text)"
    and "core \<in> set (yaml_top_list board_text ''compatible_cores'')"
  shows "flow_check core board core_text board_text flow = Inr (flow @ '':'' @ integration_status core_text flow)"
proof -
  from assms(1) obtain x where x: "board_checked r board = Inr x"
    by (cases "board_checked r board") (auto simp: board_check_def)
  from assms(2) have "lookup_file r (descriptor_path (CORE_DIR r) core) = Some core_text"
    "lookup_file r (descriptor_path (BOARD_DIR r) board) = Some board_text"
    by (auto simp: load_descriptors_def Let_def res_simps read_text_ok)
  with checked_compatible [OF x _ assms(3)] show ?thesis
    by (simp add: flow_check_def Let_def SUPPORTED_STATUS_def)
qed

lemma target_checked:
  assumes "snd (target_check r board) = Inr ()"
    and "lookup_file r (descriptor_path (BOARD_DIR r) board) = Some board_text"
    and "core \<in> set (yaml_top_list board_text ''compatible_cores'')"
  obtains ct cfg x where "lookup_file r (descriptor_path (CORE_DIR r) core) = Some ct"
    "load_descriptors r core board = Inr (ct, board_text)" "target_config r core board ct board_text = Inr cfg"
    "snd (core_check r core False) = Inr ()" "board_checked r board = Inr x"
proof -
  have f: "is_file r (descriptor_path (BOARD_DIR r) board)" "read_text r (descriptor_path (BOARD_DIR r) board) = Inr board_text"
    using assms(2) by (simp_all add: is_file_def read_text_def)
  with assms(1,3) have b: "snd (board_check r board False) = Inr ()" and t: "snd (target_core_check r board core) = Inr ()"
    by (auto simp: target_check_def Let_def res_simps)
  from t obtain ct bt cfg where cc: "snd (core_check r core False) = Inr ()"
    and ld: "load_descriptors r core board = Inr (ct, bt)" and cfg: "target_config r core board ct bt = Inr cfg"
    by (auto simp: target_core_check_def res_simps)
  from ld assms(2) have "lookup_file r (descriptor_path (CORE_DIR r) core) = Some ct" and "bt = board_text"
    by (auto simp: load_descriptors_def Let_def res_simps read_text_ok)
  moreover from b obtain x where "board_checked r board = Inr x"
    by (cases "board_checked r board") (auto simp: board_check_def)
  ultimately show thesis using that ld cfg cc by blast
qed

text \<open>
  (C2) \<^verbatim>\<open>target_check\<close> is a sound gate for the build: when it passes for a board, every
  compatible core passes \<^verbatim>\<open>core_check\<close>, and \<^verbatim>\<open>validate\<close> accepts the core with the
  board for every flow the core supports, in every output mode.
\<close>

theorem target_check_sound:
  assumes "snd (target_check r board) = Inr ()"
    and "lookup_file r (descriptor_path (BOARD_DIR r) board) = Some board_text"
    and "core \<in> set (yaml_top_list board_text ''compatible_cores'')"
  shows "snd (core_check r core verbose) = Inr () \<and>
    (\<exists>core_text. lookup_file r (descriptor_path (CORE_DIR r) core) = Some core_text \<and>
      (integration_status core_text flow = ''supported'' \<longrightarrow>
       snd (validate r core board quiet as_make allow_planned flow) = Inr ()))"
proof -
  from target_checked [OF assms] obtain ct cfg x where t: "lookup_file r (descriptor_path (CORE_DIR r) core) = Some ct"
    "load_descriptors r core board = Inr (ct, board_text)" "target_config r core board ct board_text = Inr cfg"
    "snd (core_check r core False) = Inr ()" "board_checked r board = Inr x" .
  have "snd (validate r core board quiet as_make allow_planned flow) = Inr ()"
    if "integration_status ct flow = ''supported''"
    using checked_compatible [OF t(5) assms(2,3) t(1) that, of allow_planned] t(2,3) by (simp add: validate_end)
  moreover have "snd (core_check r core verbose) = Inr ()" using t(4) by (simp add: core_check_end)
  ultimately show ?thesis using t(1) by blast
qed

end
