(* ===== verification/Sample.thy ===== *)
theory Sample
  imports Checks
begin

text \<open>
  A small checkout with one core, one board and the files their descriptors refer to, cut down
  from those of the repository. The witnesses of the properties run the model on it.
\<close>

definition ibex_tree :: ytree where
  "ibex_tree =
    [(''name'', YScalar ''ibex''), (''display_name'', YScalar ''Ibex''),
     (''integration'', YMap [(''sim'', YScalar ''supported''), (''fpga'', YScalar ''supported''),
        (''debug'', YScalar ''supported'')]),
     (''adapter'', YMap [(''module'', YScalar ''ibex_adapter''), (''file'', YScalar ''rtl/ibex_adapter.sv'')]),
     (''platform'', YMap [(''core_type'', YScalar ''0''), (''integration'', YScalar ''socket_region'')]),
     (''wrapper'', YMap [(''module'', YScalar ''ibex_wrapper'')]),
     (''fusesoc'', YMap [(''sim_target'', YScalar ''sw-sim''), (''core_flag'', YScalar ''core_ibex'')]),
     (''isa'', YMap [(''xlen'', YScalar ''32''), (''march'', YScalar ''rv32imcb''), (''mabi'', YScalar ''ilp32'')]),
     (''reset'', YMap [(''boot_addr'', YScalar ''0x80000000''), (''mtvec_addr'', YScalar ''0x80000000'')]),
     (''debug'', YMap [(''supported'', YScalar ''true''), (''hart_count'', YScalar ''1''),
        (''hartsel'', YScalar ''0''), (''halt_addr'', YScalar ''0x800''), (''exception_addr'', YScalar ''0x810'')]),
     (''buses'', YMap [(''instruction'', YScalar ''obi''), (''data'', YScalar ''obi'')]),
     (''clocking'', YMap [(''validated_min_hz'', YScalar ''25000000''), (''validated_max_hz'', YScalar ''25000000'')]),
     (''software'', YMap [(''default_target'', YScalar ''fpga''), (''toolchain'', YScalar ''riscv-multilib''),
        (''zephyr'', YMap [(''status'', YScalar ''initial_supported'')])]),
     (''compatible_boards'', YList [''axku5''])]"

text \<open>The board, with the directory its builds go to as an argument.\<close>

definition axku5_with :: "string \<Rightarrow> ytree" where
  "axku5_with work_root =
    [(''name'', YScalar ''axku5''), (''display_name'', YScalar ''ALINX AXKU5''),
     (''fpga'', YMap [(''part'', YScalar ''xcku5p-ffvb676-2-e''), (''top_template'', YScalar ''corejack_{board}_wrap''),
        (''target'', YScalar ''fpga''), (''work_root'', YScalar work_root)]),
     (''fusesoc'', YMap [(''board_flag'', YScalar ''board_axku5'')]),
     (''clock'', YMap [(''input_hz'', YScalar ''200000000''), (''soc_hz'', YScalar ''25000000''),
        (''constraints_ports'', YMap [(''p'', YScalar ''sys_clk_p''), (''n'', YScalar ''sys_clk_n'')])]),
     (''reset'', YMap [(''polarity'', YScalar ''active_low''), (''constraints_port'', YScalar ''sys_rst_n'')]),
     (''memory'', YMap [(''ram_bytes'', YScalar ''0x80000'')]),
     (''uart'', YMap [(''baud'', YScalar ''115200''), (''tx_port'', YScalar ''uart_tx''), (''rx_port'', YScalar ''uart_rx'')]),
     (''debug'', YMap [(''transport'', YScalar ''jtag''), (''jtag_adapter'', YScalar ''tigard'')]),
     (''constraints'', YMap [(''xdc'', YScalar ''rtl/axku5.xdc'')]),
     (''programming'', YMap [(''flow'', YScalar ''vivado''), (''bitstream_target'', YScalar ''fpga-bit''),
        (''program_target'', YScalar ''fpga-pgm'')]),
     (''validation'', YMap [(''smoke_app'', YScalar ''hello_world'')]),
     (''compatible_cores'', YList [''ibex''])]"

definition axku5_tree :: ytree where
  "axku5_tree = axku5_with ''build/{board}/{core}''"

definition banner_tree :: ytree where
  "banner_tree =
    [(''baremetal'', YMap [(''banner'', YList [''CoreJack {core} {board} {target}'']),
        (''alive'', YMap [(''sim'', YScalar ''Alive in sim''), (''debug'', YScalar ''Alive''),
           (''loader'', YScalar ''Alive and loaded'')])]),
     (''zephyr'', YMap [(''banner'', YList [''Zephyr on {board}'']),
        (''alive'', YMap [(''debug'', YScalar ''Alive''), (''loader'', YScalar ''Alive'')])])]"

definition core_text :: string where
  "core_text = unlines (ydoc 0 ibex_tree)"

definition board_text :: string where
  "board_text = unlines (ydoc 0 axku5_tree)"

definition sample :: repo where
  "sample = \<lparr>root = [''repo''], files =
    [([''repo'', ''cfg'', ''cores'', ''ibex.yaml''], core_text),
     ([''repo'', ''cfg'', ''boards'', ''axku5.yaml''], board_text),
     ([''repo'', ''cfg'', ''validation'', ''uart_banners.yaml''], unlines (ydoc 0 banner_tree)),
     ([''repo'', ''rtl'', ''ibex_adapter.sv''], unlines [''module ibex_adapter;'', ''endmodule'']),
     ([''repo'', ''rtl'', ''pkg'', ''platform_pkg.sv''],
        unlines [''typedef enum int unsigned {'', ''  CoreIbex = 0'', ''} core_type_e;'']),
     ([''repo'', ''rtl'', ''pkg'', ''mem_ss_pkg.sv''],
        unlines [''  localparam int unsigned MemNumBanksDefault = 4;'']),
     ([''repo'', ''rtl'', ''axku5.xdc''], []),
     ([''repo'', ''rtl'', ''platform'', ''fpga'', ''scripts'', ''openocd-tigard.cfg''], []),
     ([''repo'', ''rtl'', ''platform'', ''fpga'', ''boards'', ''axku5'', ''corejack_axku5_wrap.sv''],
        unlines [''module corejack_axku5_wrap;'', ''endmodule'']),
     ([''repo'', ''corejack.core''], unlines [''targets:'', ''  fpga:'']),
     ([''repo'', ''Makefile''], unlines [''fpga-bit: all'', ''fpga-pgm:''])]\<rparr>"

section \<open>The model on the checkout\<close>

lemma ibex_wf: "ywf (\<lambda>v. unquote_ends v = v) ibex_tree"
  by code_simp

lemma axku5_wf: "ywf (\<lambda>v. unquote_ends v = v) axku5_tree"
  by code_simp

lemma banner_wf: "ywf (\<lambda>v. unquote_ends v = v) banner_tree"
  by code_simp

lemmas core_scalar = validate_reader.read_doc [OF ibex_wf, folded core_text_def]
lemmas board_scalar = validate_reader.read_doc [OF axku5_wf, folded board_text_def]
lemmas banner_scalar = validate_reader.read_doc [OF banner_wf]

lemma nonblank_doc: "ywf ok t \<Longrightarrow> filter nonblank (ydoc 0 t) = ydoc 0 t"
  using ydoc_lines by (auto intro!: filter_True)

lemma list_printed:
  assumes "ywf ok t" "t = u @ [(key, YList xs)]" "key \<notin> set (ykeys u)" "list_all quote_free xs"
  shows "yaml_top_list (unlines (ydoc 0 t)) key = xs"
proof -
  have "list_all one_line (ydoc 0 t)" using ydoc_lines [OF assms(1)] by (auto simp: list_all_iff)
  then show ?thesis
    using top_list_printed [of ok u key xs "[]"] assms nonblank_doc [OF assms(1)]
    by (simp add: yaml_top_list_def splitlines_unlines)
qed

lemma core_boards: "yaml_top_list core_text ''compatible_boards'' = [''axku5'']"
  unfolding core_text_def
  by (rule list_printed [OF ibex_wf, of "butlast ibex_tree"]) code_simp+

lemma board_cores: "yaml_top_list board_text ''compatible_cores'' = [''ibex'']"
  unfolding board_text_def
  by (rule list_printed [OF axku5_wf, of "butlast axku5_tree"]) code_simp+

lemma sample_root [simp]: "root sample = [''repo'']"
  by (simp add: sample_def)

lemma core_file: "lookup_file sample (descriptor_path (CORE_DIR sample) ''ibex'') = Some core_text"
  by (simp add: sample_def lookup_file_def descriptor_path_def CORE_DIR_def path_join_def components_def split_on_def)

lemma board_file: "lookup_file sample (descriptor_path (BOARD_DIR sample) ''axku5'') = Some board_text"
  by (simp add: sample_def lookup_file_def descriptor_path_def BOARD_DIR_def path_join_def components_def split_on_def)

lemma core_names: "descriptor_names sample (CORE_DIR sample) = [''ibex'']"
  by (simp add: descriptor_names_def glob_ext_def entries_def sample_def CORE_DIR_def stem_def suffix_def)

lemma board_names: "descriptor_names sample (BOARD_DIR sample) = [''axku5'']"
  by (simp add: descriptor_names_def glob_ext_def entries_def sample_def BOARD_DIR_def stem_def suffix_def)

lemma sample_ident: "core_identity ''ibex'' core_text =
    Inr (''Ibex'', [(''sim'', ''supported''), (''fpga'', ''supported''), (''debug'', ''supported'')])"
  by (simp add: core_identity_def require_scalar_def core_scalar ylookup_def ibex_tree_def FLOWS_def require_status_def)


lemmas core_eval = require_scalar_def require_int_def core_scalar ylookup_def ibex_tree_def
lemmas board_eval = require_scalar_def require_int_def board_scalar ylookup_def axku5_tree_def axku5_with_def

lemma sample_ints: "py_int0 ''0'' = Some 0" "py_int0 ''1'' = Some 1" "py_int0 ''32'' = Some 32"
  "py_int0 ''0x80000000'' = Some 2147483648" "py_int0 ''0x800'' = Some 2048" "py_int0 ''0x810'' = Some 2064"
  "py_int0 ''25000000'' = Some 25000000" "py_int0 ''200000000'' = Some 200000000"
  "py_int0 ''115200'' = Some 115200" "py_int0 ''0x80000'' = Some 524288"
  by (simp_all add: py_int0_def int_space_def strip_by_def lstrip_by_def rstrip_by_def code_def unsigned0_def
      grouped_val_def split_on_def base_digits_def digits_val_def digit_val_def)

lemmas parse_eval = parse_positive_int_def parse_nonnegative_int_def sample_ints

lemma sample_adapter: "core_adapter sample ''ibex'' core_text = Inr (''ibex_adapter'', ''rtl/ibex_adapter.sv'')"
proof -
  have s: "re_search (module_rx ''ibex_adapter'') (unlines [''module ibex_adapter;'', ''endmodule'']) \<noteq> None" by code_simp
  have "lookup_file sample [''repo'', ''rtl'', ''ibex_adapter.sv''] =
      Some (unlines [''module ibex_adapter;'', ''endmodule''])"
    by (simp add: sample_def lookup_file_def)
  then show ?thesis using s
    by (simp add: core_adapter_def core_eval check_repo_file_def is_file_def read_text_def path_join_def
        components_def split_on_def fail_if_def)
qed

lemma sample_types: "platform_core_type_values sample = Inr [(''CoreIbex'', 0)]"
  by code_simp

lemma sample_usage: "core_type_usage sample = Inr [(0, [''ibex''])]"
  using core_file by (simp add: core_type_usage_def core_names read_text_def core_eval parse_eval)

lemma sample_ctype: "core_type_check sample ''ibex'' core_text = Inr (0, ''socket_region'', ''CoreIbex'')"
proof -
  have "expected_core_enum_name ''ibex'' = ''CoreIbex''" by code_simp
  then show ?thesis by (simp add: core_type_check_def core_eval parse_eval sample_types sample_usage)
qed

definition ibex_info :: core_info where
  "ibex_info = \<lparr>ci_display_name = ''Ibex'',
     ci_statuses = [(''sim'', ''supported''), (''fpga'', ''supported''), (''debug'', ''supported'')],
     ci_adapter_module = ''ibex_adapter'', ci_adapter_file = ''rtl/ibex_adapter.sv'', ci_core_type = 0,
     ci_integration = ''socket_region'', ci_enum_name = ''CoreIbex'', ci_wrapper_module = ''ibex_wrapper'',
     ci_sim_target = ''sw-sim'', ci_core_flag = ''core_ibex'', ci_xlen = 32, ci_march = ''rv32imcb'',
     ci_mabi = ''ilp32'', ci_boot_addr = 2147483648, ci_mtvec_addr = 2147483648, ci_instruction_bus = ''obi'',
     ci_data_bus = ''obi'', ci_min_hz = 25000000, ci_max_hz = 25000000, ci_default_target = ''fpga'',
     ci_toolchain = ''riscv-multilib'', ci_zephyr = ''initial_supported'', ci_boards = [''axku5'']\<rparr>"

lemma sample_info: "core_fields ''ibex'' core_text
    (''Ibex'', [(''sim'', ''supported''), (''fpga'', ''supported''), (''debug'', ''supported'')])
    (''ibex_adapter'', ''rtl/ibex_adapter.sv'') (0, ''socket_region'', ''CoreIbex'') = Inr ibex_info"
  by (simp add: core_fields_def core_eval parse_eval core_boards ibex_info_def)

lemma sample_rules: "core_rules ibex_info = Inr ()"
proof -
  have "py_str 32 = ''32''" "re_fullmatch sim_target_rx ''sw-sim''" "re_fullmatch flag_rx ''core_ibex''"
    by code_simp+
  then show ?thesis
    by (simp add: core_rules_def ibex_info_def fail_if_def Let_def BUSES_def PLATFORM_INTEGRATIONS_def ZEPHYR_STATUSES_def)
qed

lemma sample_debug: "core_debug_check ''ibex'' core_text ''supported'' = Inr ()"
  by (simp add: core_debug_check_def core_eval parse_eval)

lemma sample_boards: "core_boards_check sample ''ibex'' [''axku5''] = Inr ()"
  by (simp add: core_boards_check_def board_names read_text_def board_file board_cores)

lemma ibex_checked: "core_checked sample ''ibex'' = Inr (core_text, ibex_info)"
  using sample_ident sample_adapter sample_ctype sample_info sample_rules sample_debug sample_boards
  by (simp add: core_checked_def is_file_def read_text_def core_file) (simp add: ibex_info_def status_of_def)

lemma sample_banks: "mem_num_banks sample = Inr 4"
  by code_simp

definition axku5_info :: board_info where
  "axku5_info = \<lparr>bi_display_name = ''ALINX AXKU5'', bi_part = ''xcku5p-ffvb676-2-e'',
     bi_top_template = ''corejack_{board}_wrap'', bi_target_template = ''fpga'', bi_board_flag = ''board_axku5'',
     bi_work_root = ''build/{board}/{core}'', bi_input_hz = 200000000, bi_soc_hz = 25000000,
     bi_clk_p = ''sys_clk_p'', bi_clk_n = ''sys_clk_n'', bi_reset_polarity = ''active_low'',
     bi_reset_port = ''sys_rst_n'', bi_uart_baud = 115200, bi_uart_tx = ''uart_tx'', bi_uart_rx = ''uart_rx'',
     bi_debug_transport = ''jtag'', bi_jtag_adapter = ''tigard'', bi_xdc = ''rtl/axku5.xdc'',
     bi_programming_flow = ''vivado'', bi_bitstream_target = ''fpga-bit'', bi_program_target = ''fpga-pgm'',
     bi_smoke_app = ''hello_world'', bi_cores = [''ibex'']\<rparr>"

lemma sample_flag: "fusesoc_board_flag board_text = Inr ''board_axku5''"
proof -
  have "re_fullmatch flag_rx ''board_axku5''" by code_simp
  then show ?thesis by (simp add: fusesoc_board_flag_def board_eval)
qed

lemma sample_binfo: "board_fields sample ''axku5'' board_text = Inr axku5_info"
  by (simp add: board_fields_def sample_flag, simp add: board_eval parse_eval board_cores ram_bytes_check_def sample_banks axku5_info_def)

lemma sample_templates: "template_check w ''corejack_{board}_wrap'' = Inr ()" "template_check w ''fpga'' = Inr ()"
  "format_kw (target_args c b) ''fpga'' = Inr ''fpga''"
  "format_kw (target_args c ''axku5'') ''corejack_{board}_wrap'' = Inr ''corejack_axku5_wrap''"
  "format_kw (target_args ''ibex'' ''axku5'') ''build/{board}/{core}'' = Inr ''build/axku5/ibex''"
proof -
  have f: "format_fields ''corejack_{board}_wrap'' = Inr [''board'']" "format_fields ''fpga'' = Inr []" by code_simp+
  show "template_check w ''corejack_{board}_wrap'' = Inr ()" "template_check w ''fpga'' = Inr ()"
    by (simp_all add: template_check_def f unsupported_fields_def)
  have p: "parse_fmt ''fpga'' = ([Lit ''fpga''], None)"
    "parse_fmt ''corejack_{board}_wrap'' = ([Lit ''corejack_'', Field ''board'' None [], Lit ''_wrap''], None)"
    by code_simp+
  show "format_kw (target_args c b) ''fpga'' = Inr ''fpga''" by (simp add: format_kw_pieces p)
  show "format_kw (target_args c ''axku5'') ''corejack_{board}_wrap'' = Inr ''corejack_axku5_wrap''"
    by (simp add: format_kw_pieces p field_value_arg arg_names [simplified] target_args_def)
  show "format_kw (target_args ''ibex'' ''axku5'') ''build/{board}/{core}'' = Inr ''build/axku5/ibex''" by code_simp
qed

lemma sample_top: "board_top_check sample ''axku5'' axku5_info = Inr (''corejack_axku5_wrap'',
    [''repo'', ''rtl'', ''platform'', ''fpga'', ''boards'', ''axku5'', ''corejack_axku5_wrap.sv''])"
proof -
  have s: "re_search (module_rx ''corejack_axku5_wrap'') (unlines [''module corejack_axku5_wrap;'', ''endmodule'']) \<noteq> None"
    by code_simp
  have "lookup_file sample [''repo'', ''rtl'', ''platform'', ''fpga'', ''boards'', ''axku5'', ''corejack_axku5_wrap.sv''] =
      Some (unlines [''module corejack_axku5_wrap;'', ''endmodule''])"
    by (simp add: sample_def lookup_file_def)
  then show ?thesis using s
    by (auto simp: board_top_check_def axku5_info_def sample_templates is_file_def read_text_def path_join_def
        components_def split_on_def Let_def)
qed

lemma sample_refs: "board_refs_check sample ''axku5'' axku5_info = Inr ()"
proof -
  have m: "make_target_exists sample ''fpga-bit''" "make_target_exists sample ''fpga-pgm''"
    "fusesoc_target_exists sample ''fpga''" by code_simp+
  have "is_file sample [''repo'', ''rtl'', ''axku5.xdc'']"
    "is_file sample [''repo'', ''rtl'', ''platform'', ''fpga'', ''scripts'', ''openocd-tigard.cfg'']"
    by (simp_all add: sample_def lookup_file_def is_file_def)
  then show ?thesis using m
    by (simp add: board_refs_check_def axku5_info_def sample_templates check_repo_file_def openocd_cfg_def
        path_join_def components_def split_on_def)
qed

lemma sample_brules: "board_rules axku5_info = Inr ()"
  by (simp add: board_rules_def axku5_info_def)

abbreviation banners :: string where
  "banners \<equiv> unlines (ydoc 0 banner_tree)"

lemma banner_lists:
  "yaml_path_list banners [''baremetal'', ''banner''] = [''CoreJack {core} {board} {target}'']"
  "yaml_path_list banners [''zephyr'', ''banner''] = [''Zephyr on {board}'']"
  by code_simp+

lemma banner_file: "lookup_file sample (UART_BANNER_FILE sample) = Some banners"
  by (simp add: sample_def lookup_file_def UART_BANNER_FILE_def)

lemma sample_uart: "check_uart_banner_descriptor sample = Inr ()"
proof -
  have f: "format_fields ''CoreJack {core} {board} {target}'' = Inr [''core'', ''board'', ''target'']"
    "format_fields ''Zephyr on {board}'' = Inr [''board'']" by code_simp+
  have "firmware_check banners ''baremetal'' = Inr ()" "firmware_check banners ''zephyr'' = Inr ()"
    by (simp_all add: firmware_check_def banner_lists banner_line_check_def f unsupported_fields_def
        UART_BANNER_FIELDS_def firmware_variants_def UART_VARIANTS_def alive_check_def banner_scalar,
        simp_all add: ylookup_def banner_tree_def)
  then show ?thesis using banner_file
    by (simp add: check_uart_banner_descriptor_def is_file_def read_text_def UART_FIRMWARES_def)
qed

lemma axku5_checked: "board_checked sample ''axku5'' = Inr (axku5_info, ''corejack_axku5_wrap'',
    [''repo'', ''rtl'', ''platform'', ''fpga'', ''boards'', ''axku5'', ''corejack_axku5_wrap.sv''])"
proof -
  have c: "board_cores_check sample ''axku5'' (bi_cores axku5_info) = Inr ()"
    by (simp add: board_cores_check_def axku5_info_def core_names read_text_def core_file core_boards)
  show ?thesis using sample_binfo sample_top sample_refs sample_brules sample_uart c
    by (simp add: board_checked_def is_file_def read_text_def board_file)
qed


definition sample_config :: config where
  "sample_config =
     [(''CORE_TYPE'', ''0''), (''CORE_INTEGRATION'', ''socket_region''), (''SIM_FUSESOC_TARGET'', ''sw-sim''),
      (''FUSESOC_CORE_FLAG'', ''core_ibex''), (''FUSESOC_CORE_FLAGS'', ''core_ibex core_region''),
      (''FUSESOC_BOARD_FLAG'', ''board_axku5''), (''FUSESOC_FLAGS'', ''core_ibex core_region board_axku5''),
      (''FPGA_TOP'', ''corejack_axku5_wrap''), (''FPGA_TARGET'', ''fpga''),
      (''FPGA_WORK_ROOT'', ''/repo/build/axku5/ibex''), (''JTAG_ADAPTER'', ''tigard''), (''MARCH'', ''rv32imcb''),
      (''MABI'', ''ilp32''), (''TOOLCHAIN'', ''riscv-multilib''), (''ZEPHYR_STATUS'', ''initial_supported''),
      (''SOC_CLK_HZ'', ''25000000''), (''UART_BAUD'', ''115200''), (''SOC_RAM_BYTES'', ''0x80000''),
      (''RAM_WORDS'', ''131072'')]"

lemma sample_config: "target_config sample ''ibex'' ''axku5'' core_text board_text = Inr sample_config"
proof -
  have w: "resolve_under sample ''build/axku5/ibex'' = ''/repo/build/axku5/ibex''"
    by (simp add: resolve_under_def path_str_def path_join_def components_def split_on_def)
  have "digit_char 0 = CHR ''0''" "digit_char (Suc 0) = CHR ''1''" "digit_char 2 = CHR ''2''"
    "digit_char 3 = CHR ''3''" "digit_char 7 = CHR ''7''" by code_simp+
  then have "py_str 131072 = ''131072''" by (simp add: py_str_def in_base.simps)
  then have r: "ram_words_text ''0x80000'' = Inr ''131072''" by (simp add: ram_words_text_def sample_ints)
  have i: "platform_integration core_text = Inr ''socket_region''"
    "fusesoc_core_flags core_text = Inr [''core_ibex'', ''core_region'']"
    by (simp_all add: platform_integration_def fusesoc_core_flags_def core_eval PLATFORM_INTEGRATIONS_def)
  show ?thesis
    by (simp add: target_config_def sample_flag i)
      (simp add: require_scalar_def core_scalar board_scalar zephyr_status_def, simp add: ylookup_def ibex_tree_def axku5_tree_def axku5_with_def
        sample_templates w r sample_config_def Let_def)
qed

lemma sample_loaded: "load_descriptors sample ''ibex'' ''axku5'' = Inr (core_text, board_text)"
  using core_file board_file by (simp add: load_descriptors_def is_file_def read_text_def)

lemma sample_status: "integration_status core_text ''fpga'' = ''supported''" "integration_status core_text ''sim'' = ''supported''"
  "integration_status core_text ''debug'' = ''supported''"
  by (simp_all add: integration_status_def core_scalar ylookup_def ibex_tree_def)

section \<open>Witnesses\<close>

lemma sample_core_check: "core_check sample ''ibex'' False = ([], Inr ())"
  by (simp add: core_check_def ibex_checked emit_def)

lemma sample_board_check: "board_check sample ''axku5'' False = ([], Inr ())"
  by (simp add: board_check_def axku5_checked emit_def)

lemma sample_compatible: "is_compatible ''ibex'' ''axku5'' core_text board_text flow True = (True, [])"
  if "flow \<in> set FLOWS"
  using that sample_status
  by (auto simp: is_compatible_def core_boards board_cores FLOWS_def SUPPORTED_STATUS_def Let_def)

lemma sample_list: "snd (list_targets sample) = Inr ()"
proof -
  have c: "is_compatible ''ibex'' ''axku5'' core_text board_text ''fpga'' True = (True, [])"
    by (rule sample_compatible) (simp add: FLOWS_def)
  have l: "\<exists>l. combo_line ''ibex'' ''axku5'' core_text sample_config = Inr l"
    by (simp add: combo_line_def config_fields_def combo_fields_def config_get_def sample_config_def)
  show ?thesis using l
    by (auto simp: list_targets_def core_names board_names sample_loaded c sample_config res_simps listed_def)
qed

theorem target_config_consistent_witness:
  "\<exists>ram n core_flag flags flag integ. map_of sample_config ''SOC_RAM_BYTES'' = Some ram \<and> py_int0 ram = Some n \<and>
    Option.bind (map_of sample_config ''RAM_WORDS'') py_int0 = Some (n div 4) \<and>
    map_of sample_config ''FUSESOC_CORE_FLAG'' = Some core_flag \<and>
    map_of sample_config ''FUSESOC_CORE_FLAGS'' = Some flags \<and> map_of sample_config ''FUSESOC_BOARD_FLAG'' = Some flag \<and>
    map_of sample_config ''FUSESOC_FLAGS'' = Some (flags @ '' '' @ flag) \<and> list_all is_key flag \<and>
    map_of sample_config ''CORE_INTEGRATION'' = Some integ \<and> integ \<in> set PLATFORM_INTEGRATIONS \<and>
    flags = core_flag @ (if integ = ''socket_region'' then '' core_region'' else [])"
  by (rule target_config_consistent [OF sample_config])

theorem list_targets_agrees_witness:
  "(snd (validate sample ''ibex'' ''axku5'' True False True ''fpga'') = Inr () \<and>
      (\<exists>l\<in>set (fst (list_targets sample)). prefix ''  ibex/axku5: sim_target='' l)) \<or>
    (\<exists>reason. snd (validate sample ''ibex'' ''axku5'' True False True ''fpga'') =
        Inl (Exit (core_label ''ibex'' @ '' and '' @ board_label ''axku5'' @ '' are not compatible ('' @ reason @ '')'')) \<and>
      ''  ibex/axku5: '' @ reason \<in> set (fst (list_targets sample)))"
  using list_targets_agrees [OF sample_list, of "''ibex''" "''axku5''" True False]
  by (simp add: core_names board_names)


text \<open>A board whose work root has a field that is not an argument.\<close>

lemma odd_work_root:
  defines "t \<equiv> unlines (ydoc 0 (axku5_with ''build/{user}''))"
  shows "target_config sample ''ibex'' ''axku5'' core_text t = Inl (Raise (KeyError ''user''))"
proof -
  have "ywf (\<lambda>v. unquote_ends v = v) (axku5_with ''build/{user}'')" by code_simp
  from validate_reader.read_doc [OF this]
  have sc: "yaml_path_scalar t path = ylookup (axku5_with ''build/{user}'') path" for path
    unfolding t_def .
  have k: "re_fullmatch flag_rx ''board_axku5''"
    "format_kw (target_args ''ibex'' ''axku5'') ''build/{user}'' = Inl (Raise (KeyError ''user''))"
    by code_simp+
  have i: "platform_integration core_text = Inr ''socket_region''"
    "fusesoc_core_flags core_text = Inr [''core_ibex'', ''core_region'']"
    by (simp_all add: platform_integration_def fusesoc_core_flags_def core_eval PLATFORM_INTEGRATIONS_def)
  show ?thesis
    by (simp add: target_config_def i fusesoc_board_flag_def)
      (simp add: require_scalar_def core_scalar sc zephyr_status_def, simp add: ylookup_def ibex_tree_def axku5_with_def
        sample_templates k ram_words_text_def sample_ints Let_def)
qed

theorem target_config_key_error_witness:
  "\<exists>key t. yaml_path_scalar (unlines (ydoc 0 (axku5_with ''build/{user}''))) [''fpga'', key] = Some t \<and>
    format_kw (target_args ''ibex'' ''axku5'') t = Inl (Raise (KeyError ''user'')) \<and>
    (key = ''work_root'' \<or>
     key \<in> {''top_template'', ''target''} \<and> (\<exists>what. template_check what t = Inr ()) \<and> nested_template t)"
  by (rule target_config_key_error [OF odd_work_root])

lemma sample_target: "snd (target_check sample ''axku5'') = Inr ()"
proof -
  have c: "is_compatible ''ibex'' ''axku5'' core_text board_text flow False = (True, [])" if "flow \<in> set FLOWS" for flow
    using that sample_status
    by (auto simp: is_compatible_def core_boards board_cores FLOWS_def SUPPORTED_STATUS_def Let_def)
  have l: "\<exists>l. config_fields sample_config target_fields = Inr l"
    by (simp add: config_fields_def target_fields_def config_get_def sample_config_def)
  have f: "mapr (flow_check ''ibex'' ''axku5'' core_text board_text) FLOWS = Inr [''sim:supported'', ''fpga:supported'', ''debug:supported'']"
    using c sample_status by (simp add: FLOWS_def flow_check_def SUPPORTED_STATUS_def)
  have "snd (target_core_check sample ''axku5'' ''ibex'') = Inr ()"
    using l by (auto simp: target_core_check_def res_simps sample_core_check sample_loaded sample_config f)
  then show ?thesis
    by (simp add: target_check_def is_file_def read_text_def board_file board_cores res_simps sample_board_check Let_def)
qed

theorem target_check_sound_witness:
  "snd (core_check sample ''ibex'' True) = Inr () \<and>
    (\<exists>core_text. lookup_file sample (descriptor_path (CORE_DIR sample) ''ibex'') = Some core_text \<and>
      (integration_status core_text ''sim'' = ''supported'' \<longrightarrow>
       snd (validate sample ''ibex'' ''axku5'' False True False ''sim'') = Inr ()))"
  by (rule target_check_sound [OF sample_target board_file]) (simp add: board_cores)

theorem flow_check_passes_witness:
  "flow_check ''ibex'' ''axku5'' core_text board_text ''sim'' = Inr (''sim'' @ '':'' @ integration_status core_text ''sim'')"
  by (rule flow_check_passes [OF sample_board_check sample_loaded]) (simp add: board_cores)

theorem core_check_isa_witness:
  "\<exists>ct ci. core_checked sample ''ibex'' = Inr (ct, ci) \<and>
    (\<exists>x. yaml_path_scalar ct [''isa'', ''xlen''] = Some x \<and> py_int0 x = Some (ci_xlen ci)) \<and>
    yaml_path_scalar ct [''isa'', ''march''] = Some (ci_march ci) \<and>
    yaml_path_scalar ct [''isa'', ''mabi''] = Some (ci_mabi ci) \<and>
    (ci_xlen ci = 32 \<and> prefix ''rv32'' (ci_march ci) \<and> prefix ''ilp32'' (ci_mabi ci) \<or>
     ci_xlen ci = 64 \<and> prefix ''rv64'' (ci_march ci) \<and> prefix ''lp64'' (ci_mabi ci)) \<and>
    (\<exists>m. yaml_path_scalar ct [''reset'', ''mtvec_addr''] = Some m \<and> py_int0 m = Some (ci_mtvec_addr ci)) \<and> 4 dvd ci_mtvec_addr ci"
  using core_check_isa [OF sample_core_check] by blast

theorem core_check_unique_type_witness:
  "\<exists>t vals. platform_core_type_values sample = Inr vals \<and> map_of vals (expected_core_enum_name ''ibex'') = Some t"
  using core_check_unique_type [OF sample_core_check] by blast

theorem board_check_ram_witness:
  "\<exists>n k. py_int0 ''0x80000'' = Some n \<and> 0 < n \<and> 1 \<le> k \<and> mem_num_banks sample = Inr (2 ^ k) \<and>
    8 * 2 ^ k * ((n div 8) div 2 ^ k) = n"
  by (rule board_check_ram [OF sample_board_check board_file])
    (simp add: board_scalar ylookup_def axku5_tree_def axku5_with_def)

theorem mem_num_banks_exact_witness: "mem_num_banks sample = Inr 4 \<longleftrightarrow> (\<exists>k\<ge>1. (4 :: int) = 2 ^ k)"
proof -
  let ?t = "unlines [''  localparam int unsigned MemNumBanksDefault = 4;'']"
  have "is_file sample (MEM_SS_PKG sample)" "lookup_file sample (MEM_SS_PKG sample) = Some ?t"
    by (simp_all add: sample_def lookup_file_def is_file_def MEM_SS_PKG_def)
  moreover have "re_search mem_banks_rx ?t = Some [(''1'', ''4'')]"
    "py_int10 (replace_all ''_'' [] (group ''1'' [(''1'', ''4'')])) = Some 4" by code_simp+
  ultimately show ?thesis by (rule mem_num_banks_exact)
qed

end
