(* ===== verification/Uart_Loader.thy ===== *)
theory Uart_Loader
  imports Py_Int "HOL-Library.Word"
begin

text \<open>
  The host side of the UART SRAM loader, \<^verbatim>\<open>src/bin/uart_sram_load.py\<close>, and the device it
  talks to, the command state machine of \<^verbatim>\<open>src/rtl/platform/soc_uart_sram_loader.sv\<close> at the
  level of received and sent bytes. The operating system behind the serial port is a trace of its
  answers for \<^verbatim>\<open>write_all\<close> and \<^verbatim>\<open>read_byte\<close>; the commands that use the port are
  written against its operations, whose contract is the locale \<open>loader_link\<close>.
\<close>

unbundle bit_operations_syntax

type_synonym byte = "8 word"

section \<open>The serial port\<close>

definition BAUD_RATES :: "int list" where
  "BAUD_RATES = [9600, 19200, 38400, 57600, 115200, 230400, 460800, 921600]"

definition baud_check :: "int \<Rightarrow> unit res" where
  "baud_check baud =
     (if baud \<notin> set BAUD_RATES
      then Inl (Raise (ValueError (''unsupported baud '' @ py_str baud @ ''; supported: '' @
             join '', '' (map py_str (sort BAUD_RATES)))))
      else Inr ())"

text \<open>
  \<^verbatim>\<open>write_all\<close> over the answers of \<^verbatim>\<open>select\<close> (\<open>None\<close>: not writable in time) and of
  \<^verbatim>\<open>os.write\<close> (how many bytes it would take): the bytes sent, the rest of the data, and the
  end of the call, or \<open>None\<close> when it still waits for an answer.
\<close>

fun write_all_os :: "nat option list \<Rightarrow> byte list \<Rightarrow> byte list \<times> byte list \<times> unit res option" where
  "write_all_os answers [] = ([], [], Some (Inr ()))"
| "write_all_os [] (b # bs) = ([], b # bs, None)"
| "write_all_os (None # answers) (b # bs) =
     ([], b # bs, Some (Inl (Raise (TimeoutError ''timed out waiting for UART write readiness''))))"
| "write_all_os (Some k # answers) (b # bs) =
     (case write_all_os answers (drop k (b # bs)) of
        (sent, rest, r) \<Rightarrow> (take k (b # bs) @ sent, rest, r))"

text \<open>
  \<^verbatim>\<open>read_byte\<close> over the rounds of its loop: the clock when the round starts, whether
  \<^verbatim>\<open>select\<close> found the port readable, and what \<^verbatim>\<open>os.read\<close> then gave.
\<close>

fun read_byte_os :: "int \<Rightarrow> (int \<times> bool \<times> byte option) list \<Rightarrow> byte res option" where
  "read_byte_os deadline [] = None"
| "read_byte_os deadline ((now, readable, data) # rounds) =
     (if deadline - now \<le> 0 then Some (Inl (Raise (TimeoutError ''timed out waiting for UART response'')))
      else if \<not> readable then read_byte_os deadline rounds
      else (case data of None \<Rightarrow> read_byte_os deadline rounds | Some b \<Rightarrow> Some (Inr b)))"

text \<open>\<^verbatim>\<open>read_available_until\<close> over the same kind of rounds, where \<^verbatim>\<open>os.read\<close> gives any number of bytes.\<close>

fun read_available_os :: "int \<Rightarrow> (int \<times> bool \<times> byte list) list \<Rightarrow> byte list \<Rightarrow> byte list option" where
  "read_available_os deadline [] chunks = None"
| "read_available_os deadline ((now, readable, data) # rounds) chunks =
     (if deadline - now \<le> 0 then Some chunks
      else if \<not> readable then read_available_os deadline rounds chunks
      else read_available_os deadline rounds (chunks @ data))"

section \<open>Commands of the host\<close>

record 'p port_ops =
  write_all :: "byte list \<Rightarrow> 'p \<Rightarrow> 'p \<times> unit res"
  read_byte :: "'p \<Rightarrow> 'p \<times> byte res"
  read_available_until :: "'p \<Rightarrow> 'p \<times> byte list"
  close :: "'p \<Rightarrow> 'p"

definition ACK :: byte where
  "ACK = 0x06"

definition NAK :: byte where
  "NAK = 0x15"

definition expect_ack :: "'p port_ops \<Rightarrow> string \<Rightarrow> 'p \<Rightarrow> 'p \<times> unit res" where
  "expect_ack ops ctx p =
     then_do (read_byte ops p) (\<lambda>v p.
       if v = ACK then (p, Inr ())
       else if v = NAK then (p, Inl (Raise (RuntimeError (ctx @ '': loader returned NAK''))))
       else (p, Inl (Raise (RuntimeError (ctx @ '': expected ACK 0x06, got 0x'' @ py_hex_pad 2 (uint v))))))"

text \<open>\<^verbatim>\<open>n.to_bytes(k, byteorder="little", signed=False)\<close>\<close>

definition byte_of :: "nat \<Rightarrow> int \<Rightarrow> byte" where
  "byte_of i n = word_of_int (n div 2 ^ (8 * i))"

definition to_bytes :: "nat \<Rightarrow> int \<Rightarrow> byte list res" where
  "to_bytes k n =
     (if 0 \<le> n \<and> n < 2 ^ (8 * k) then Inr (map (\<lambda>i. byte_of i n) [0..<k]) else Inl (Raise OverflowError))"

definition write_packet :: "int \<Rightarrow> byte list \<Rightarrow> byte list res" where
  "write_packet addr payload =
     bindr (to_bytes 4 addr) (\<lambda>a. bindr (to_bytes 2 (int (length payload))) (\<lambda>l.
       Inr (0x57 # a @ l @ payload)))"

definition write_chunk :: "'p port_ops \<Rightarrow> int \<Rightarrow> byte list \<Rightarrow> 'p \<Rightarrow> 'p \<times> unit res" where
  "write_chunk ops addr payload p =
     (if payload = [] then (p, Inr ())
      else if 0xFFFF < length payload then (p, Inl (Raise (ValueError ''payload chunk exceeds protocol limit'')))
      else (case write_packet addr payload of
              Inl e \<Rightarrow> (p, Inl e)
            | Inr packet \<Rightarrow>
                then_do (write_all ops packet p) (\<lambda>_.
                expect_ack ops (''write 0x'' @ py_hex_pad 8 addr @ ''+0x'' @ py_hex (int (length payload))))))"

text \<open>\<^verbatim>\<open>range(0, n, step)\<close> for a positive step, and the loop over the chunks.\<close>

definition py_range :: "nat \<Rightarrow> nat \<Rightarrow> nat list" where
  "py_range n step = map (\<lambda>i. i * step) [0..<(n + step - 1) div step]"

fun load_chunks :: "'p port_ops \<Rightarrow> int \<Rightarrow> byte list \<Rightarrow> nat \<Rightarrow> nat list \<Rightarrow> 'p \<Rightarrow> 'p \<times> unit res" where
  "load_chunks ops addr img chunk [] p = (p, Inr ())"
| "load_chunks ops addr img chunk (offset # offsets) p =
     then_do (write_chunk ops (addr + int offset) (take chunk (drop offset img)) p)
       (\<lambda>_. load_chunks ops addr img chunk offsets)"

record load_args =
  la_bin :: string
  la_baud :: int
  la_addr :: int
  la_chunk_size :: int
  la_no_go :: bool
  la_capture :: bool
  la_expect :: "string list"

text \<open>What is printed, before the state and the end of the run.\<close>

type_synonym 'p session = "string list \<times> 'p \<times> unit res"

definition session_do :: "'p \<times> 'a res \<Rightarrow> ('p \<Rightarrow> 'a \<Rightarrow> 'p session) \<Rightarrow> 'p session" where
  "session_do m k = (case m of (p, Inl e) \<Rightarrow> ([], p, Inl e) | (p, Inr x) \<Rightarrow> k p x)"

definition session_print :: "string list \<Rightarrow> 'p session \<Rightarrow> 'p session" where
  "session_print ls s = (case s of (out, p, r) \<Rightarrow> (ls @ out, p, r))"

text \<open>Captured output is decoded when it is ASCII.\<close>

definition decode_ascii :: "byte list \<Rightarrow> string res" where
  "decode_ascii bs =
     (if list_all (\<lambda>b. b < 128) bs then Inr (map (\<lambda>b. char_of (unat b)) bs)
      else Inl (Raise (Unmodelled ''captured bytes beyond ASCII'')))"

definition capture :: "'p port_ops \<Rightarrow> load_args \<Rightarrow> 'p \<Rightarrow> 'p session" where
  "capture ops args p =
     (if \<not> la_capture args then ([], p, Inr ())
      else (case read_available_until ops p of
              (p, captured) \<Rightarrow>
                session_do (p, decode_ascii captured) (\<lambda>p text.
                session_print (if text = [] then [] else [if last text = NL then butlast text else text])
                  ([], p, case filter (\<lambda>expected. \<not> contains expected text) (la_expect args) of
                           [] \<Rightarrow> Inr ()
                         | expected # _ \<Rightarrow>
                             Inl (Raise (RuntimeError (''expected UART text not found: '' @ py_repr expected)))))))"

definition load_session :: "'p port_ops \<Rightarrow> load_args \<Rightarrow> byte list \<Rightarrow> 'p \<Rightarrow> 'p session" where
  "load_session ops args img p =
     session_do (then_do (write_all ops [0x3F] p) (\<lambda>_. expect_ack ops ''ping'')) (\<lambda>p _.
     session_do (load_chunks ops (la_addr args) img (nat (la_chunk_size args))
                   (py_range (length img) (nat (la_chunk_size args))) p) (\<lambda>p _.
     session_print [''Loaded '' @ py_str (int (length img)) @ '' bytes at 0x'' @ py_hex_pad 8 (la_addr args)] (
     if la_no_go args then capture ops args p
     else session_do (then_do (write_all ops [0x47] p) (\<lambda>_. expect_ack ops ''release'')) (\<lambda>p _.
          session_print [''Released core''] (capture ops args p)))))"

text \<open>
  \<^verbatim>\<open>main\<close> after the parser: \<open>img\<close> is the content of the image file, if there is one, and
  \<open>p\<close> the port that \<^verbatim>\<open>SerialPort\<close> opens. The port is closed however the session ends.
\<close>

definition load_main :: "'p port_ops \<Rightarrow> load_args \<Rightarrow> byte list option \<Rightarrow> 'p \<Rightarrow> 'p session" where
  "load_main ops args bin p =
     (case bin of
        None \<Rightarrow> ([], p, Inl (Exit (''binary image not found: '' @ la_bin args)))
      | Some img \<Rightarrow>
          if la_chunk_size args \<le> 0 \<or> 0xFFFF < la_chunk_size args
          then ([], p, Inl (Exit ''--chunk-size must be in the range 1..65535''))
          else session_do (p, baud_check (la_baud args)) (\<lambda>p _.
               case load_session ops args img p of (out, p, r) \<Rightarrow> (out, close ops p, r)))"

section \<open>The device\<close>

datatype state_e = StateIdle | StateAddr0 | StateAddr1 | StateAddr2 | StateAddr3 | StateLen0 | StateLen1
  | StateData | StateReleased

text \<open>
  The registers of the command state machine. \<open>'m\<close> is the memory behind it, a parameter like
  the write port that gives the new memory and the error bit; the states for the memory handshake
  and for sending the response are passed through within one step.
\<close>

record 'm loader =
  state_q :: state_e
  addr_q :: "32 word"
  len_q :: "16 word"
  mem_error_q :: bool
  memory :: 'm

definition set_byte32 :: "nat \<Rightarrow> byte \<Rightarrow> 32 word \<Rightarrow> 32 word" where
  "set_byte32 k b a = (a AND NOT (push_bit (8 * k) 0xFF)) OR push_bit (8 * k) (ucast b)"

definition set_byte16 :: "nat \<Rightarrow> byte \<Rightarrow> 16 word \<Rightarrow> 16 word" where
  "set_byte16 k b a = (a AND NOT (push_bit (8 * k) 0xFF)) OR push_bit (8 * k) (ucast b)"

type_synonym 'm mem_port = "32 word \<Rightarrow> byte \<Rightarrow> 'm \<Rightarrow> 'm \<times> bool"

text \<open>A data byte: the write, and the response after the last byte of the command.\<close>

definition data_byte :: "'m mem_port \<Rightarrow> 'm loader \<Rightarrow> byte \<Rightarrow> 'm loader \<times> byte list" where
  "data_byte wr l b =
     (case wr (addr_q l) b (memory l) of
        (m, err) \<Rightarrow>
          (let e = (mem_error_q l \<or> err);
               l' = l\<lparr>memory := m, mem_error_q := e, addr_q := addr_q l + 1, len_q := len_q l - 1\<rparr>
           in if len_q l = 1 then (l'\<lparr>state_q := StateIdle, mem_error_q := False\<rparr>, [if e then NAK else ACK])
              else (l'\<lparr>state_q := StateData\<rparr>, [])))"

fun rx_step :: "'m mem_port \<Rightarrow> 'm loader \<Rightarrow> byte \<Rightarrow> 'm loader \<times> byte list" where
  "rx_step wr l b =
     (case state_q l of
        StateIdle \<Rightarrow>
          if b = 0x3F then (l\<lparr>mem_error_q := False\<rparr>, [ACK])
          else if b = 0x47 then (l\<lparr>mem_error_q := False, state_q := StateReleased\<rparr>, [ACK])
          else if b = 0x57 then (l\<lparr>mem_error_q := False, state_q := StateAddr0\<rparr>, [])
          else (l\<lparr>mem_error_q := False\<rparr>, [NAK])
      | StateAddr0 \<Rightarrow> (l\<lparr>addr_q := set_byte32 0 b (addr_q l), state_q := StateAddr1\<rparr>, [])
      | StateAddr1 \<Rightarrow> (l\<lparr>addr_q := set_byte32 1 b (addr_q l), state_q := StateAddr2\<rparr>, [])
      | StateAddr2 \<Rightarrow> (l\<lparr>addr_q := set_byte32 2 b (addr_q l), state_q := StateAddr3\<rparr>, [])
      | StateAddr3 \<Rightarrow> (l\<lparr>addr_q := set_byte32 3 b (addr_q l), state_q := StateLen0\<rparr>, [])
      | StateLen0 \<Rightarrow> (l\<lparr>len_q := set_byte16 0 b (len_q l), state_q := StateLen1\<rparr>, [])
      | StateLen1 \<Rightarrow>
          (let n = set_byte16 1 b (len_q l)
           in if n = 0 then (l\<lparr>len_q := n, state_q := StateIdle\<rparr>, [ACK])
              else (l\<lparr>len_q := n, state_q := StateData\<rparr>, []))
      | StateData \<Rightarrow> data_byte wr l b
      | StateReleased \<Rightarrow> (l, []))"

fun feed :: "'m mem_port \<Rightarrow> byte list \<Rightarrow> 'm loader \<Rightarrow> 'm loader \<times> byte list" where
  "feed wr [] l = (l, [])"
| "feed wr (b # bs) l =
     (case rx_step wr l b of (l', out) \<Rightarrow> (case feed wr bs l' of (l'', out') \<Rightarrow> (l'', out @ out')))"

text \<open>The watchdog: a host that falls silent within a command gets a NAK, and the device is idle again.\<close>

definition host_timeout :: "'m loader \<Rightarrow> 'm loader \<times> byte list" where
  "host_timeout l =
     (if state_q l = StateIdle \<or> state_q l = StateReleased then (l, [])
      else (l\<lparr>state_q := StateIdle, mem_error_q := False\<rparr>, [NAK]))"

section \<open>Packets\<close>

lemma bit_byte_of: "bit (byte_of i n) k \<longleftrightarrow> k < 8 \<and> bit n (8 * i + k)"
  by (simp add: byte_of_def bit_word_of_int_iff drop_bit_eq_div [symmetric] bit_drop_bit_eq)

lemma bit_set_byte32:
  "bit (set_byte32 i b a) k \<longleftrightarrow> k < 32 \<and> (if 8 * i \<le> k \<and> k < 8 * i + 8 then bit b (k - 8 * i) else bit a k)"
proof -
  have m: "(0xFF :: 32 word) = mask 8" by (simp add: mask_eq_exp_minus_1)
  have "8 \<le> j \<Longrightarrow> \<not> bit b j" for j using bit_imp_le_length [of b j] by auto
  then show ?thesis unfolding set_byte32_def m
    by (cases "k < 32") (auto simp: bit_simps)
qed

lemma bit_set_byte16:
  "bit (set_byte16 i b a) k \<longleftrightarrow> k < 16 \<and> (if 8 * i \<le> k \<and> k < 8 * i + 8 then bit b (k - 8 * i) else bit a k)"
proof -
  have m: "(0xFF :: 16 word) = mask 8" by (simp add: mask_eq_exp_minus_1)
  have "8 \<le> j \<Longrightarrow> \<not> bit b j" for j using bit_imp_le_length [of b j] by auto
  then show ?thesis unfolding set_byte16_def m
    by (cases "k < 16") (auto simp: bit_simps)
qed

lemma addr_bytes:
  "set_byte32 3 (byte_of 3 n) (set_byte32 2 (byte_of 2 n) (set_byte32 1 (byte_of 1 n) (set_byte32 0 (byte_of 0 n) a)))
     = word_of_int n"
proof (rule bit_word_eqI)
  fix k assume "k < LENGTH(32)"
  then have "k < 32" by simp
  then show "bit (set_byte32 3 (byte_of 3 n) (set_byte32 2 (byte_of 2 n) (set_byte32 1 (byte_of 1 n) (set_byte32 0 (byte_of 0 n) a)))) k
      = bit (word_of_int n :: 32 word) k"
    by (auto simp: bit_set_byte32 bit_byte_of bit_word_of_int_iff)
qed

lemma len_bytes:
  "set_byte16 1 (byte_of 1 n) (set_byte16 0 (byte_of 0 n) a) = word_of_int n"
proof (rule bit_word_eqI)
  fix k assume "k < LENGTH(16)"
  then have "k < 16" by simp
  then show "bit (set_byte16 1 (byte_of 1 n) (set_byte16 0 (byte_of 0 n) a)) k = bit (word_of_int n :: 16 word) k"
    by (auto simp: bit_set_byte16 bit_byte_of bit_word_of_int_iff)
qed

section \<open>A write command on the device\<close>

text \<open>Writing bytes one after the other, with the error bit collected.\<close>

fun write_run :: "'m mem_port \<Rightarrow> 32 word \<Rightarrow> byte list \<Rightarrow> 'm \<times> bool \<Rightarrow> 'm \<times> bool" where
  "write_run wr a [] me = me"
| "write_run wr a (b # bs) (m, e) = (case wr a b m of (m', e') \<Rightarrow> write_run wr (a + 1) bs (m', e \<or> e'))"

lemma write_run_append:
  "write_run wr a (xs @ ys) me = write_run wr (a + of_nat (length xs)) ys (write_run wr a xs me)"
proof (induction wr a xs me rule: write_run.induct)
  case (2 wr a b bs m e)
  then show ?case by (cases "wr a b m") (simp add: add.assoc add.commute add.left_commute)
qed simp

lemma write_run_sticky: "snd me \<Longrightarrow> snd (write_run wr a bs me)"
  by (induction wr a bs me rule: write_run.induct) (auto split: prod.splits)

lemma feed_data:
  assumes "state_q l = StateData" "bs \<noteq> []" "length bs = unat (len_q l)"
  shows "\<exists>l' m e. feed wr bs l = (l', [if e then NAK else ACK]) \<and> state_q l' = StateIdle \<and> memory l' = m \<and>
    \<not> mem_error_q l' \<and> write_run wr (addr_q l) bs (memory l, mem_error_q l) = (m, e)"
  using assms
proof (induction bs arbitrary: l)
  case (Cons b bs)
  obtain m e where wr: "wr (addr_q l) b (memory l) = (m, e)" by fastforce
  let ?l = "l\<lparr>memory := m, mem_error_q := mem_error_q l \<or> e, addr_q := addr_q l + 1, len_q := len_q l - 1\<rparr>"
  show ?case
  proof (cases "bs = []")
    case True
    with Cons.prems have "unat (len_q l) = 1" by simp
    then have "len_q l = 1" by (metis unat_1 word_unat_eq_iff)
    with True Cons.prems(1) wr show ?thesis by (simp add: data_byte_def Let_def)
  next
    case False
    with Cons.prems have u: "unat (len_q l) = Suc (length bs)" "length bs \<noteq> 0" by auto
    then have n1: "len_q l \<noteq> 1" by (metis One_nat_def Suc_inject unat_1)
    have "len_q l \<noteq> 0" using u by auto
    then have "unat (len_q l - 1) = length bs" using u by (simp add: unat_minus_one)
    moreover have "rx_step wr l b = (?l\<lparr>state_q := StateData\<rparr>, [])"
      using Cons.prems(1) wr n1 by (simp add: data_byte_def Let_def)
    ultimately show ?thesis using Cons.IH [of "?l\<lparr>state_q := StateData\<rparr>"] False wr by auto
  qed
qed simp

lemma feed_append:
  "feed wr (xs @ ys) l = (case feed wr xs l of (l', o1) \<Rightarrow> (case feed wr ys l' of (l'', o2) \<Rightarrow> (l'', o1 @ o2)))"
  by (induction wr xs l rule: feed.induct) (auto split: prod.splits)

lemma to_bytes_ok: "to_bytes k n = Inr bs \<longleftrightarrow> 0 \<le> n \<and> n < 2 ^ (8 * k) \<and> bs = map (\<lambda>i. byte_of i n) [0..<k]"
  by (auto simp: to_bytes_def)

lemma write_packet_ok:
  "write_packet addr payload = Inr packet \<longleftrightarrow> 0 \<le> addr \<and> addr < 2 ^ 32 \<and> length payload < 2 ^ 16 \<and>
     packet = 0x57 # map (\<lambda>i. byte_of i addr) [0..<4] @ map (\<lambda>i. byte_of i (int (length payload))) [0..<2] @ payload"
  by (auto simp: write_packet_def bindr_eq_Inr to_bytes_ok)

lemma feed_packet:
  assumes "state_q l = StateIdle" "write_packet addr payload = Inr packet" "payload \<noteq> []"
  shows "\<exists>l' m e. feed wr packet l = (l', [if e then NAK else ACK]) \<and> state_q l' = StateIdle \<and> memory l' = m \<and>
    write_run wr (word_of_int addr) payload (memory l, False) = (m, e)"
proof -
  let ?n = "int (length payload)"
  let ?h = "0x57 # map (\<lambda>i. byte_of i addr) [0..<4] @ map (\<lambda>i. byte_of i ?n) [0..<2]"
  let ?l = "l\<lparr>state_q := StateData, addr_q := word_of_int addr, len_q := word_of_int ?n, mem_error_q := False\<rparr>"
  from assms(2) have p: "packet = ?h @ payload" "length payload < 2 ^ 16" by (simp_all add: write_packet_ok)
  have u: "unat (word_of_int ?n :: 16 word) = length payload" using p(2) by (simp add: unat_of_nat take_bit_nat_eq_self)
  then have "(word_of_int ?n :: 16 word) \<noteq> 0" using assms(3) by (metis length_0_conv unat_0)
  moreover have "[0..<4] = [0, 1, 2, 3 :: nat]" "[0..<2] = [0, 1 :: nat]" by (simp_all add: upt_rec)
  ultimately have h: "feed wr ?h l = (?l, [])"
    using assms(1) by (simp add: addr_bytes [unfolded One_nat_def] len_bytes [unfolded One_nat_def] Let_def)
  from feed_data [of ?l payload wr] obtain l' m e where "feed wr payload ?l = (l', [if e then NAK else ACK])"
    "state_q l' = StateIdle" "memory l' = m" "write_run wr (word_of_int addr) payload (memory l, False) = (m, e)"
    using assms(3) u by auto
  with h show ?thesis unfolding p(1) feed_append by auto
qed

lemma chunk_count_covers:
  fixes n c :: nat
  assumes "0 < c"
  shows "n \<le> (n + c - 1) div c * c"
  using dividend_less_div_times [OF assms, of "n + c - 1"] by linarith

lemma chunk_starts_inside:
  fixes n c :: nat
  assumes "j < (n + c - 1) div c"
  shows "j * c < n"
proof -
  have "Suc j * c \<le> (n + c - 1) div c * c" using assms by (intro mult_le_mono1) simp
  also have "\<dots> \<le> n + c - 1" by (rule div_times_less_eq_dividend)
  finally have "j * c + c \<le> n + c - 1" by simp
  moreover have "0 < c" using assms by (cases c) auto
  ultimately show ?thesis by linarith
qed

section \<open>The contract of the link\<close>

text \<open>
  What the host relies on: bytes written reach the device in order and its responses queue up;
  a byte read is the next response. \<open>dev\<close> and \<open>inq\<close> give the device and the queue behind a port.
\<close>

locale loader_link =
  fixes ops :: "'p port_ops"
    and wr :: "'m mem_port"
    and dev :: "'p \<Rightarrow> 'm loader"
    and inq :: "'p \<Rightarrow> byte list"
  assumes write_link: "\<exists>p'. write_all ops bs p = (p', Inr ()) \<and> dev p' = fst (feed wr bs (dev p)) \<and>
      inq p' = inq p @ snd (feed wr bs (dev p))"
    and read_link: "inq p = b # q \<Longrightarrow> \<exists>p'. read_byte ops p = (p', Inr b) \<and> dev p' = dev p \<and> inq p' = q"
    and close_link: "dev (close ops p) = dev p" "inq (close ops p) = inq p"
begin

lemma ask:
  assumes "inq p = []" "feed wr bs (dev p) = (l', [b])"
  shows "\<exists>p'. then_do (write_all ops bs p) (\<lambda>_. expect_ack ops ctx) =
      (p', if b = ACK then Inr ()
           else if b = NAK then Inl (Raise (RuntimeError (ctx @ '': loader returned NAK'')))
           else Inl (Raise (RuntimeError (ctx @ '': expected ACK 0x06, got 0x'' @ py_hex_pad 2 (uint b))))) \<and>
    dev p' = l' \<and> inq p' = []"
proof -
  obtain p1 where p1: "write_all ops bs p = (p1, Inr ())" "dev p1 = l'" "inq p1 = [b]"
    using write_link [of bs p] assms by auto
  obtain p2 where "read_byte ops p1 = (p2, Inr b)" "dev p2 = dev p1" "inq p2 = []"
    using read_link [OF p1(3)] by auto
  with p1 show ?thesis by (auto simp: then_do_def expect_ack_def)
qed

lemma chunk:
  assumes "inq p = []" "state_q (dev p) = StateIdle" "payload \<noteq> []" "length payload \<le> 0xFFFF"
    "0 \<le> addr" "addr < 2 ^ 32" "write_run wr (word_of_int addr) payload (memory (dev p), False) = (m, e)"
  shows "\<exists>p'. write_chunk ops addr payload p = (p', if e
        then Inl (Raise (RuntimeError (''write 0x'' @ py_hex_pad 8 addr @ ''+0x'' @ py_hex (int (length payload)) @
               '': loader returned NAK'')))
        else Inr ()) \<and>
    inq p' = [] \<and> state_q (dev p') = StateIdle \<and> memory (dev p') = m"
proof -
  from assms(4-6) obtain packet where pk: "write_packet addr payload = Inr packet"
    by (auto simp: write_packet_ok)
  from feed_packet [OF assms(2) pk assms(3), of wr] assms(7) obtain l' where
    l': "feed wr packet (dev p) = (l', [if e then NAK else ACK])" "state_q l' = StateIdle" "memory l' = m" by auto
  have "ACK \<noteq> NAK" by (simp add: ACK_def NAK_def)
  with ask [OF assms(1) l'(1), of "''write 0x'' @ py_hex_pad 8 addr @ ''+0x'' @ py_hex (int (length payload))"]
  show ?thesis using assms(3,4) l' by (auto simp: write_chunk_def pk)
qed

text \<open>The chunks from the \<open>j\<close>-th on, when no write fails.\<close>

lemma chunks:
  assumes "0 < c" "c \<le> 0xFFFF" "0 \<le> addr" "addr + int (length img) \<le> 2 ^ 32"
  defines "k \<equiv> (length img + c - 1) div c"
  shows "j \<le> k \<Longrightarrow> inq p = [] \<Longrightarrow> state_q (dev p) = StateIdle \<Longrightarrow>
    write_run wr (word_of_int addr + of_nat (j * c)) (drop (j * c) img) (memory (dev p), False) = (m, False) \<Longrightarrow>
    \<exists>p'. load_chunks ops addr img c (map (\<lambda>i. i * c) [j..<k]) p = (p', Inr ()) \<and>
      inq p' = [] \<and> state_q (dev p') = StateIdle \<and> memory (dev p') = m"
proof (induction "k - j" arbitrary: j p)
  case 0
  then have jk: "j = k" by simp
  have "length img \<le> k * c" unfolding k_def using assms(1) by (rule chunk_count_covers)
  then have "drop (j * c) img = []" by (simp add: jk)
  with 0 show ?case by (simp add: jk)
next
  case (Suc n)
  then have jk: "j < k" by simp
  let ?ch = "take c (drop (j * c) img)"
  have lt: "j * c < length img" using jk unfolding k_def by (rule chunk_starts_inside)
  have ne: "?ch \<noteq> []" using lt assms(1) by simp
  have up: "[j..<k] = j # [Suc j..<k]" using jk by (rule upt_conv_Cons)
  obtain m1 e1 where w1: "write_run wr (word_of_int addr + of_nat (j * c)) ?ch (memory (dev p), False) = (m1, e1)"
    by fastforce
  have len: "length ?ch = c \<or> drop (Suc j * c) img = []" by auto
  have sp: "drop (j * c) img = ?ch @ drop (Suc j * c) img"
    by (metis add.commute append_take_drop_id drop_drop mult_Suc)
  have w2: "write_run wr (word_of_int addr + of_nat (j * c) + of_nat (length ?ch)) (drop (Suc j * c) img) (m1, e1) = (m, False)"
    using Suc.prems(4) by (subst (asm) sp) (simp only: write_run_append w1)
  have e1: "\<not> e1" using write_run_sticky [of "(m1, e1)"] w2 by (metis snd_conv)
  have w3: "write_run wr (word_of_int (addr + int (j * c))) ?ch (memory (dev p), False) = (m1, False)"
    using w1 e1 by simp
  have a2: "addr + int (j * c) < 2 ^ 32" using lt assms(4) by linarith
  have a1: "0 \<le> addr + int (j * c)" using assms(3) by simp
  have lc: "length ?ch \<le> 0xFFFF" by (rule le_trans [OF _ assms(2)]) simp
  obtain p1 where p1: "write_chunk ops (addr + int (j * c)) ?ch p = (p1, Inr ())" "inq p1 = []"
    "state_q (dev p1) = StateIdle" "memory (dev p1) = m1"
    using chunk [OF Suc.prems(2,3) ne lc a1 a2 w3] by auto
  have "write_run wr (word_of_int addr + of_nat (Suc j * c)) (drop (Suc j * c) img) (memory (dev p1), False) = (m, False)"
    using w2 e1 len p1(4) by (auto simp: algebra_simps)
  moreover have "n = k - Suc j" using Suc.hyps(2) by simp
  ultimately obtain p' where
    "load_chunks ops addr img c (map (\<lambda>i. i * c) [Suc j..<k]) p1 = (p', Inr ())"
    "inq p' = []" "state_q (dev p') = StateIdle" "memory (dev p') = m"
    using Suc.hyps(1) [of "Suc j" p1] jk p1 by auto
  with p1(1) show ?case unfolding up by (auto simp: then_do_def)
qed

text \<open>Whatever happens to the chunks, the device is idle after them, and they only succeed at addresses of 32 bits.\<close>

lemma chunks_in_range:
  assumes "load_chunks ops addr img c offs p = (p', r)" "inq p = []" "state_q (dev p) = StateIdle"
  shows "inq p' = [] \<and> state_q (dev p') = StateIdle \<and>
    (r = Inr () \<longrightarrow> (\<forall>k\<in>set offs. take c (drop k img) = [] \<or> 0 \<le> addr + int k \<and> addr + int k < 2 ^ 32))"
  using assms
proof (induction offs arbitrary: p)
  case (Cons k offs)
  let ?a = "addr + int k" and ?ch = "take c (drop k img)"
  obtain p1 r1 where w: "write_chunk ops ?a ?ch p = (p1, r1)" by fastforce
  have w1: "inq p1 = [] \<and> state_q (dev p1) = StateIdle \<and> (r1 = Inr () \<longrightarrow> ?ch = [] \<or> 0 \<le> ?a \<and> ?a < 2 ^ 32)"
  proof (cases "?ch \<noteq> [] \<and> length ?ch \<le> 0xFFFF \<and> 0 \<le> ?a \<and> ?a < 2 ^ 32")
    case True
    obtain m e where "write_run wr (word_of_int ?a) ?ch (memory (dev p), False) = (m, e)" by fastforce
    from chunk [OF Cons.prems(2,3) _ _ _ _ this] True w show ?thesis by auto
  next
    case False
    then have "?ch = [] \<or> 0xFFFF < length ?ch \<or> write_packet ?a ?ch = Inl (Raise OverflowError)"
      by (auto simp: write_packet_def to_bytes_def)
    then have "p1 = p \<and> (r1 = Inr () \<longrightarrow> ?ch = [])" using w by (auto simp: write_chunk_def split: if_splits)
    then show ?thesis using Cons.prems(2,3) by simp
  qed
  show ?case
  proof (cases r1)
    case (Inl e)
    with Cons.prems(1) w have "p' = p1" "r = Inl e" by simp_all
    with w1 show ?thesis by simp
  next
    case (Inr u)
    with Cons.prems(1) w have "load_chunks ops addr img c offs p1 = (p', r)" by simp
    from Cons.IH [OF this] w1 Inr show ?thesis by auto
  qed
qed simp

lemma session_refused:
  assumes "inq p = []" "state_q (dev p) = StateIdle"
    and "k \<in> set (py_range (length img) (nat (la_chunk_size args)))" "take (nat (la_chunk_size args)) (drop k img) \<noteq> []"
    and "la_addr args + int k < 0 \<or> 2 ^ 32 \<le> la_addr args + int k"
  shows "\<exists>p' e. load_session ops args img p = ([], p', Inl e) \<and> inq p' = [] \<and> state_q (dev p') = StateIdle"
proof -
  have "feed wr [0x3F] (dev p) = ((dev p)\<lparr>mem_error_q := False\<rparr>, [ACK])" using assms(2) by simp
  from ask [OF assms(1) this, of "''ping''"] obtain p1 where
    p1: "then_do (write_all ops [0x3F] p) (\<lambda>_. expect_ack ops ''ping'') = (p1, Inr ())" "state_q (dev p1) = StateIdle" "inq p1 = []"
    using assms(2) by auto
  obtain p2 r where l: "load_chunks ops (la_addr args) img (nat (la_chunk_size args))
      (py_range (length img) (nat (la_chunk_size args))) p1 = (p2, r)" by fastforce
  from chunks_in_range [OF l p1(3,2)] assms(3-5) obtain e where "r = Inl e" "inq p2 = []" "state_q (dev p2) = StateIdle"
    by (cases r) fastforce+
  with p1(1) l show ?thesis by (simp add: load_session_def session_do_def)
qed

lemma session:
  assumes "0 < la_chunk_size args" "la_chunk_size args \<le> 0xFFFF" "\<not> la_capture args"
    "0 \<le> la_addr args" "la_addr args + int (length img) \<le> 2 ^ 32"
    "inq p = []" "state_q (dev p) = StateIdle"
    "write_run wr (word_of_int (la_addr args)) img (memory (dev p), False) = (m, False)"
  shows "\<exists>p'. load_session ops args img p =
      ((''Loaded '' @ py_str (int (length img)) @ '' bytes at 0x'' @ py_hex_pad 8 (la_addr args)) #
         (if la_no_go args then [] else [''Released core'']), p', Inr ()) \<and>
    inq p' = [] \<and> memory (dev p') = m \<and>
    state_q (dev p') = (if la_no_go args then StateIdle else StateReleased)"
proof -
  let ?c = "nat (la_chunk_size args)"
  have "feed wr [0x3F] (dev p) = ((dev p)\<lparr>mem_error_q := False\<rparr>, [ACK])" using assms(7) by simp
  from ask [OF assms(6) this, of "''ping''"] obtain p1 where
    p1: "then_do (write_all ops [0x3F] p) (\<lambda>_. expect_ack ops ''ping'') = (p1, Inr ())"
    "state_q (dev p1) = StateIdle" "memory (dev p1) = memory (dev p)" "inq p1 = []"
    using assms(7) by auto
  have "nat (la_chunk_size args) \<le> nat 0xFFFF" using assms(2) by (rule nat_mono)
  then have c: "0 < ?c" "?c \<le> 0xFFFF" using assms(1) by simp_all
  have "\<exists>p2. load_chunks ops (la_addr args) img ?c (map (\<lambda>i. i * ?c) [0..<(length img + ?c - 1) div ?c]) p1 = (p2, Inr ()) \<and>
      inq p2 = [] \<and> state_q (dev p2) = StateIdle \<and> memory (dev p2) = m"
    by (rule chunks [OF c assms(4,5)]) (simp_all add: p1 assms(8))
  then obtain p2 where p2: "load_chunks ops (la_addr args) img ?c (py_range (length img) ?c) p1 = (p2, Inr ())"
    "inq p2 = []" "state_q (dev p2) = StateIdle" "memory (dev p2) = m" by (auto simp: py_range_def)
  show ?thesis
  proof (cases "la_no_go args")
    case True
    with p1 p2 assms(3) show ?thesis
      by (simp add: load_session_def session_do_def session_print_def capture_def)
  next
    case False
    have "feed wr [0x47] (dev p2) = ((dev p2)\<lparr>mem_error_q := False, state_q := StateReleased\<rparr>, [ACK])"
      using p2(3) by simp
    from ask [OF p2(2) this, of "''release''"] obtain p3 where
      "then_do (write_all ops [0x47] p2) (\<lambda>_. expect_ack ops ''release'') = (p3, Inr ())"
      "state_q (dev p3) = StateReleased" "memory (dev p3) = m" "inq p3 = []"
      using p2(4) by auto
    with False p1 p2 assms(3) show ?thesis
      by (simp add: load_session_def session_do_def session_print_def capture_def)
  qed
qed

end

section \<open>The device on the other end of the line\<close>

definition line_ops :: "'m mem_port \<Rightarrow> ('m loader \<times> byte list) port_ops" where
  "line_ops wr = \<lparr>write_all = (\<lambda>bs (l, q). case feed wr bs l of (l', out) \<Rightarrow> ((l', q @ out), Inr ())),
     read_byte = (\<lambda>(l, q). case q of
        [] \<Rightarrow> ((l, []), Inl (Raise (TimeoutError ''timed out waiting for UART response'')))
      | b # q' \<Rightarrow> ((l, q'), Inr b)),
     read_available_until = (\<lambda>(l, q). ((l, []), q)), close = id\<rparr>"

interpretation line: loader_link "line_ops wr" wr fst snd
  by unfold_locales (auto simp: line_ops_def split: prod.splits)

text \<open>A memory of bytes with a window in which writes succeed.\<close>

definition window_port :: "32 word set \<Rightarrow> (32 word \<Rightarrow> byte) mem_port" where
  "window_port w a b m = (if a \<in> w then (m(a := b), False) else (m, True))"

lemma window_write_run:
  assumes "length bs \<le> 2 ^ 32"
  shows "(\<forall>i<length bs. a + of_nat i \<in> w) \<Longrightarrow>
    \<exists>m'. write_run (window_port w) a bs (m, False) = (m', False) \<and>
      (\<forall>i<length bs. m' (a + of_nat i) = bs ! i) \<and> (\<forall>x. (\<forall>i<length bs. x \<noteq> a + of_nat i) \<longrightarrow> m' x = m x)"
  using assms
proof (induction bs arbitrary: a m)
  case (Cons b bs)
  have w: "a \<in> w" "\<forall>i<length bs. (a + 1) + of_nat i \<in> w"
    using Cons.prems(1) by (force, auto simp: add.assoc dest: spec [of _ "Suc _"])
  have l: "length bs \<le> 2 ^ 32" using Cons.prems(2) by simp
  obtain m' where m': "write_run (window_port w) (a + 1) bs (m(a := b), False) = (m', False)"
    "\<forall>i<length bs. m' ((a + 1) + of_nat i) = bs ! i"
    "\<forall>x. (\<forall>i<length bs. x \<noteq> (a + 1) + of_nat i) \<longrightarrow> m' x = (m(a := b)) x"
    using Cons.IH [OF w(2) l, of "m(a := b)"] by blast
  have "a \<noteq> (a + 1) + of_nat i" if "i < length bs" for i
  proof
    assume "a = (a + 1) + of_nat i"
    then have "(of_nat (Suc i) :: 32 word) = 0" by (simp add: algebra_simps)
    moreover have "Suc i < 2 ^ 32" using that Cons.prems(2) by simp
    ultimately have "\<not> 2 ^ 32 dvd Suc i" "2 ^ LENGTH(32) dvd Suc i"
      by (auto simp only: word_of_nat_eq_0_iff nat_dvd_not_less zero_less_Suc)
    then show False by simp
  qed
  then have "m' a = b" using m'(3) by simp
  moreover have "m' (a + of_nat i) = (b # bs) ! i" if "i < length (b # bs)" for i
    using that m'(2) \<open>m' a = b\<close> by (cases i) (auto simp: add.assoc)
  moreover have "m' x = m x" if "\<forall>i<length (b # bs). x \<noteq> a + of_nat i" for x
  proof -
    have "x \<noteq> a" using that by force
    moreover have "\<forall>i<length bs. x \<noteq> (a + 1) + of_nat i"
      using that by (auto simp: add.assoc dest: spec [of _ "Suc _"])
    ultimately show ?thesis using m'(3) by simp
  qed
  moreover have "window_port w a b m = (m(a := b), False)" using w(1) by (simp add: window_port_def)
  ultimately show ?case using m'(1) by (intro exI [of _ m']) simp
qed simp

section \<open>Properties\<close>

text \<open>
  (C1) Loading works end to end: with an idle device, an image that fits below 4 GiB and a memory
  that accepts every write, \<^verbatim>\<open>main\<close> returns, the memory holds the image byte for byte from
  the start address on and is unchanged elsewhere, every response has been read, and the core is
  released exactly when asked for, for every chunk size the script admits.
\<close>

theorem load_main_correct:
  assumes "0 < la_chunk_size args" "la_chunk_size args \<le> 0xFFFF" "la_baud args \<in> set BAUD_RATES"
    and "\<not> la_capture args" "0 \<le> la_addr args" "la_addr args + int (length img) \<le> 2 ^ 32"
    and "\<forall>i<length img. word_of_int (la_addr args) + of_nat i \<in> w" "state_q l = StateIdle"
  shows "\<exists>l'. load_main (line_ops (window_port w)) args (Some img) (l, []) =
      ((''Loaded '' @ py_str (int (length img)) @ '' bytes at 0x'' @ py_hex_pad 8 (la_addr args)) #
         (if la_no_go args then [] else [''Released core'']), (l', []), Inr ()) \<and>
    (\<forall>i<length img. memory l' (word_of_int (la_addr args) + of_nat i) = img ! i) \<and>
    (\<forall>x. (\<forall>i<length img. x \<noteq> word_of_int (la_addr args) + of_nat i) \<longrightarrow> memory l' x = memory l x) \<and>
    state_q l' = (if la_no_go args then StateIdle else StateReleased)"
proof -
  have len: "length img \<le> 2 ^ 32" using assms(5,6) by simp
  from window_write_run [OF len assms(7), of "memory l"] obtain m where
    m: "write_run (window_port w) (word_of_int (la_addr args)) img (memory l, False) = (m, False)"
    "\<forall>i<length img. m (word_of_int (la_addr args) + of_nat i) = img ! i"
    "\<forall>x. (\<forall>i<length img. x \<noteq> word_of_int (la_addr args) + of_nat i) \<longrightarrow> m x = memory l x" by blast
  from line.session [OF assms(1,2,4,5,6), where p = "(l, [])" and wr = "window_port w"] m(1) assms(8)
  obtain p' where "load_session (line_ops (window_port w)) args img (l, []) =
      ((''Loaded '' @ py_str (int (length img)) @ '' bytes at 0x'' @ py_hex_pad 8 (la_addr args)) #
         (if la_no_go args then [] else [''Released core'']), p', Inr ())"
    "snd p' = []" "memory (fst p') = m" "state_q (fst p') = (if la_no_go args then StateIdle else StateReleased)"
    by auto
  moreover have "close (line_ops (window_port w)) p' = p'" by (simp add: line_ops_def)
  moreover have "baud_check (la_baud args) = Inr ()" using assms(3) by (simp add: baud_check_def)
  ultimately show ?thesis using m assms(1,2)
    by (intro exI [of _ "fst p'"]) (cases p', simp add: load_main_def session_do_def)
qed

definition demo_args :: load_args where
  "demo_args = \<lparr>la_bin = ''fw.bin'', la_baud = 115200, la_addr = 0x80000000, la_chunk_size = 2, la_no_go = False,
     la_capture = False, la_expect = []\<rparr>"

definition demo_loader :: "(32 word \<Rightarrow> byte) loader" where
  "demo_loader = \<lparr>state_q = StateIdle, addr_q = 0, len_q = 0, mem_error_q = False, memory = (\<lambda>_. 0)\<rparr>"

theorem load_main_correct_witness:
  "\<exists>l'. load_main (line_ops (window_port {0x80000000..})) demo_args (Some [1, 2, 3]) (demo_loader, []) =
      ([''Loaded '' @ py_str 3 @ '' bytes at 0x'' @ py_hex_pad 8 0x80000000, ''Released core''], (l', []), Inr ()) \<and>
    (\<forall>i<3. memory l' (0x80000000 + of_nat i) = [1, 2, 3] ! i) \<and> state_q l' = StateReleased"
proof -
  have "\<forall>i<length [1, 2, 3 :: byte]. word_of_int (la_addr demo_args) + of_nat i \<in> {0x80000000 :: 32 word..}"
    by (auto simp: demo_args_def less_Suc_eq numeral_3_eq_3)
  from load_main_correct [OF _ _ _ _ _ _ this, of demo_loader] show ?thesis
    by (force simp: demo_args_def demo_loader_def BAUD_RATES_def numeral_3_eq_3)
qed

text \<open>
  (C13) A write command is atomic in its answer: the device consumes exactly the packet that
  \<^verbatim>\<open>write_chunk\<close> builds, writes the payload at the 32-bit address in order, is idle again, and
  answers once, with a NAK exactly when the memory refused a byte.
\<close>

theorem packet_roundtrip:
  assumes "write_packet addr payload = Inr packet" "payload \<noteq> []" "state_q l = StateIdle"
  shows "\<exists>l' e. feed wr packet l = (l', [if e then NAK else ACK]) \<and> state_q l' = StateIdle \<and>
    write_run wr (word_of_int addr) payload (memory l, False) = (memory l', e)"
  using feed_packet [OF assms(3,1,2), of wr] by blast

theorem packet_roundtrip_witness:
  "\<exists>l' e. feed (window_port UNIV) [0x57, 0, 0, 0, 0x80, 1, 0, 0x2A] demo_loader = (l', [if e then NAK else ACK]) \<and>
    state_q l' = StateIdle \<and>
    write_run (window_port UNIV) (word_of_int 0x80000000) [0x2A] (memory demo_loader, False) = (memory l', e)"
proof (rule packet_roundtrip)
  show "write_packet 0x80000000 [0x2A] = Inr [0x57, 0, 0, 0, 0x80, 1, 0, 0x2A]"
    by (simp add: write_packet_ok byte_of_def upt_rec)
qed (simp_all add: demo_loader_def)

text \<open>
  (C36) An image that does not fit into the 32-bit address space is never loaded. When the first
  chunk of a non-empty image has a negative address, or the last one starts at 4 GiB or above,
  \<^verbatim>\<open>main\<close> ends with an error, has printed neither of its success messages, and leaves the device
  idle: the core is not released. This holds for every memory behind the device.
\<close>

theorem load_out_of_range:
  assumes "0 < la_chunk_size args" "la_chunk_size args \<le> 0xFFFF" "img \<noteq> []" "state_q l = StateIdle"
    and "la_addr args < 0 \<or>
      2 ^ 32 \<le> la_addr args + (int (length img) - 1) div la_chunk_size args * la_chunk_size args"
  shows "\<exists>l' e. load_main (line_ops wr) args (Some img) (l, []) = ([], (l', []), Inl e) \<and> state_q l' = StateIdle"
proof -
  let ?c = "nat (la_chunk_size args)" and ?n = "length img"
  have c: "0 < ?c" "int ?c = la_chunk_size args" using assms(1) by simp_all
  have n: "0 < ?n" using assms(3) by simp
  have "?n + ?c - 1 = (?n - 1) + ?c" using n by linarith
  moreover have "(?n - 1 + ?c) div ?c = (?n - 1) div ?c + 1" by (rule div_add_self2) (use c(1) in linarith)
  ultimately have "(?n - 1) div ?c < (?n + ?c - 1) div ?c" by (simp only: less_add_one)
  then have in_range: "(?n - 1) div ?c * ?c \<in> set (py_range ?n ?c)" "0 \<in> set (py_range ?n ?c)" by (auto simp: py_range_def)
  have "int (?n - 1) = int ?n - 1" using n by linarith
  then have start: "int ((?n - 1) div ?c * ?c) = (int ?n - 1) div la_chunk_size args * la_chunk_size args"
    by (simp only: of_nat_mult zdiv_int c(2))
  have "\<exists>k\<in>set (py_range ?n ?c). la_addr args + int k < 0 \<or> 2 ^ 32 \<le> la_addr args + int k"
  proof (cases "la_addr args < 0")
    case True
    then show ?thesis by (intro bexI [OF _ in_range(2)]) simp
  next
    case False
    with assms(5) show ?thesis by (intro bexI [OF _ in_range(1)] disjI2) (simp only: start simp_thms)
  qed
  then obtain k where k: "k \<in> set (py_range ?n ?c)" "la_addr args + int k < 0 \<or> 2 ^ 32 \<le> la_addr args + int k" by blast
  have "k < ?n" using k(1) chunk_starts_inside [of _ ?n ?c] by (auto simp: py_range_def)
  then have "take ?c (drop k img) \<noteq> []" using c(1) by simp
  from line.session_refused [where p = "(l, [])" and wr = wr, OF _ _ k(1) this k(2)] assms(4)
  obtain p' e where p': "load_session (line_ops wr) args img (l, []) = ([], p', Inl e)" "snd p' = []" "state_q (fst p') = StateIdle"
    by auto
  moreover have "close (line_ops wr) p' = p'" by (simp add: line_ops_def)
  ultimately have "load_main (line_ops wr) args (Some img) (l, []) = ([], p', Inl e)" if "baud_check (la_baud args) = Inr ()"
    using assms(1,2) that by (simp add: load_main_def session_do_def)
  moreover have "load_main (line_ops wr) args (Some img) (l, []) = ([], (l, []), Inl x)" if "baud_check (la_baud args) = Inl x" for x
    using assms(1,2) that by (simp add: load_main_def session_do_def)
  ultimately show ?thesis using p'(2,3) assms(4) by (cases "baud_check (la_baud args)"; cases p') auto
qed

theorem load_out_of_range_witness:
  "\<exists>l' e. load_main (line_ops (window_port UNIV)) (demo_args\<lparr>la_addr := 0xFFFFFFFE\<rparr>) (Some [1, 2, 3]) (demo_loader, []) =
      ([], (l', []), Inl e) \<and> state_q l' = StateIdle"
  by (rule load_out_of_range) (simp_all add: demo_args_def demo_loader_def)

text \<open>
  (C32) \<^verbatim>\<open>write_all\<close> sends the data in order and without loss, whatever the operating system
  accepts per call: what it has sent and what is left make up the data, and it returns normally
  exactly when nothing is left.
\<close>

theorem write_all_in_order:
  "write_all_os answers bs = (sent, rest, r) \<Longrightarrow>
     sent @ rest = bs \<and> (r = Some (Inr ()) \<longleftrightarrow> rest = [])"
proof (induction answers bs arbitrary: sent rule: write_all_os.induct)
  case (4 k answers b bs)
  then obtain sent' where "write_all_os answers (drop k (b # bs)) = (sent', rest, r)"
    "sent = take k (b # bs) @ sent'" by (auto split: prod.splits)
  with 4 show ?case by (metis append.assoc append_take_drop_id)
qed auto

theorem write_all_in_order_witness:
  "write_all_os [Some 1, Some 1, None] [1, 2, 3] =
     ([1, 2], [3], Some (Inl (Raise (TimeoutError ''timed out waiting for UART write readiness'')))) \<and>
   (case write_all_os [Some 1, Some 1, None] [1, 2, 3] of
      (sent, rest, r) \<Rightarrow> sent @ rest = [1, 2, 3] \<and> (r = Some (Inr ()) \<longleftrightarrow> rest = []))"
proof -
  have run: "write_all_os [Some 1, Some 1, None] [1, 2, 3] =
     ([1, 2], [3], Some (Inl (Raise (TimeoutError ''timed out waiting for UART write readiness''))))" by simp
  from write_all_in_order [OF run] show ?thesis unfolding run by simp
qed

text \<open>
  (C14) \<^verbatim>\<open>read_byte\<close> does not hang: as soon as the clock reaches the deadline in some round, the
  call has returned, with the first byte that arrived before the deadline or with the time-out.
\<close>

theorem read_byte_returns:
  assumes "(now, readable, data) \<in> set rounds" "deadline \<le> now"
  shows "\<exists>r. read_byte_os deadline rounds = Some r \<and>
    (\<forall>b. r = Inr b \<longrightarrow> (\<exists>t. t < deadline \<and> (t, True, Some b) \<in> set rounds)) \<and>
    (\<forall>e. r = Inl e \<longrightarrow> e = Raise (TimeoutError ''timed out waiting for UART response''))"
  using assms
proof (induction deadline rounds rule: read_byte_os.induct)
  case (2 deadline now' readable' data' rounds)
  then show ?case by (cases data') (auto, force+)
qed simp

theorem read_byte_returns_witness:
  "\<exists>r. read_byte_os 10 [(3, False, None), (5, True, Some 6), (12, False, None)] = Some r \<and>
    (\<forall>b. r = Inr b \<longrightarrow> (\<exists>t. t < (10 :: int) \<and> (t, True, Some b) \<in> set [(3, False, None), (5, True, Some 6), (12, False, None)])) \<and>
    (\<forall>e. r = Inl e \<longrightarrow> e = Raise (TimeoutError ''timed out waiting for UART response''))"
  by (rule read_byte_returns [of 12 False None]) simp_all

end
