(* ===== verification/Axi_Map.thy ===== *)
theory Axi_Map
  imports Py_Regex Py_Int "HOL-Library.AList" "HOL-Library.Product_Lexorder"
begin

text \<open>
  \<^verbatim>\<open>src/bin/check_axi_addr_map.py\<close>: the parameters of \<^verbatim>\<open>soc_top\<close> are resolved by
  evaluating their expressions until nothing changes, and the windows of the AXI address map are
  checked for overlap. \<^verbatim>\<open>ast.parse\<close> is modelled on integer literals, names, parentheses and
  the unary and binary arithmetic operators; any other text is rejected, as the script rejects
  every other construct with \<^verbatim>\<open>ValueError\<close> or \<^verbatim>\<open>SyntaxError\<close>.
\<close>

section \<open>Expressions\<close>

datatype opr = OAdd | OSub | OMul | OFloor | OOther | OUnary | OParen

datatype tok = TNum int | TName string | TOp opr | TTilde | TL | TR | TBad

datatype ex = ENum int | EName string | EBin opr ex ex | EUn ex

definition word_run :: "string \<Rightarrow> string" where
  "word_run s = takeWhile is_word s"

definition num_run :: "string \<Rightarrow> string" where
  "num_run s = takeWhile (\<lambda>c. is_word c \<or> c = CHR ''.'') s"

definition py_keywords :: "string list" where
  "py_keywords = [''None'', ''and'', ''as'', ''assert'', ''async'', ''await'', ''break'', ''class'', ''continue'',
     ''def'', ''del'', ''elif'', ''else'', ''except'', ''finally'', ''for'', ''from'', ''global'', ''if'', ''import'',
     ''in'', ''is'', ''lambda'', ''nonlocal'', ''not'', ''or'', ''pass'', ''raise'', ''return'', ''try'', ''while'',
     ''with'', ''yield'']"

definition name_tok :: "string \<Rightarrow> tok" where
  "name_tok n = (if n = ''True'' then TNum 1 else if n = ''False'' then TNum 0
     else if n \<in> set py_keywords then TBad else TName n)"

definition num_tok :: "string \<Rightarrow> tok" where
  "num_tok n = (case unsigned0 n of None \<Rightarrow> TBad | Some v \<Rightarrow> TNum (int v))"

lemma takeWhile_hd_shorter: "P c \<Longrightarrow> length (dropWhile P (c # s)) < Suc (length s)"
  by (simp add: le_imp_less_Suc length_dropWhile_le)

function tokens :: "string \<Rightarrow> tok list" where
  "tokens s =
     (case s of
        [] \<Rightarrow> []
      | c # t \<Rightarrow>
          if c = CHR '' '' \<or> c = TAB \<or> c = CHR 0x0C then tokens t
          else if c = CHR ''#'' then []
          else if is_digit c \<or> c = CHR ''.''
          then num_tok (num_run s) # tokens (dropWhile (\<lambda>c. is_word c \<or> c = CHR ''.'') s)
          else if is_word c then name_tok (word_run s) # tokens (dropWhile is_word s)
          else if prefix ''//'' s then TOp OFloor # tokens (tl t)
          else if prefix ''**'' s then TBad # tokens (tl t)
          else (if c = CHR ''+'' then TOp OAdd else if c = CHR ''-'' then TOp OSub
                else if c = CHR ''*'' then TOp OMul
                else if c = CHR ''/'' \<or> c = CHR ''%'' \<or> c = CHR ''@'' then TOp OOther
                else if c = CHR ''~'' then TTilde
                else if c = CHR ''('' then TL else if c = CHR '')'' then TR else TBad) # tokens t)"
  by pat_completeness auto
termination
proof (relation "measure length", goal_cases)
  case (3 s c t)
  then show ?case using takeWhile_hd_shorter [of "\<lambda>c. is_word c \<or> c = CHR ''.''" c t] is_digit_key is_key_word
    by auto
next
  case (4 s c t)
  then show ?case using takeWhile_hd_shorter [of is_word c t] by auto
qed (auto simp: less_Suc_eq_le)

declare tokens.simps [simp del]

text \<open>Operator precedence parsing: the operands and the operators still open, innermost first.\<close>

fun prec :: "opr \<Rightarrow> nat" where
  "prec OParen = 0"
| "prec OAdd = 1"
| "prec OSub = 1"
| "prec OMul = 2"
| "prec OFloor = 2"
| "prec OOther = 2"
| "prec OUnary = 3"

fun reduce :: "nat \<Rightarrow> ex list \<Rightarrow> opr list \<Rightarrow> ex list \<times> opr list" where
  "reduce p out [] = (out, [])"
| "reduce p out (op # ops) =
     (if prec op < p then (out, op # ops)
      else (case (op, out) of
              (OUnary, a # out') \<Rightarrow> reduce p (EUn a # out') ops
            | (_, b # a # out') \<Rightarrow> reduce p (EBin op a b # out') ops
            | _ \<Rightarrow> (out, op # ops)))"

fun parse_toks :: "tok list \<Rightarrow> bool \<Rightarrow> ex list \<Rightarrow> opr list \<Rightarrow> ex option" where
  "parse_toks [] expect out ops =
     (if expect then None
      else (case reduce 1 out ops of ([e], []) \<Rightarrow> Some e | _ \<Rightarrow> None))"
| "parse_toks (TNum n # ts) expect out ops = (if expect then parse_toks ts False (ENum n # out) ops else None)"
| "parse_toks (TName n # ts) expect out ops = (if expect then parse_toks ts False (EName n # out) ops else None)"
| "parse_toks (TOp op # ts) expect out ops =
     (if expect then (if op = OAdd \<or> op = OSub then parse_toks ts True out (OUnary # ops) else None)
      else (case reduce (prec op) out ops of (out', ops') \<Rightarrow> parse_toks ts True out' (op # ops')))"
| "parse_toks (TTilde # ts) expect out ops = (if expect then parse_toks ts True out (OUnary # ops) else None)"
| "parse_toks (TL # ts) expect out ops = (if expect then parse_toks ts True out (OParen # ops) else None)"
| "parse_toks (TR # ts) expect out ops =
     (if expect then None
      else (case reduce 1 out ops of
              (out', OParen # ops') \<Rightarrow> parse_toks ts False out' ops'
            | _ \<Rightarrow> None))"
| "parse_toks (TBad # ts) expect out ops = None"

definition ast_parse :: "string \<Rightarrow> ex option" where
  "ast_parse s = parse_toks (tokens s) True [] []"

type_synonym vals = "(string \<times> int) list"

text \<open>\<^verbatim>\<open>walk\<close>: the left operand first; division by zero is the one error that escapes the caller.\<close>

fun walk :: "vals \<Rightarrow> ex \<Rightarrow> exc + int" where
  "walk vs (ENum n) = Inr n"
| "walk vs (EName n) = (case map_of vs n of None \<Rightarrow> Inl (ValueError []) | Some v \<Rightarrow> Inr v)"
| "walk vs (EBin op a b) =
     (if op \<notin> {OAdd, OSub, OMul, OFloor} then Inl (ValueError [])
      else (case walk vs a of
              Inl e \<Rightarrow> Inl e
            | Inr x \<Rightarrow>
                (case walk vs b of
                   Inl e \<Rightarrow> Inl e
                 | Inr y \<Rightarrow>
                     if op = OAdd then Inr (x + y) else if op = OSub then Inr (x - y)
                     else if op = OMul then Inr (x * y)
                     else if y = 0 then Inl ZeroDivisionError else Inr (x div y))))"
| "walk vs (EUn a) = Inl (ValueError [])"

definition is_hex_us :: "char \<Rightarrow> bool" where
  "is_hex_us c = (is_digit c \<or> code c \<in> {65..70} \<or> code c \<in> {97..102} \<or> c = CHR ''_'')"

definition hex_rx :: rx where
  "hex_rx = RSeq (rlit (''32'' @ [SQ] @ ''h'')) (RGrp ''1'' (plus1 is_hex_us))"

definition hex_digits :: "groups \<Rightarrow> string" where
  "hex_digits g = replace_all ''_'' [] (group ''1'' g)"

text \<open>\<^verbatim>\<open>int("", 16)\<close> raises: a literal that consists of underscores makes the call fail.\<close>

definition normalize_expr :: "string \<Rightarrow> string option" where
  "normalize_expr expr =
     (if list_ex (\<lambda>m. hex_digits (snd m) = []) (re_finditer hex_rx expr) then None
      else Some (re_sub hex_rx (\<lambda>m g. py_str (int (digits_val 16 (hex_digits g)))) expr))"

definition eval_expr :: "string \<Rightarrow> vals \<Rightarrow> exc + int" where
  "eval_expr expr vs =
     (case Option.bind (normalize_expr expr) ast_parse of
        None \<Rightarrow> Inl (ValueError expr) | Some e \<Rightarrow> walk vs e)"

section \<open>The parameters and the rules of soc_top\<close>

definition extend_rx :: rx where
  "extend_rx = rseq [RChr ((=) CHR ''{''), star is_space, plus1 is_digit, rlit ([SQ] @ ''h0''), star is_space,
     RChr ((=) CHR '',''), star is_space, RGrp ''1'' (plus1 is_word), star is_space, RChr ((=) CHR ''}'')]"

definition ASSIGN_RE :: rx where
  "ASSIGN_RE = rseq [RAlt (rlit ''parameter'') (rlit ''localparam''), plus1 is_space,
     RAlt (rseq [rlit ''int'', plus1 is_space, rlit ''unsigned''])
          (rseq [rlit ''logic'', plus1 is_space, rlit ''[31:0]'']),
     plus1 is_space, RGrp ''name'' (plus1 is_word), star is_space, RChr ((=) CHR ''=''), star is_space,
     RGrp ''expr'' (plus1 (\<lambda>c. c \<noteq> CHR '','' \<and> c \<noteq> CHR '';'' \<and> c \<noteq> NL))]"

definition RULE_RE :: rx where
  "RULE_RE = rseq [rlit ''{idx:'', star is_space, RGrp ''idx'' (plus1 is_digit), RChr ((=) CHR '',''), star is_space,
     rlit ''start_addr:'', star is_space, RGrp ''base'' (plus1 is_word), RChr ((=) CHR '',''), star is_space,
     rlit ''end_addr:'', star is_space, RRef ''base'', star is_space, RChr ((=) CHR ''+''), star is_space,
     RGrp ''size'' (plus1 is_word), RChr ((=) CHR ''}'')]"

type_synonym assigns = "(string \<times> string) list"

text \<open>One pass over the pending assignments, then passes until one makes no progress.\<close>

fun resolve_pass :: "assigns \<Rightarrow> vals \<Rightarrow> (vals \<times> assigns) res" where
  "resolve_pass [] vs = Inr (vs, [])"
| "resolve_pass ((name, expr) # pending) vs =
     (case eval_expr expr vs of
        Inr v \<Rightarrow> resolve_pass pending (AList.update name v vs)
      | Inl e \<Rightarrow>
          if e = ZeroDivisionError then Inl (Raise ZeroDivisionError)
          else bindr (resolve_pass pending vs) (\<lambda>(vs', next). Inr (vs', (name, expr) # next)))"

function resolve :: "assigns \<Rightarrow> vals \<Rightarrow> vals res" where
  "resolve pending vs =
     (if pending = [] then Inr vs
      else (case resolve_pass pending vs of
              Inl e \<Rightarrow> Inl e
            | Inr (vs', next) \<Rightarrow> if length next < length pending then resolve next vs' else Inr vs'))"
  by pat_completeness auto
termination
  by (relation "measure (\<lambda>(pending, vs). length pending)") auto

declare resolve.simps [simp del]

definition parse_soc_top :: "string \<Rightarrow> (vals \<times> (int \<times> string \<times> string) list) res" where
  "parse_soc_top text =
     (let text = re_sub extend_rx (\<lambda>m g. group ''1'' g) text;
          pending = map (\<lambda>m. (group ''name'' (snd m), strip (group ''expr'' (snd m)))) (re_finditer ASSIGN_RE text);
          rules = map (\<lambda>m. (int (digits_val 10 (group ''idx'' (snd m))), group ''base'' (snd m), group ''size'' (snd m)))
                    (re_finditer RULE_RE text)
      in bindr (resolve pending []) (\<lambda>vs. Inr (vs, rules)))"

section \<open>The check\<close>

type_synonym window = "int \<times> int \<times> int \<times> string"

definition removesuffix :: "string \<Rightarrow> string \<Rightarrow> string" where
  "removesuffix suf s = (if suf \<noteq> [] \<and> suffix suf s then take (length s - length suf) s else s)"

definition window_of :: "vals \<Rightarrow> int \<times> string \<times> string \<Rightarrow> window res" where
  "window_of vs rule =
     (case rule of (idx, base_name, size_name) \<Rightarrow>
       (let missing = filter (\<lambda>n. map_of vs n = None) [base_name, size_name]
        in fail_if (missing \<noteq> []) (''unresolved address-map symbol(s): '' @ join '', '' missing) (
           let start = the (map_of vs base_name); sz = the (map_of vs size_name); end = start + sz
           in fail_if (sz \<le> 0) (''zero-sized AXI window for '' @ base_name) (
              fail_if (2 ^ 32 < end) (''AXI window '' @ base_name @ '' exceeds 32-bit address space'') (
              Inr (idx, start, end, py_lower (removesuffix ''BaseAddr'' base_name)))))))"

definition hex8 :: "int \<Rightarrow> string" where
  "hex8 n = ''0x'' @ py_hex_pad 8 n"

definition win_start :: "window \<Rightarrow> int" where
  "win_start w = fst (snd w)"

definition win_end :: "window \<Rightarrow> int" where
  "win_end w = fst (snd (snd w))"

definition win_name :: "window \<Rightarrow> string" where
  "win_name w = snd (snd (snd w))"

fun overlap_check :: "window list \<Rightarrow> unit res" where
  "overlap_check (prev # cur # ws) =
     fail_if (win_start cur < win_end prev)
       (''overlapping AXI windows: '' @ win_name prev @ '' '' @ hex8 (win_start prev) @ ''..'' @ hex8 (win_end prev - 1) @
        '' and '' @ win_name cur @ '' '' @ hex8 (win_start cur) @ ''..'' @ hex8 (win_end cur - 1))
       (overlap_check (cur # ws))"
| "overlap_check ws = Inr ()"

definition window_line :: "window \<Rightarrow> string" where
  "window_line w = ''AXI['' @ py_str (fst w) @ ''] '' @ win_name w @ '': '' @ hex8 (win_start w) @ ''..'' @ hex8 (win_end w - 1)"

definition check_windows :: "vals \<Rightarrow> (int \<times> string \<times> string) list \<Rightarrow> string \<Rightarrow> window list res" where
  "check_windows vs rules path =
     fail_if (rules = []) (''no AXI fabric address-map rules found in '' @ path) (
     bindr (mapr (window_of vs) rules) (\<lambda>windows.
     fail_if (length (map fst windows) \<noteq> card (set (map fst windows))) ''duplicate AXI fabric target index'' (
     bindr (overlap_check (sort_key win_start windows)) (\<lambda>_.
     Inr windows))))"

definition axi_main :: "string \<Rightarrow> string \<Rightarrow> run" where
  "axi_main path text =
     run_res (parse_soc_top text) (\<lambda>(vs, rules).
     run_res (check_windows vs rules path) (\<lambda>windows.
     emit (map window_line (sort windows) @ [''AXI address map check passed''])))"

section \<open>Resolution\<close>

lemma walk_mono: "map_of vs \<subseteq>\<^sub>m map_of vs' \<Longrightarrow> walk vs e = Inr n \<Longrightarrow> walk vs' e = Inr n"
proof (induction e arbitrary: n)
  case (EName x)
  then show ?case by (auto simp: map_le_def dom_def split: option.splits)
next
  case (EBin op a b)
  then show ?case by (force split: sum.splits if_splits)
qed auto

lemma eval_expr_mono: "map_of vs \<subseteq>\<^sub>m map_of vs' \<Longrightarrow> eval_expr e vs = Inr n \<Longrightarrow> eval_expr e vs' = Inr n"
  by (auto simp: eval_expr_def walk_mono split: option.splits)

text \<open>
  A state of the resolution: every assignment is pending, and its name unknown, or it is solved
  by the values, which come from the assignments only.
\<close>

definition solved :: "assigns \<Rightarrow> (string \<times> string) set \<Rightarrow> vals \<Rightarrow> bool" where
  "solved all P vs \<longleftrightarrow> P \<subseteq> set all \<and> fst ` set vs \<subseteq> fst ` (set all - P) \<and>
     (\<forall>name expr. (name, expr) \<in> set all - P \<longrightarrow> (\<exists>v. map_of vs name = Some v \<and> eval_expr expr vs = Inr v))"

lemma key_unique: "distinct (map fst all) \<Longrightarrow> (n, e) \<in> set all \<Longrightarrow> (n, e') \<in> set all \<Longrightarrow> e = e'"
  by (metis eq_key_imp_eq_value)

lemma solved_unknown:
  assumes "solved all P vs" "distinct (map fst all)" "(name, expr) \<in> P"
  shows "map_of vs name = None"
proof -
  have "name \<notin> fst ` (set all - P)"
  proof
    assume "name \<in> fst ` (set all - P)"
    then obtain p where p: "p \<in> set all" "p \<notin> P" "fst p = name" by blast
    then obtain e where e: "(name, e) \<in> set all" "(name, e) \<notin> P" by (metis prod.collapse)
    have "(name, expr) \<in> set all" using assms(1,3) by (auto simp: solved_def)
    from key_unique [OF assms(2) e(1) this] e(2) assms(3) show False by simp
  qed
  then show ?thesis using assms(1) by (auto simp: solved_def map_of_eq_None_iff)
qed

lemma solved_update:
  assumes "solved all P vs" "distinct (map fst all)" "(name, expr) \<in> P" "eval_expr expr vs = Inr v"
  shows "solved all (P - {(name, expr)}) (AList.update name v vs)"
proof -
  let ?vs = "AList.update name v vs"
  have mem: "(name, expr) \<in> set all" using assms(1,3) by (auto simp: solved_def)
  have new: "map_of vs name = None" by (rule solved_unknown [OF assms(1-3)])
  then have le: "map_of vs \<subseteq>\<^sub>m map_of ?vs" by (auto simp: map_le_def update_conv)
  have "\<exists>w. map_of ?vs n = Some w \<and> eval_expr e ?vs = Inr w"
    if "(n, e) \<in> set all" "(n, e) \<notin> P \<or> (n, e) = (name, expr)" for n e
  proof (cases "(n, e) = (name, expr)")
    case True
    then show ?thesis using eval_expr_mono [OF le assms(4)] by (simp add: update_conv)
  next
    case False
    with that assms(1) obtain w where w: "map_of vs n = Some w" "eval_expr e vs = Inr w"
      unfolding solved_def by blast
    moreover from w new have "n \<noteq> name" by auto
    ultimately show ?thesis using eval_expr_mono [OF le w(2)] by (simp add: update_conv)
  qed
  moreover have "fst ` set ?vs \<subseteq> fst ` (set all - (P - {(name, expr)}))"
  proof -
    have "fst ` set vs \<subseteq> fst ` (set all - P)" using assms(1) by (simp add: solved_def)
    also have "\<dots> \<subseteq> fst ` (set all - (P - {(name, expr)}))" by (rule image_mono) blast
    finally have "fst ` set vs \<subseteq> fst ` (set all - (P - {(name, expr)}))" .
    moreover have "name \<in> fst ` (set all - (P - {(name, expr)}))" using mem by (intro rev_image_eqI [of "(name, expr)"]) auto
    ultimately show ?thesis by (simp add: dom_update)
  qed
  ultimately show ?thesis using assms(1) by (auto simp: solved_def)
qed

lemma resolve_pass_ConsE:
  assumes "resolve_pass ((name, expr) # pending) vs = Inr (vs', next)"
  obtains (solve) v where "eval_expr expr vs = Inr v" "resolve_pass pending (AList.update name v vs) = Inr (vs', next)"
    | (keep) next' e where "eval_expr expr vs = Inl e" "resolve_pass pending vs = Inr (vs', next')" "next = (name, expr) # next'"
proof (cases "eval_expr expr vs")
  case (Inl e)
  with assms keep show ?thesis by (auto simp: bindr_eq_Inr split: if_splits)
qed (use assms solve in auto)

lemma resolve_pass_solved:
  assumes "distinct (map fst all)"
  shows "resolve_pass pending vs = Inr (vs', next) \<Longrightarrow> solved all (set pending \<union> R) vs \<Longrightarrow>
    set pending \<inter> R = {} \<Longrightarrow> distinct pending \<Longrightarrow>
    solved all (set next \<union> R) vs' \<and> set next \<subseteq> set pending \<and> distinct next \<and> length next \<le> length pending \<and>
    (length next = length pending \<longrightarrow> next = pending \<and> vs' = vs \<and>
       (\<forall>(name, expr)\<in>set pending. \<exists>e. eval_expr expr vs = Inl e))"
proof (induction pending vs arbitrary: "next" R rule: resolve_pass.induct)
  case (2 name expr pending vs)
  from "2.prems"(1) show ?case
  proof (cases rule: resolve_pass_ConsE)
    case (solve v)
    have "set ((name, expr) # pending) \<union> R - {(name, expr)} = set pending \<union> R"
      using "2.prems"(3,4) by auto
    with solved_update [OF "2.prems"(2) assms _ solve(1), of name] have "solved all (set pending \<union> R) (AList.update name v vs)"
      by simp
    moreover have "set pending \<inter> R = {}" "distinct pending" using "2.prems"(3,4) by auto
    ultimately have "solved all (set next \<union> R) vs'" "set next \<subseteq> set pending" "distinct next" "length next \<le> length pending"
      using "2.IH"(2) [OF solve(1,2)] by blast+
    then show ?thesis by auto
  next
    case (keep next' e)
    have ne: "e \<noteq> ZeroDivisionError" using "2.prems"(1) keep(1) by auto
    have s: "solved all (set pending \<union> insert (name, expr) R) vs" using "2.prems"(2) by simp
    have d: "set pending \<inter> insert (name, expr) R = {}" "distinct pending" using "2.prems"(3,4) by auto
    have IH: "solved all (set next' \<union> insert (name, expr) R) vs' \<and> set next' \<subseteq> set pending \<and> distinct next' \<and>
        length next' \<le> length pending \<and> (length next' = length pending \<longrightarrow> next' = pending \<and> vs' = vs \<and>
       (\<forall>(name, expr)\<in>set pending. \<exists>e. eval_expr expr vs = Inl e))"
      by (rule "2.IH"(1) [OF keep(1) ne keep(2) s d])
    then show ?thesis using keep "2.prems"(4) by auto
  qed
qed simp

text \<open>The whole loop: what is left unsolved fails under the final values.\<close>

lemma resolve_solved:
  assumes "distinct (map fst all)"
  shows "resolve pending vs = Inr vs' \<Longrightarrow> solved all (set pending) vs \<Longrightarrow> distinct pending \<Longrightarrow>
    \<exists>P. solved all P vs' \<and> (\<forall>(name, expr)\<in>P. \<exists>e. eval_expr expr vs' = Inl e)"
proof (induction pending vs rule: resolve.induct)
  case (1 pending vs)
  show ?case
  proof (cases "pending = []")
    case True
    with 1 show ?thesis by (intro exI [of _ "{}"]) (simp add: resolve.simps [of "[]"])
  next
    case False
    with "1.prems"(1) obtain vs1 nx where p: "resolve_pass pending vs = Inr (vs1, nx)"
      by (subst (asm) resolve.simps) (auto split: sum.splits)
    from resolve_pass_solved [OF assms p, of "{}"] "1.prems"(2,3)
    have s: "solved all (set nx) vs1" "distinct nx" "length nx \<le> length pending"
      "length nx = length pending \<Longrightarrow> nx = pending \<and> vs1 = vs \<and> (\<forall>(name, expr)\<in>set pending. \<exists>e. eval_expr expr vs = Inl e)"
      by auto
    show ?thesis
    proof (cases "length nx < length pending")
      case True
      with "1.prems"(1) False p have "resolve nx vs1 = Inr vs'" by (subst (asm) resolve.simps) simp
      with "1.IH" [OF False p refl True] s show ?thesis by blast
    next
      case False
      then have "length nx = length pending" using s(3) by simp
      note e = s(4) [OF this]
      have "vs' = vs1" using "1.prems"(1) \<open>pending \<noteq> []\<close> p False by (subst (asm) resolve.simps) simp
      with e s(1) show ?thesis by blast
    qed
  qed
qed

text \<open>
  (C16) The resolution of the parameters is a complete fixpoint. It ends, and when it ends without
  a division by zero, every assignment with a name of its own is solved: its name has the value
  of its expression under the final values, or the expression cannot be evaluated under them and
  the name has no value.
\<close>

theorem resolve_fixpoint:
  assumes "distinct (map fst pending)"
  shows "resolve pending [] = Inl (Raise ZeroDivisionError) \<or>
    (\<exists>vs. resolve pending [] = Inr vs \<and> (\<forall>(name, expr)\<in>set pending.
       (case eval_expr expr vs of Inr v \<Rightarrow> map_of vs name = Some v | Inl e \<Rightarrow> map_of vs name = None)))"
proof (cases "resolve pending []")
  case (Inr vs)
  have "solved pending (set pending) []" by (simp add: solved_def)
  from resolve_solved [OF assms Inr this] obtain P where P: "solved pending P vs"
    "\<forall>(name, expr)\<in>P. \<exists>e. eval_expr expr vs = Inl e" using assms by (auto simp: distinct_map)
  have "case eval_expr expr vs of Inr v \<Rightarrow> map_of vs name = Some v | Inl e \<Rightarrow> map_of vs name = None"
    if "(name, expr) \<in> set pending" for name expr
  proof (cases "(name, expr) \<in> P")
    case True
    with P(2) solved_unknown [OF P(1) assms True] show ?thesis by auto
  next
    case False
    with that P(1) obtain v where "map_of vs name = Some v" "eval_expr expr vs = Inr v" unfolding solved_def by blast
    then show ?thesis by simp
  qed
  with Inr show ?thesis by auto
next
  case (Inl e)
  have "resolve_pass ps vs = Inl x \<Longrightarrow> x = Raise ZeroDivisionError" for ps vs x
    by (induction ps vs rule: resolve_pass.induct) (auto simp: bindr_eq_Inl split: sum.splits if_splits)
  then have "resolve ps vs = Inl x \<Longrightarrow> x = Raise ZeroDivisionError" for ps vs x
    by (induction ps vs rule: resolve.induct)
      (subst (asm) (2) resolve.simps, auto split: if_splits sum.splits)
  with Inl show ?thesis by blast
qed

theorem resolve_fixpoint_witness:
  "resolve [(''B'', ''A + 4''), (''A'', ''2 * 8''), (''C'', ''clog2(B)'')] [] = Inl (Raise ZeroDivisionError) \<or>
    (\<exists>vs. resolve [(''B'', ''A + 4''), (''A'', ''2 * 8''), (''C'', ''clog2(B)'')] [] = Inr vs \<and>
      (\<forall>(name, expr)\<in>set [(''B'', ''A + 4''), (''A'', ''2 * 8''), (''C'', ''clog2(B)'')].
       (case eval_expr expr vs of Inr v \<Rightarrow> map_of vs name = Some v | Inl e \<Rightarrow> map_of vs name = None)))"
  by (rule resolve_fixpoint) simp

section \<open>Windows\<close>

text \<open>The addresses of a rule, and the rules whose window the script can use.\<close>

definition rule_range :: "vals \<Rightarrow> int \<times> string \<times> string \<Rightarrow> int set" where
  "rule_range vs = (\<lambda>(idx, base, sz). {the (map_of vs base)..<the (map_of vs base) + the (map_of vs sz)})"

definition rule_ok :: "vals \<Rightarrow> int \<times> string \<times> string \<Rightarrow> bool" where
  "rule_ok vs = (\<lambda>(idx, base, sz). \<exists>start n. map_of vs base = Some start \<and> map_of vs sz = Some n \<and>
     0 < n \<and> start + n \<le> 2 ^ 32)"

definition win_range :: "window \<Rightarrow> int set" where
  "win_range w = {win_start w..<win_end w}"

lemmas win_defs = win_start_def win_end_def win_name_def win_range_def rule_range_def rule_ok_def

lemma window_of_ok:
  "window_of vs rule = Inr w \<Longrightarrow> rule_ok vs rule \<and> fst w = fst rule \<and> win_range w = rule_range vs rule \<and>
     win_start w < win_end w"
  by (cases rule) (auto simp: window_of_def Let_def res_simps win_defs split: if_splits)

lemma window_of_total: "rule_ok vs rule \<Longrightarrow> \<exists>w. window_of vs rule = Inr w"
  by (cases rule) (auto simp: window_of_def rule_ok_def fail_if_def)

lemma overlap_check_ok:
  "(\<forall>w\<in>set ws. win_start w < win_end w) \<Longrightarrow>
     overlap_check ws = Inr () \<longleftrightarrow> sorted_wrt (\<lambda>p c. win_end p \<le> win_start c) ws"
proof (induction ws rule: overlap_check.induct)
  case (1 p c ws)
  have "\<forall>d\<in>set ws. win_end p \<le> win_start d" if "win_end p \<le> win_start c" "\<forall>d\<in>set ws. win_end c \<le> win_start d"
    using "1.prems" that by force
  with 1 show ?case by (auto simp: fail_if_def not_less simp del: split_paired_All)
qed auto

lemma sorted_wrt_cong:
  assumes "sorted_wrt S xs" "\<And>x y. x \<in> set xs \<Longrightarrow> y \<in> set xs \<Longrightarrow> S x y \<Longrightarrow> R x y \<longleftrightarrow> R' x y"
  shows "sorted_wrt R xs \<longleftrightarrow> sorted_wrt R' xs"
  using assms by (induction xs) auto

lemma sorted_disjoint:
  assumes "\<forall>w\<in>set ws. win_start w < win_end w"
  shows "sorted_wrt (\<lambda>p c. win_end p \<le> win_start c) (sort_key win_start ws) \<longleftrightarrow>
    sorted_wrt (\<lambda>p c. win_range p \<inter> win_range c = {}) (sort_key win_start ws)"
proof -
  have dis: "win_range p \<inter> win_range c = {} \<longleftrightarrow> win_end p \<le> win_start c"
    if "p \<in> set ws" "c \<in> set ws" "win_start p \<le> win_start c" for p c
    using that assms by (auto simp: win_range_def)
  have "sorted_wrt (\<lambda>p c. win_start p \<le> win_start c) (sort_key win_start ws)"
    using sorted_sort_key [of win_start ws] by (simp add: sorted_map)
  then show ?thesis by (rule sorted_wrt_cong) (use dis in auto)
qed

text \<open>Symmetric relations do not see the order of a list without repetitions.\<close>

lemma sorted_wrt_symmetric:
  assumes "distinct xs" "\<And>x y. R x y \<Longrightarrow> R y x"
  shows "sorted_wrt R xs \<longleftrightarrow> (\<forall>x\<in>set xs. \<forall>y\<in>set xs. x \<noteq> y \<longrightarrow> R x y)"
  using assms by (induction xs) auto

definition windows_apart :: "window list \<Rightarrow> bool" where
  "windows_apart ws = (\<forall>v\<in>set ws. \<forall>w\<in>set ws. v \<noteq> w \<longrightarrow> win_range v \<inter> win_range w = {})"

lemma check_windows_ok:
  "check_windows vs rules path = Inr ws \<longleftrightarrow> rules \<noteq> [] \<and> mapr (window_of vs) rules = Inr ws \<and>
     distinct (map fst ws) \<and> windows_apart ws"
proof -
  have "(overlap_check (sort_key win_start ws) = Inr ()) \<longleftrightarrow>
      windows_apart ws"
    if "mapr (window_of vs) rules = Inr ws" "distinct (map fst ws)"
  proof -
    have pos: "\<forall>w\<in>set ws. win_start w < win_end w"
    proof
      fix w assume "w \<in> set ws"
      then obtain i where "i < length ws" "w = ws ! i" by (metis in_set_conv_nth)
      with that(1) have "window_of vs (rules ! i) = Inr w" by (simp add: mapr_list_all2 list_all2_conv_all_nth)
      then show "win_start w < win_end w" by (blast dest: window_of_ok)
    qed
    have "distinct (sort_key win_start ws)" using that(2) by (simp add: distinct_map)
    then have "sorted_wrt (\<lambda>p c. win_range p \<inter> win_range c = {}) (sort_key win_start ws) \<longleftrightarrow>
        windows_apart ws"
      unfolding windows_apart_def by (subst sorted_wrt_symmetric) auto
    then show ?thesis using sorted_disjoint [OF pos] overlap_check_ok [of "sort_key win_start ws"] pos by simp
  qed
  moreover have "length (map fst ws) = card (set (map fst ws)) \<longleftrightarrow> distinct (map fst ws)"
    by (metis card_distinct distinct_card)
  ultimately show ?thesis by (auto simp: check_windows_def res_simps)
qed

text \<open>
  (C15) The address-map check is exact: it passes if and only if there are rules, every window
  has resolved symbols, a positive size and an end within 32 bits, no target index occurs twice,
  and no two windows share an address. Comparing neighbours in the sorted order is enough.
\<close>

theorem axi_check_exact:
  "snd (axi_main path text) = Inr () \<longleftrightarrow>
     (\<exists>vs rules. parse_soc_top text = Inr (vs, rules) \<and> rules \<noteq> [] \<and> list_all (rule_ok vs) rules \<and>
        distinct (map fst rules) \<and> sorted_wrt (\<lambda>a b. rule_range vs a \<inter> rule_range vs b = {}) rules)"
proof -
  have step: "(\<exists>ws. check_windows vs rules path = Inr ws) \<longleftrightarrow> rules \<noteq> [] \<and> list_all (rule_ok vs) rules \<and>
        distinct (map fst rules) \<and> sorted_wrt (\<lambda>a b. rule_range vs a \<inter> rule_range vs b = {}) rules" for vs rules
  proof (cases "list_all (rule_ok vs) rules")
    case True
    then obtain ws where ws: "mapr (window_of vs) rules = Inr ws"
      using mapr_total [of rules "window_of vs" "\<lambda>_. False"] window_of_total by (auto simp: list_all_iff)
    then have l: "length ws = length rules" "\<And>i. i < length rules \<Longrightarrow> window_of vs (rules ! i) = Inr (ws ! i)"
      by (auto simp: mapr_list_all2 list_all2_conv_all_nth)
    then have f: "map fst ws = map fst rules" using window_of_ok [OF l(2)] by (intro nth_equalityI) simp_all
    have r: "map win_range ws = map (rule_range vs) rules" using l(1) window_of_ok [OF l(2)] by (intro nth_equalityI) simp_all
    have "windows_apart ws \<longleftrightarrow>
        sorted_wrt (\<lambda>a b. rule_range vs a \<inter> rule_range vs b = {}) rules" if "distinct (map fst ws)"
    proof -
      have "sorted_wrt (\<lambda>a b. rule_range vs a \<inter> rule_range vs b = {}) rules \<longleftrightarrow>
          sorted_wrt (\<lambda>a b. a \<inter> b = {}) (map (rule_range vs) rules)" by (simp add: sorted_wrt_map)
      also have "\<dots> \<longleftrightarrow> sorted_wrt (\<lambda>p c. win_range p \<inter> win_range c = {}) ws"
        by (simp add: r [symmetric] sorted_wrt_map)
      also have "\<dots> \<longleftrightarrow> windows_apart ws"
        using that unfolding windows_apart_def by (intro sorted_wrt_symmetric) (auto simp: distinct_map)
      finally show ?thesis by simp
    qed
    then show ?thesis using True ws f by (auto simp: check_windows_ok)
  next
    case False
    have "list_all (rule_ok vs) rules" if "mapr (window_of vs) rules = Inr ws" for ws
      using that window_of_ok unfolding mapr_list_all2 list_all2_conv_all_nth list_all_length by blast
    with False show ?thesis by (auto simp: check_windows_ok)
  qed
  show ?thesis unfolding axi_main_def by (auto simp: run_res_ok step [symmetric])
qed

end
