(* ===== verification/Scaffold.thy ===== *)
theory Scaffold
  imports Checks
begin

text \<open>
  What \<^verbatim>\<open>src/bin/create_core.py\<close> and \<^verbatim>\<open>src/bin/create_board.py\<close> share: names, the release
  version in \<^verbatim>\<open>corejack.core\<close>, and the creation of new files that never overwrites. The last
  section proves, once for both scripts, what a run of the creation loop leaves in the checkout.
\<close>

section \<open>Names, versions, files\<close>

definition ident_char :: "char \<Rightarrow> bool" where
  "ident_char c = (is_lower c \<or> is_digit c \<or> c = CHR ''_'')"

definition ident_rx :: rx where
  "ident_rx = RSeq (RChr is_lower) (star ident_char)"

definition require_identifier :: "string \<Rightarrow> string \<Rightarrow> unit res" where
  "require_identifier name field =
     fail_if (\<not> re_fullmatch ident_rx name)
       (field @ '' must match [a-z][a-z0-9_]*, got '' @ quoted name) (Inr ())"

definition CORE_FILE :: "repo \<Rightarrow> fpath" where
  "CORE_FILE r = root r @ [''corejack.core'']"

definition version_rx :: rx where
  "version_rx = rseq [RBol True, rlit ''name: corejack:corejack:platform:'',
     RGrp ''1'' (rseq [plus1 is_digit, RChr ((=) CHR ''.''), plus1 is_digit, RChr ((=) CHR ''.''), plus1 is_digit]),
     REol True]"

definition platform_version :: "repo \<Rightarrow> string res" where
  "platform_version r =
     bindr (read_text r (CORE_FILE r)) (\<lambda>t.
     case re_search version_rx t of
       None \<Rightarrow> Inl (Exit ''could not read the platform version from corejack.core'')
     | Some g \<Rightarrow> Inr (group ''1'' g))"

text \<open>\<^verbatim>\<open>upper()\<close> on a name that \<^verbatim>\<open>require_identifier\<close> has accepted.\<close>

definition upper_name :: "string \<Rightarrow> string" where
  "upper_name = map upper_char"

definition refuse :: "repo \<Rightarrow> fpath \<Rightarrow> unit res" where
  "refuse r path =
     (if path_exists r path
      then bindr (relative_to_root r path) (\<lambda>rel. Inl (Exit (''refusing to overwrite existing path: '' @ rel)))
      else Inr ())"

definition write_new :: "fpath \<times> string \<Rightarrow> repo \<Rightarrow> repo \<times> unit res" where
  "write_new pc r =
     then_do (look (\<lambda>r. refuse r (fst pc)) r) (\<lambda>_ r. (write_text r (fst pc) (snd pc), Inr ()))"

text \<open>The two loops over the files of a scaffold: the check of all paths, then the writes.\<close>

definition refuse_all :: "(fpath \<times> string) list \<Rightarrow> repo \<Rightarrow> unit res" where
  "refuse_all pcs r = eachr (\<lambda>pc. refuse r (fst pc)) pcs"

fun write_new_all :: "(fpath \<times> string) list \<Rightarrow> repo \<Rightarrow> repo \<times> unit res" where
  "write_new_all [] r = (r, Inr ())"
| "write_new_all (pc # pcs) r = then_do (write_new pc r) (\<lambda>_. write_new_all pcs)"

text \<open>\<^verbatim>\<open>re.search\<close> and the text with the match replaced.\<close>

definition re_splice :: "rx \<Rightarrow> (groups \<Rightarrow> string) \<Rightarrow> string \<Rightarrow> string option" where
  "re_splice rx f s =
     (case re_search_from rx [] s of
        None \<Rightarrow> None
      | Some (pre, t, (pre', s', g)) \<Rightarrow> Some (rev pre @ f g @ s'))"

text \<open>Read a file, edit its text, write it back.\<close>

definition edit_file :: "fpath \<Rightarrow> (string \<Rightarrow> string res) \<Rightarrow> repo \<Rightarrow> repo \<times> unit res" where
  "edit_file path f r =
     then_do (look (\<lambda>r. bindr (read_text r path) f) r) (\<lambda>t r. (write_text r path t, Inr ()))"

section \<open>Paths of a scaffold\<close>

lemma ident_ok: "re_fullmatch ident_rx s \<longleftrightarrow> s \<noteq> [] \<and> is_lower (hd s) \<and> list_all ident_char s"
proof (cases s)
  case (Cons c t)
  have "is_lower c \<Longrightarrow> ident_char c" by (simp add: ident_char_def)
  then show ?thesis using Cons
    by (auto simp: re_fullmatch_def ident_rx_def star_full simp del: rmatch.simps(5))
qed (simp add: re_fullmatch_def ident_rx_def)

lemma require_identifier_ok [res_simps]:
  "require_identifier name field = Inr u \<longleftrightarrow> name \<noteq> [] \<and> is_lower (hd name) \<and> list_all ident_char name"
  by (auto simp: require_identifier_def res_simps ident_ok)

lemma ident_char_key: "ident_char c \<Longrightarrow> is_key c"
  by (auto simp: ident_char_def is_key_def is_alnum_def)

lemma ident_keys: "list_all ident_char s \<Longrightarrow> list_all is_key s"
  by (auto simp: list_all_iff ident_char_key)

lemma one_line_ident: "list_all ident_char s \<Longrightarrow> one_line s"
  by (simp add: one_line_keys ident_keys)

lemma ident_char_not_slash: "ident_char c \<Longrightarrow> c \<noteq> CHR ''/''"
  by (auto simp: ident_char_def class_defs code_def)

lemma ident_no_slash: "list_all ident_char s \<Longrightarrow> CHR ''/'' \<notin> set s"
  by (auto simp: list_all_iff dest: ident_char_not_slash)

text \<open>A file name: one component of a path.\<close>

definition file_name :: "string \<Rightarrow> bool" where
  "file_name n = (n \<noteq> [] \<and> n \<noteq> ''.'' \<and> n \<noteq> ''..'' \<and> CHR ''/'' \<notin> set n)"

lemma path_join_name:
  assumes "file_name n"
  shows "path_join p n = p @ [n]"
proof -
  have "split_by ((=) CHR ''/'') n = [n]" using assms by (intro split_by_none) (auto simp: file_name_def)
  moreover have "\<not> prefix ''/'' n" using assms by (auto simp: file_name_def prefix_def)
  ultimately show ?thesis using assms by (simp add: path_join_def components_def split_on_def file_name_def)
qed

lemma file_name_start: "n \<noteq> [] \<Longrightarrow> is_key (hd n) \<Longrightarrow> CHR ''/'' \<notin> set n \<Longrightarrow> file_name n"
  by (auto simp: file_name_def)

lemma plain_snoc: "plain_path p \<Longrightarrow> file_name n \<Longrightarrow> plain_path (p @ [n])"
  by (auto simp: plain_path_def file_name_def)

text \<open>On a plain path the walk of the file system changes nothing.\<close>

lemma walk_path_plain: "''..'' \<notin> set cs \<Longrightarrow> walk_path r p cs = Some q \<Longrightarrow> q = p @ cs"
  by (induction r p cs rule: walk_path.induct) (auto split: if_splits)

lemma is_dir_iff: "is_dir r p \<longleftrightarrow> (\<exists>q\<in>fst ` set (files r). strict_prefix p q)"
  by (force simp: is_dir_def list_ex_iff)

lemma walk_path_dir:
  "''..'' \<notin> set cs \<Longrightarrow> is_dir r (p @ cs) \<Longrightarrow> walk_path r p cs = Some (p @ cs)"
proof (induction r p cs rule: walk_path.induct)
  case (3 r p c d cs)
  have "strict_prefix (p @ [c]) q" if "strict_prefix (p @ c # d # cs) q" for q
    using that by (auto simp: strict_prefix_def prefix_def)
  then have "is_dir r (p @ [c])" using "3.prems"(2) by (auto simp: is_dir_iff)
  with 3 show ?case by auto
qed auto

lemma path_exists_plain: "plain_path p \<Longrightarrow> path_exists r p \<longleftrightarrow> lookup_file r p \<noteq> None \<or> is_dir r p"
  using walk_path_plain [of p r "[]"] walk_path_dir [of p r "[]"]
  by (auto simp: path_exists_def plain_path_def is_file_def split: option.splits)

lemma keys_write: "fst ` set (files (write_text r k t)) = insert k (fst ` set (files r))"
  using arg_cong [OF update_keys [of k "universal_newlines t" "files r"], of set]
  by (auto simp: write_text_def split: if_splits)

lemma is_dir_write: "is_dir (write_text r p t) q \<longleftrightarrow> is_dir r q \<or> strict_prefix q p"
  by (auto simp: is_dir_iff keys_write)

lemma path_exists_write:
  "plain_path p \<Longrightarrow> plain_path q \<Longrightarrow> \<not> prefix q p \<Longrightarrow> path_exists (write_text r p t) q \<longleftrightarrow> path_exists r q"
  by (auto simp: path_exists_plain is_dir_write checkout.get_put strict_prefix_def)

lemma paths_write [simp]:
  "PLATFORM_PKG (write_text r p t) = PLATFORM_PKG r" "CORE_FILE (write_text r p t) = CORE_FILE r"
  "BOARD_DIR (write_text r p t) = BOARD_DIR r" "CORE_DIR (write_text r p t) = CORE_DIR r"
  by (simp_all add: PLATFORM_PKG_def CORE_FILE_def BOARD_DIR_def CORE_DIR_def)

section \<open>The loops of a scaffold\<close>

lemma refuse_all_ok:
  "refuse_all pcs r = Inr u \<longleftrightarrow> (\<forall>pc\<in>set pcs. \<not> path_exists r (fst pc) \<or> refuse r (fst pc) = Inr ())"
  by (auto simp: refuse_all_def res_simps refuse_def)

text \<open>
  Independent paths: plain, and none below another. Then the second loop succeeds where the first
  one did, and it writes every file.
\<close>

definition apart :: "fpath list \<Rightarrow> bool" where
  "apart ps = (list_all plain_path ps \<and> sorted_wrt (\<lambda>p q. \<not> prefix p q \<and> \<not> prefix q p) ps)"

lemma apart_distinct: "apart ps \<Longrightarrow> distinct ps"
  by (induction ps) (auto simp: apart_def)

lemma write_new_all_put:
  "apart (map fst pcs) \<Longrightarrow> \<forall>pc\<in>set pcs. \<not> path_exists r (fst pc) \<Longrightarrow>
     write_new_all pcs r = (checkout.put_all r pcs, Inr ())"
proof (induction pcs arbitrary: r)
  case (Cons pc pcs)
  have "write_new pc r = (write_text r (fst pc) (snd pc), Inr ())"
    using Cons.prems(2) by (simp add: write_new_def look_def refuse_def)
  moreover have "\<forall>pd\<in>set pcs. \<not> path_exists (write_text r (fst pc) (snd pc)) (fst pd)"
    using Cons.prems by (auto simp: apart_def list_all_iff path_exists_write)
  moreover have "apart (map fst pcs)" using Cons.prems(1) by (simp add: apart_def)
  ultimately show ?case using Cons.IH by (cases pc) auto
qed simp

lemma root_put_all [simp]: "root (checkout.put_all r pcs) = root r"
  by (induction r pcs rule: checkout.put_all.induct) auto

lemma edit_file_ok [res_simps]:
  "edit_file p f r = (r', Inr u) \<longleftrightarrow>
     (\<exists>t t'. lookup_file r p = Some t \<and> f t = Inr t' \<and> r' = write_text r p t')"
  by (auto simp: edit_file_def res_simps read_text_ok)

lemma edit_file_fails: "edit_file p f r = (r', Inl e) \<Longrightarrow> r' = r"
  by (auto simp: edit_file_def res_simps)

section \<open>Texts of a generated descriptor\<close>

text \<open>Scalars that the readers return as they were printed.\<close>

definition plain_scalar :: "string \<Rightarrow> bool" where
  "plain_scalar v = (plain_text v \<and> unquote_ends v = v)"

lemma nonblank_Cons: "nonblank (c # s) \<longleftrightarrow> \<not> is_space c \<or> nonblank s"
  by (auto simp: nonblank_def strip_by_eq_Nil)

lemma nonblank_Nil [simp]: "\<not> nonblank []"
  by (simp add: nonblank_def)

lemma plain_scalar_keys:
  assumes "s \<noteq> []" "list_all is_key s"
  shows "plain_scalar s"
proof -
  have "is_key (hd s)" "is_key (last s)" using assms by (auto simp: list_all_iff)
  then have "\<not> is_space (hd s)" "\<not> is_space (last s)" "\<not> is_quote (hd s)"
    by (auto simp: is_key_not_space is_quote_def)
  then show ?thesis using assms by (auto simp: plain_scalar_def plain_text_def one_line_keys strip_by_self unquote_ends_def)
qed

lemma quote_free_keys:
  assumes "s \<noteq> []" "list_all is_key s"
  shows "quote_free s"
proof -
  have "is_key (hd s)" "is_key (last s)" using assms by (auto simp: list_all_iff)
  then have "\<not> is_quote (hd s)" "\<not> is_quote (last s)" by (auto simp: is_quote_def)
  then show ?thesis by (simp add: quote_free_def strip_by_self)
qed

text \<open>A scalar that starts and ends with a letter, a digit or an underscore is read as it is.\<close>

lemma plain_scalar_ends: "s \<noteq> [] \<Longrightarrow> is_key (hd s) \<Longrightarrow> is_key (last s) \<Longrightarrow> one_line s \<Longrightarrow> plain_scalar s"
  by (auto simp: plain_scalar_def plain_text_def strip_by_self unquote_ends_def is_key_not_space is_quote_def)

lemma plain_scalar_str: "0 \<le> n \<Longrightarrow> plain_scalar (py_str n)"
  using dec_digits [of "nat n"] by (intro plain_scalar_keys) (auto simp: py_str_def list_all_iff is_digit_key)

lemma unlines_no_cr: "list_all one_line ls \<Longrightarrow> CHR 0x0D \<notin> set (unlines ls)"
proof (induction ls)
  case (Cons l ls)
  have "CHR 0x0D \<notin> set l"
  proof
    assume "CHR 0x0D \<in> set l"
    then have "\<not> one_line l" using cr_is_linebreak by (auto simp: one_line_def list_all_iff simp del: cr_is_linebreak)
    with Cons.prems show False by simp
  qed
  with Cons show ?case by simp
qed simp

text \<open>An item added to a list: the lines that were there stay, and no carriage return comes in.\<close>

lemma append_keeps_lines:
  assumes "plain_text item" "append_yaml_top_list_item text key item = Inr text'" "CHR 0x0D \<notin> set text"
  shows "subseq (splitlines text) (splitlines text') \<and> CHR 0x0D \<notin> set text'"
proof (cases "yaml_top_list_contains text key item")
  case True
  then show ?thesis using assms(2,3) by (simp add: append_yaml_top_list_item_def)
next
  case False
  obtain out where e: "append_scan key item None (splitlines text) = (out, True)" "splitlines text' = out"
    using append_edit [OF assms(1) False assms(2)] by blast
  from append_scan_inserts [OF e(1)] obtain xs ys b where ins: "splitlines text = xs @ ys" "out = xs @ item_line b item # ys" by blast
  have "text' = join [NL] out @ [NL]" using False assms(2) e(1) by (simp add: append_yaml_top_list_item_def)
  also have "\<dots> = unlines out" by (rule join_NL_unlines) (simp add: ins(2))
  finally have "text' = unlines out" .
  moreover have "list_all one_line out" using e(2) splitlines_one_line [of _ text'] by (auto simp: list_all_iff)
  ultimately have "CHR 0x0D \<notin> set text'" using unlines_no_cr by blast
  moreover have "subseq (xs @ ys) (xs @ item_line b item # ys)" by (intro list_emb_append_mono list_emb_Cons subseq_order.refl)
  ultimately show ?thesis unfolding e(2) ins by blast
qed

section \<open>Well-formed checkouts\<close>

text \<open>
  Paths are lists of file names, and no text holds a carriage return, since a text is what
  \<^verbatim>\<open>read_text\<close> returns.
\<close>

definition wf_repo :: "repo \<Rightarrow> bool" where
  "wf_repo r = (list_all file_name (root r) \<and>
     list_all (\<lambda>(p, t). list_all file_name p \<and> CHR 0x0D \<notin> set t) (files r))"

lemma wf_repo_write: "wf_repo r \<Longrightarrow> list_all file_name p \<Longrightarrow> wf_repo (write_text r p t)"
proof -
  have "list_all (\<lambda>(p, t). list_all file_name p \<and> CHR 0x0D \<notin> set t) (AList.update p (universal_newlines t) fs)"
    if "list_all (\<lambda>(p, t). list_all file_name p \<and> CHR 0x0D \<notin> set t) fs" "list_all file_name p" for fs
    using that by (induction fs) (auto simp: universal_newlines_no_cr)
  then show "wf_repo r \<Longrightarrow> list_all file_name p \<Longrightarrow> wf_repo (write_text r p t)" by (simp add: wf_repo_def write_text_def)
qed

lemma wf_repo_put_all: "wf_repo r \<Longrightarrow> list_all (\<lambda>kt. list_all file_name (fst kt)) kts \<Longrightarrow> wf_repo (checkout.put_all r kts)"
  by (induction r kts rule: checkout.put_all.induct) (auto simp: wf_repo_write)

lemma plain_names: "list_all file_name p \<Longrightarrow> plain_path p"
  by (auto simp: plain_path_def list_all_iff file_name_def)

lemma wf_repo_plain: "wf_repo r \<Longrightarrow> plain_path (root r)"
  by (simp add: wf_repo_def plain_names)

lemma wf_repo_text: "wf_repo r \<Longrightarrow> lookup_file r p = Some t \<Longrightarrow> CHR 0x0D \<notin> set t"
  by (auto simp: wf_repo_def lookup_file_def list_all_iff dest!: map_of_SomeD split: if_splits option.splits bind_splits)

lemma keys_put_all: "fst ` set (files (checkout.put_all r kts)) = fst ` set (files r) \<union> fst ` set kts"
  by (induction r kts rule: checkout.put_all.induct) (auto simp: keys_write)

lemma entries_iff: "c \<in> set (entries r d) \<longleftrightarrow> (\<exists>p\<in>fst ` set (files r). strict_prefix d p \<and> p ! length d = c)"
  by (force simp: entries_def)

lemma descriptor_names_iff:
  "c \<in> set (descriptor_names r d) \<longleftrightarrow>
     (\<exists>e. e \<in> set (entries r d) \<and> suffix ''.yaml'' e \<and> c = stem ''.yaml'' e)"
  by (auto simp: descriptor_names_def glob_ext_def)

lemma stem_yaml: "n \<noteq> [] \<Longrightarrow> stem ''.yaml'' (n @ ''.yaml'') = n"
  by (simp add: stem_def)

lemma descriptor_listed:
  assumes "lookup_file r (d @ [n @ ''.yaml'']) = Some t" "plain_path (d @ [n @ ''.yaml''])" "n \<noteq> []"
  shows "n \<in> set (descriptor_names r d)"
proof -
  have "(d @ [n @ ''.yaml''], t) \<in> set (files r)" using assms(1,2) by (auto simp: lookup_plain plain_path_def dest: map_of_SomeD)
  then have "n @ ''.yaml'' \<in> set (entries r d)"
    unfolding entries_iff by (intro bexI [of _ "d @ [n @ ''.yaml'']"]) (force simp: strict_prefix_def)+
  then show ?thesis unfolding descriptor_names_iff by (intro exI [of _ "n @ ''.yaml''"]) (simp add: stem_yaml assms(3) suffix_def)
qed

text \<open>The name of a descriptor is a file name without slashes, so that its path is the obvious one.\<close>

lemma listed_path:
  assumes "wf_repo r" "n \<in> set (descriptor_names r d)"
  shows "descriptor_path d n = d @ [n @ ''.yaml''] \<and> file_name (n @ ''.yaml'')"
proof -
  from assms(2) obtain p e where p: "p \<in> fst ` set (files r)" "strict_prefix d p" "e = p ! length d" "n = stem ''.yaml'' e"
    unfolding descriptor_names_iff entries_iff by blast
  have "length d < length p" using p(2) by (rule prefix_length_less)
  then have "e \<in> set p" using p(3) by simp
  moreover have "list_all file_name p" using assms(1) p(1) by (auto simp: wf_repo_def list_all_iff)
  ultimately have "CHR ''/'' \<notin> set e" by (auto simp: list_all_iff file_name_def)
  then have "CHR ''/'' \<notin> set n" using p(4) by (auto simp: stem_def dest: in_set_takeD split: if_splits)
  then have "file_name (n @ ''.yaml'')" by (cases n) (auto simp: file_name_def)
  then show ?thesis by (simp add: descriptor_path_def path_join_name)
qed

lemma wf_root: "wf_repo r \<Longrightarrow> list_all file_name (root r)"
  by (simp add: wf_repo_def)

end
