(* ===== verification/Create_Core.thy ===== *)
theory Create_Core
  imports Scaffold
begin

text \<open>
  \<^verbatim>\<open>src/bin/create_core.py\<close>: the scaffold of a new core. A run checks the arguments, edits
  \<^verbatim>\<open>platform_pkg.sv\<close>, \<^verbatim>\<open>corejack.core\<close> and the board descriptor, and creates three files.
  The arguments are a record; \<open>core_spec\<close> is the same namespace after \<^verbatim>\<open>create_core\<close> has
  filled in the version and the defaults.
\<close>

section \<open>Arguments\<close>

record core_args =
  ca_core :: string
  ca_display_name :: "string option"
  ca_board :: string
  ca_xlen :: int
  ca_march :: string
  ca_mabi :: string
  ca_instruction_bus :: string
  ca_data_bus :: string
  ca_platform_integration :: string
  ca_integration_suffix :: string
  ca_core_type :: "int option"

record core_spec =
  sp_core :: string
  sp_display_name :: string
  sp_board :: string
  sp_xlen :: int
  sp_march :: string
  sp_mabi :: string
  sp_instruction_bus :: string
  sp_data_bus :: string
  sp_platform_integration :: string
  sp_integration_suffix :: string
  sp_core_type :: int
  sp_version :: string

definition core_enum_name :: "string \<Rightarrow> string" where
  "core_enum_name core = ''Core'' @ concat (map capitalize (segments_of is_alnum (py_lower core)))"

definition existing_core_type_values :: "string \<Rightarrow> int list res" where
  "existing_core_type_values text =
     (case re_search core_type_e_rx text of
        None \<Rightarrow> Inl (Exit ''could not find platform_pkg::core_type_e'')
      | Some g \<Rightarrow> Inr (map (\<lambda>m. int_of_digits (group ''2'' (snd m))) (re_finditer enum_member_rx (group ''body'' g))))"

text \<open>\<^verbatim>\<open>max(values, default=-1) + 1\<close>\<close>

definition next_core_type :: "repo \<Rightarrow> int res" where
  "next_core_type r =
     bindr (read_text r (PLATFORM_PKG r)) (\<lambda>text.
     bindr (existing_core_type_values text) (\<lambda>values.
     Inr ((if values = [] then -1 else Max (set values)) + 1)))"

definition adapter_name :: "core_spec \<Rightarrow> string" where
  "adapter_name a = ''corejack_'' @ sp_core a @ ''_'' @ sp_integration_suffix a @ ''_adapter''"

text \<open>The checks of \<^verbatim>\<open>create_core\<close> on its arguments, and the defaults it fills in.\<close>

definition core_spec_of :: "repo \<Rightarrow> core_args \<Rightarrow> core_spec res" where
  "core_spec_of r args =
     bindr (platform_version r) (\<lambda>version.
     bindr (require_identifier (ca_core args) ''core'') (\<lambda>_.
     bindr (require_identifier (ca_board args) ''board'') (\<lambda>_.
     bindr (require_identifier (ca_integration_suffix args) ''integration suffix'') (\<lambda>_.
     fail_if (ca_platform_integration args \<noteq> ''socket_region'')
       ''the scaffold helper currently supports only socket_region cores'' (
     fail_if (ca_instruction_bus args \<notin> set BUSES)
       (''unsupported instruction bus contract: '' @ ca_instruction_bus args) (
     fail_if (ca_data_bus args \<notin> set BUSES) (''unsupported data bus contract: '' @ ca_data_bus args) (
     fail_if (ca_xlen args \<notin> {32, 64}) ''--xlen must be 32 or 64'' (
     bindr (case ca_core_type args of None \<Rightarrow> next_core_type r | Some n \<Rightarrow> Inr n) (\<lambda>core_type.
     let display_name = (case ca_display_name args of None \<Rightarrow> upper_name (ca_core args) | Some d \<Rightarrow> d) in
     fail_if (ca_xlen args = 32 \<and> \<not> prefix ''ilp32'' (ca_mabi args)) ''RV32 cores must use an ilp32 ABI'' (
     fail_if (ca_xlen args = 64 \<and> \<not> prefix ''lp64'' (ca_mabi args)) ''RV64 cores must use an lp64 ABI'' (
     fail_if (\<not> prefix (''rv'' @ py_str (ca_xlen args)) (ca_march args))
       (''--march must start with rv'' @ py_str (ca_xlen args)) (
     Inr \<lparr>sp_core = ca_core args, sp_display_name = display_name, sp_board = ca_board args,
          sp_xlen = ca_xlen args, sp_march = ca_march args, sp_mabi = ca_mabi args,
          sp_instruction_bus = ca_instruction_bus args, sp_data_bus = ca_data_bus args,
          sp_platform_integration = ca_platform_integration args,
          sp_integration_suffix = ca_integration_suffix args, sp_core_type = core_type,
          sp_version = version\<rparr>))))))))))))"

section \<open>Generated files\<close>

definition core_descriptor_lines :: "core_spec \<Rightarrow> string list" where
  "core_descriptor_lines a =
    [''name: '' @ sp_core a,
     ''display_name: '' @ sp_display_name a,
     [],
     ''integration:'',
     ''  sim: planned'',
     ''  fpga: planned'',
     ''  debug: planned'',
     [],
     ''adapter:'',
     ''  module: '' @ adapter_name a,
     ''  file: rtl/cores/'' @ adapter_name a @ ''.sv'',
     [],
     ''platform:'',
     ''  core_type: '' @ py_str (sp_core_type a),
     ''  integration: '' @ sp_platform_integration a,
     [],
     ''wrapper:'',
     ''  module: '' @ sp_core a @ ''_wrapper'',
     [],
     ''fusesoc:'',
     ''  sim_target: sw-sim'',
     ''  core_flag: core_'' @ sp_core a,
     [],
     ''isa:'',
     ''  xlen: '' @ py_str (sp_xlen a),
     ''  march: '' @ sp_march a,
     ''  mabi: '' @ sp_mabi a,
     [],
     ''reset:'',
     ''  boot_addr: 0x80000000'',
     ''  mtvec_addr: 0x80000000'',
     [],
     ''debug:'',
     ''  supported: false'',
     [],
     ''buses:'',
     ''  instruction: '' @ sp_instruction_bus a,
     ''  data: '' @ sp_data_bus a,
     [],
     ''clocking:'',
     ''  validated_min_hz: 0'',
     ''  validated_max_hz: 0'',
     [],
     ''software:'',
     ''  default_target: sim'',
     ''  toolchain: riscv-multilib'',
     ''  zephyr:'',
     ''    status: planned'',
     [],
     ''compatible_boards:'',
     ''  - '' @ sp_board a]"

definition core_descriptor :: "core_spec \<Rightarrow> string" where
  "core_descriptor a = unlines (core_descriptor_lines a)"

definition core_fusesoc :: "core_spec \<Rightarrow> string" where
  "core_fusesoc a = unlines
    [''CAPI=2:'',
     [],
     ''name: corejack:cores:'' @ sp_core a @ '':'' @ sp_version a,
     ''description: '' @ sp_display_name a @ '' RTL and CoreJack adapter used by the CoreJack platform'',
     [],
     ''filesets:'',
     ''  rtl:'',
     ''    files:'',
     ''      - rtl/cores/'' @ adapter_name a @ ''.sv'',
     ''    file_type: systemVerilogSource'',
     [],
     ''targets:'',
     ''  default:'',
     ''    filesets:'',
     ''      - rtl'']"

text \<open>\<^verbatim>\<open>core_adapter\<close>, the placeholder module.\<close>

definition core_adapter_text :: "core_spec \<Rightarrow> string" where
  "core_adapter_text a = unlines
    [''// Placeholder adapter for '' @ sp_display_name a @ ''.'',
     ''//'',
     ''// This scaffold is intentionally not wired into corejack_core_region. Replace'',
     ''// this module with the real core protocol adapter before attempting simulation'',
     ''// or FPGA support promotion.'',
     ''module '' @ adapter_name a @ '';'',
     ''endmodule'']"

section \<open>Edited files\<close>

definition last_member_rx :: rx where
  "last_member_rx = rseq [RGrp ''indent'' (star is_space),
     RGrp ''last'' (rseq [rlit ''Core'', plus1 is_alnum, star is_space, RChr ((=) CHR ''=''), star is_space, plus1 is_digit]),
     RGrp ''trailing'' (star is_space), RChr ((=) NL),
     RGrp ''close'' (rseq [star is_space, RChr ((=) CHR ''}''), star is_space, rlit ''core_type_e'', star is_space,
       RChr ((=) CHR '';'')])]"

definition member_edit :: "core_spec \<Rightarrow> groups \<Rightarrow> string" where
  "member_edit a g =
     group ''indent'' g @ group ''last'' g @ '','' @ [NL] @
     group ''indent'' g @ core_enum_name (sp_core a) @ '' = '' @ py_str (sp_core_type a) @ group ''trailing'' g @ [NL] @
     group ''close'' g"

definition edit_platform_pkg :: "core_spec \<Rightarrow> string \<Rightarrow> string res" where
  "edit_platform_pkg a text =
     (let enum_name = core_enum_name (sp_core a)
      in fail_if (re_search (rseq [RWordb, rlit enum_name, RWordb]) text \<noteq> None)
           (enum_name @ '' already exists in rtl/pkg/platform_pkg.sv'') (
         case re_splice last_member_rx (member_edit a) text of
           None \<Rightarrow> Inl (Exit ''could not find final core_type_e enum entry'')
         | Some t \<Rightarrow> Inr t))"

definition update_platform_pkg :: "core_spec \<Rightarrow> repo \<Rightarrow> repo \<times> unit res" where
  "update_platform_pkg a r = edit_file (PLATFORM_PKG r) (edit_platform_pkg a) r"

text \<open>A marker that must be in the text, and its first occurrence replaced.\<close>

definition replace_marker :: "string \<Rightarrow> string \<Rightarrow> string \<Rightarrow> string \<Rightarrow> string res" where
  "replace_marker what marker new text =
     fail_if (\<not> contains marker text) (''could not find '' @ what @ '' marker in corejack.core'')
       (Inr (replace_first marker new text))"

definition cvw_line :: string where
  "cvw_line = ''      - core_cvw ? (core_cvw_rtl)'' @ [NL]"

definition region_line :: string where
  "region_line = ''      - core_region ? (core_region_rtl)''"

definition axku5_line :: string where
  "axku5_line = [NL] @ ''      - board_axku5 ? (board_axku5_rtl)''"

definition define_name :: "string \<Rightarrow> string" where
  "define_name core = ''COREJACK_CORE_'' @ upper_name (re_sub (plus1 (\<lambda>c. \<not> is_alnum c)) (\<lambda>m g. ''_'') core)"

definition edit_corejack_core :: "core_spec \<Rightarrow> string \<Rightarrow> string res" where
  "edit_corejack_core a text =
     (let flag = ''core_'' @ sp_core a; fileset = flag @ ''_rtl''; def = define_name (sp_core a);
          marker = [NL] @ ''  core_region_rtl:'' @ [NL];
          block = [NL] @ ''  '' @ fileset @ '':'' @ [NL] @ ''    depend:'' @ [NL] @
            ''      - corejack:cores:'' @ sp_core a @ '':'' @ sp_version a @ [NL];
          define_marker = ''        - core_cvw ? (-DCOREJACK_CORE_CVW)'' @ [NL];
          fileset_line = ''      - '' @ flag @ '' ? ('' @ fileset @ '')'' @ [NL]
      in fail_if (contains (''  '' @ fileset @ '':'') text) (fileset @ '' already exists in corejack.core'') (
         fail_if (contains (flag @ '' ? ('') text) (flag @ '' already exists in corejack.core'') (
         bindr (replace_marker ''core_region_rtl'' marker (block @ marker) text) (\<lambda>text.
         bindr (replace_marker ''sw-sim core define'' define_marker
                  (define_marker @ ''        - '' @ flag @ '' ? (-D'' @ def @ '')'' @ [NL]) text) (\<lambda>text.
         bindr (replace_marker ''sw-sim fileset'' (cvw_line @ region_line) (cvw_line @ fileset_line @ region_line) text) (\<lambda>text.
         replace_marker ''fpga fileset'' (cvw_line @ region_line @ axku5_line)
           (cvw_line @ fileset_line @ region_line @ axku5_line) text))))))"

definition update_corejack_core :: "core_spec \<Rightarrow> repo \<Rightarrow> repo \<times> unit res" where
  "update_corejack_core a r = edit_file (CORE_FILE r) (edit_corejack_core a) r"

definition update_board_descriptor :: "core_spec \<Rightarrow> repo \<Rightarrow> repo \<times> unit res" where
  "update_board_descriptor a r =
     (let path = descriptor_path (BOARD_DIR r) (sp_board a)
      in if \<not> is_file r path
         then look (\<lambda>r. bindr (relative_to_root r path) (\<lambda>rel. Inl (Exit (''board descriptor not found: '' @ rel)))) r
         else edit_file path (\<lambda>text. append_yaml_top_list_item text ''compatible_cores'' (sp_core a)) r)"

section \<open>create_core\<close>

definition core_files :: "repo \<Rightarrow> core_spec \<Rightarrow> (fpath \<times> string) list" where
  "core_files r a =
    [(descriptor_path (CORE_DIR r) (sp_core a), core_descriptor a),
     (path_join (root r @ [''rtl'', ''cores'']) (adapter_name a @ ''.sv''), core_adapter_text a),
     (path_join (root r) (''corejack_core_'' @ sp_core a @ ''.core''), core_fusesoc a)]"

text \<open>On success the lines printed are returned.\<close>

definition create_core :: "core_args \<Rightarrow> repo \<Rightarrow> repo \<times> string list res" where
  "create_core args r =
     then_do (look (\<lambda>r. core_spec_of r args) r) (\<lambda>a r.
     then_do (look (refuse_all (core_files r a)) r) (\<lambda>_ r.
     then_do (update_platform_pkg a r) (\<lambda>_ r.
     then_do (update_corejack_core a r) (\<lambda>_ r.
     then_do (update_board_descriptor a r) (\<lambda>_ r.
     then_do (write_new_all (core_files r a) r) (\<lambda>_ r.
     (r, Inr [''Created core scaffold for CORE='' @ sp_core a,
              ''Run: make core-check CORE='' @ sp_core a,
              ''Then replace the placeholder adapter with a real core integration.''])))))))"

section \<open>What a run leaves behind\<close>

lemma core_spec_ok:
  assumes "core_spec_of r args = Inr a"
  shows "sp_core a = ca_core args" "sp_board a = ca_board args"
    "sp_core a \<noteq> []" "is_lower (hd (sp_core a))" "list_all ident_char (sp_core a)"
    "sp_board a \<noteq> []" "is_lower (hd (sp_board a))" "list_all ident_char (sp_board a)"
    "list_all ident_char (sp_integration_suffix a)"
  using assms by (auto simp: core_spec_of_def res_simps Let_def)

lemma core_paths:
  assumes "core_spec_of r args = Inr a"
  shows "map fst (core_files r' a) = [root r' @ [''cfg'', ''cores'', sp_core a @ ''.yaml''],
      root r' @ [''rtl'', ''cores'', adapter_name a @ ''.sv''], root r' @ [''corejack_core_'' @ sp_core a @ ''.core'']]"
    and "descriptor_path (BOARD_DIR r') (sp_board a) = root r' @ [''cfg'', ''boards'', sp_board a @ ''.yaml'']"
proof -
  note ok = core_spec_ok [OF assms]
  have n: "file_name (sp_core a @ ''.yaml'')" "file_name (sp_board a @ ''.yaml'')"
    "file_name (adapter_name a @ ''.sv'')" "file_name (''corejack_core_'' @ sp_core a @ ''.core'')"
    using ok by (auto intro!: file_name_start simp: ident_no_slash adapter_name_def is_lower_key is_lower_bits)
  then show "map fst (core_files r' a) = [root r' @ [''cfg'', ''cores'', sp_core a @ ''.yaml''],
      root r' @ [''rtl'', ''cores'', adapter_name a @ ''.sv''], root r' @ [''corejack_core_'' @ sp_core a @ ''.core'']]"
    and "descriptor_path (BOARD_DIR r') (sp_board a) = root r' @ [''cfg'', ''boards'', sp_board a @ ''.yaml'']"
    by (simp_all add: core_files_def descriptor_path_def CORE_DIR_def BOARD_DIR_def path_join_name)
qed


text \<open>The files a run may write, in the order it writes them.\<close>

definition core_written :: "repo \<Rightarrow> core_spec \<Rightarrow> fpath list" where
  "core_written r a = PLATFORM_PKG r # CORE_FILE r # descriptor_path (BOARD_DIR r) (sp_board a) # map fst (core_files r a)"

lemma core_written_apart:
  assumes "core_spec_of r args = Inr a" "plain_path (root r)"
  shows "apart (core_written r a)"
proof -
  have "sp_core a \<noteq> []" "is_lower (hd (sp_core a))" using core_spec_ok [OF assms(1)] by auto
  moreover have "plain_path [sp_core a @ ''.yaml'']" "plain_path [sp_board a @ ''.yaml'']" using core_spec_ok [OF assms(1)]
    by (cases "sp_core a"; cases "sp_board a"; auto simp: plain_path_def is_lower_bits)+
  ultimately show ?thesis using assms(2)
    by (auto simp: core_written_def core_paths [OF assms(1)] apart_def plain_path_def PLATFORM_PKG_def CORE_FILE_def adapter_name_def)
qed


lemma core_files_write [simp]: "core_files (write_text r p t) a = core_files r a"
  by (simp add: core_files_def)

text \<open>A run that returns: the three edits of the old texts and the three new files, one after the other.\<close>

definition core_edits :: "repo \<Rightarrow> core_spec \<Rightarrow> string \<Rightarrow> string \<Rightarrow> string \<Rightarrow> (fpath \<times> string) list" where
  "core_edits r a pkg core board =
     [(PLATFORM_PKG r, pkg), (CORE_FILE r, core), (descriptor_path (BOARD_DIR r) (sp_board a), board)] @ core_files r a"

lemma core_edits_paths [simp]: "map fst (core_edits r a pkg core board) = core_written r a"
  by (simp add: core_edits_def core_written_def)

text \<open>The edits leave the new paths free, so that the last loop writes every file.\<close>

lemma core_files_written:
  assumes "core_spec_of r args = Inr a" "plain_path (root r)" "refuse_all (core_files r a) r = Inr ()"
    and "r3 = write_text (write_text (write_text r (PLATFORM_PKG r) pkg) (CORE_FILE r) core)
      (descriptor_path (BOARD_DIR r) (sp_board a)) board"
  shows "\<forall>pc\<in>set (core_files r a). \<not> path_exists r (fst pc)"
    and "write_new_all (core_files r3 a) r3 = (checkout.put_all r (core_edits r a pkg core board), Inr ())"
proof -
  have ap: "apart (core_written r a)" by (rule core_written_apart [OF assms(1,2)])
  show free: "\<forall>pc\<in>set (core_files r a). \<not> path_exists r (fst pc)"
    using assms(3) by (auto simp: refuse_all_ok refuse_def res_simps split: if_splits)
  have "path_exists (write_text s p t) (fst pc) \<longleftrightarrow> path_exists s (fst pc)"
    if "pc \<in> set (core_files r a)" "p \<in> {PLATFORM_PKG r, CORE_FILE r, descriptor_path (BOARD_DIR r) (sp_board a)}" for pc s p t
    using ap that by (intro path_exists_write) (auto simp: apart_def core_written_def list_all_iff)
  with free assms(4) have "\<forall>pc\<in>set (core_files r3 a). \<not> path_exists r3 (fst pc)" by simp
  moreover have "apart (map fst (core_files r3 a))" using ap assms(4) by (simp add: apart_def core_written_def)
  ultimately show "write_new_all (core_files r3 a) r3 = (checkout.put_all r (core_edits r a pkg core board), Inr ())"
    using write_new_all_put assms(4) by (simp add: core_edits_def)
qed

lemma create_core_run:
  assumes "create_core args r = (r', Inr out)" "plain_path (root r)"
  obtains a pkg pkg' core core' board board' where "core_spec_of r args = Inr a"
    "lookup_file r (PLATFORM_PKG r) = Some pkg" "edit_platform_pkg a pkg = Inr pkg'"
    "lookup_file r (CORE_FILE r) = Some core" "edit_corejack_core a core = Inr core'"
    "lookup_file r (descriptor_path (BOARD_DIR r) (sp_board a)) = Some board"
    "append_yaml_top_list_item board ''compatible_cores'' (sp_core a) = Inr board'"
    "\<forall>pc\<in>set (core_files r a). \<not> path_exists r (fst pc)"
    "r' = checkout.put_all r (core_edits r a pkg' core' board')"
proof -
  from assms(1) obtain a r1 r2 r3 where a: "core_spec_of r args = Inr a"
    and free: "refuse_all (core_files r a) r = Inr ()"
    and w: "update_platform_pkg a r = (r1, Inr ())" "update_corejack_core a r1 = (r2, Inr ())"
      "update_board_descriptor a r2 = (r3, Inr ())" "write_new_all (core_files r3 a) r3 = (r', Inr ())"
    unfolding create_core_def then_do_ok look_eq by auto
  have ap: "apart (core_written r a)" by (rule core_written_apart [OF a assms(2)])
  then have pl: "list_all plain_path (core_written r a)" and d: "distinct (core_written r a)"
    by (simp add: apart_def, simp add: apart_distinct)
  from w(1) obtain pkg pkg' where 1: "lookup_file r (PLATFORM_PKG r) = Some pkg" "edit_platform_pkg a pkg = Inr pkg'"
      "r1 = write_text r (PLATFORM_PKG r) pkg'"
    by (auto simp: update_platform_pkg_def res_simps)
  from w(2) 1(3) pl d obtain core core' where 2: "lookup_file r (CORE_FILE r) = Some core" "edit_corejack_core a core = Inr core'"
      "r2 = write_text r1 (CORE_FILE r) core'"
    by (auto simp: update_corejack_core_def res_simps core_written_def checkout.get_put)
  from w(3) 1(3) 2(3) pl d obtain board board' where
      3: "lookup_file r (descriptor_path (BOARD_DIR r) (sp_board a)) = Some board"
      "append_yaml_top_list_item board ''compatible_cores'' (sp_core a) = Inr board'"
      "r3 = write_text r2 (descriptor_path (BOARD_DIR r) (sp_board a)) board'"
    by (auto simp: update_board_descriptor_def res_simps core_written_def checkout.get_put Let_def split: if_splits)
  note written = core_files_written [OF a assms(2) free, of r3 pkg' core' board']
  have "r' = checkout.put_all r (core_edits r a pkg' core' board')" using w(4) written(2) 1(3) 2(3) 3(3) by simp
  then show thesis using that a 1 2 3 written(1) by blast
qed


text \<open>Conversely, these conditions make a run return.\<close>

lemma create_core_returns:
  assumes "core_spec_of r args = Inr a" "plain_path (root r)" "\<forall>pc\<in>set (core_files r a). \<not> path_exists r (fst pc)"
    and "lookup_file r (PLATFORM_PKG r) = Some pkg" "edit_platform_pkg a pkg = Inr pkg'"
    and "lookup_file r (CORE_FILE r) = Some core" "edit_corejack_core a core = Inr core'"
    and "lookup_file r (descriptor_path (BOARD_DIR r) (sp_board a)) = Some board"
    and "append_yaml_top_list_item board ''compatible_cores'' (sp_core a) = Inr board'"
  shows "\<exists>out. create_core args r = (checkout.put_all r (core_edits r a pkg' core' board'), Inr out)"
proof -
  have "apart (core_written r a)" by (rule core_written_apart [OF assms(1,2)])
  then have pl: "list_all plain_path (core_written r a)" and d: "distinct (core_written r a)"
    by (simp add: apart_def, simp add: apart_distinct)
  have free: "refuse_all (core_files r a) r = Inr ()" using assms(3) by (simp add: refuse_all_ok)
  let ?r1 = "write_text r (PLATFORM_PKG r) pkg'"
  let ?r2 = "write_text ?r1 (CORE_FILE r) core'"
  let ?r3 = "write_text ?r2 (descriptor_path (BOARD_DIR r) (sp_board a)) board'"
  have 1: "update_platform_pkg a r = (?r1, Inr ())" using assms(4,5) by (auto simp: update_platform_pkg_def edit_file_ok)
  have 2: "update_corejack_core a ?r1 = (?r2, Inr ())"
    using assms(6,7) pl d by (auto simp: update_corejack_core_def edit_file_ok core_written_def checkout.get_put)
  have 3: "update_board_descriptor a ?r2 = (?r3, Inr ())"
    using assms(8,9) pl d by (auto simp: update_board_descriptor_def Let_def edit_file_ok is_file_def core_written_def checkout.get_put)
  show ?thesis unfolding create_core_def
    using core_files_written(2) [OF assms(1,2) free refl, of pkg' core' board'] by (simp add: look_def assms(1) free 1 2 3)
qed

text \<open>
  (C17) A run of \<^verbatim>\<open>create_core\<close> that returns has created exactly its three files, which did not
  exist before and hold the generated texts afterwards; the enumeration, the FuseSoC file and the
  board descriptor hold the edits of their previous texts; and every other file is as it was.
\<close>

theorem create_core_creates:
  assumes "create_core args r = (r', Inr out)" "plain_path (root r)"
  shows "\<exists>a pkg core board. core_spec_of r args = Inr a \<and>
    (\<forall>(path, content)\<in>set (core_files r a). lookup_file r path = None \<and>
       lookup_file r' path = Some (universal_newlines content)) \<and>
    bindr (read_text r (PLATFORM_PKG r)) (edit_platform_pkg a) = Inr pkg \<and>
    lookup_file r' (PLATFORM_PKG r) = Some (universal_newlines pkg) \<and>
    bindr (read_text r (CORE_FILE r)) (edit_corejack_core a) = Inr core \<and>
    lookup_file r' (CORE_FILE r) = Some (universal_newlines core) \<and>
    bindr (read_text r (descriptor_path (BOARD_DIR r) (ca_board args)))
      (\<lambda>t. append_yaml_top_list_item t ''compatible_cores'' (ca_core args)) = Inr board \<and>
    lookup_file r' (descriptor_path (BOARD_DIR r) (ca_board args)) = Some (universal_newlines board) \<and>
    (\<forall>q. plain_path q \<longrightarrow> q \<notin> set (core_written r a) \<longrightarrow> lookup_file r' q = lookup_file r q)"
proof -
  obtain a pkg pkg' core core' board board' where run: "core_spec_of r args = Inr a"
    "lookup_file r (PLATFORM_PKG r) = Some pkg" "edit_platform_pkg a pkg = Inr pkg'"
    "lookup_file r (CORE_FILE r) = Some core" "edit_corejack_core a core = Inr core'"
    "lookup_file r (descriptor_path (BOARD_DIR r) (sp_board a)) = Some board"
    "append_yaml_top_list_item board ''compatible_cores'' (sp_core a) = Inr board'"
    "\<forall>pc\<in>set (core_files r a). \<not> path_exists r (fst pc)"
    "r' = checkout.put_all r (core_edits r a pkg' core' board')"
    by (rule create_core_run [OF assms])
  let ?es = "core_edits r a pkg' core' board'"
  have ap: "apart (core_written r a)" by (rule core_written_apart [OF run(1) assms(2)])
  then have pl: "list_all plain_path (map fst ?es)" and d: "distinct (map fst ?es)"
    by (simp add: apart_def, simp add: apart_distinct)
  note put = checkout.get_put_all [OF d pl, of _ _ r] and other = checkout.get_put_all_other [OF _ pl, of _ r]
  have new: "lookup_file r p = None \<and> lookup_file r' p = Some (universal_newlines c)" if "(p, c) \<in> set (core_files r a)" for p c
  proof -
    have "p \<in> set (core_written r a)" using that by (force simp: core_written_def)
    then have "plain_path p" using ap by (simp add: apart_def list_all_iff)
    with run(8) that have "lookup_file r p = None" by (force simp: path_exists_plain)
    moreover have "(p, c) \<in> set ?es" using that by (simp add: core_edits_def)
    ultimately show ?thesis using put run(9) by simp
  qed
  have ed: "lookup_file r' (PLATFORM_PKG r) = Some (universal_newlines pkg')"
    "lookup_file r' (CORE_FILE r) = Some (universal_newlines core')"
    "lookup_file r' (descriptor_path (BOARD_DIR r) (sp_board a)) = Some (universal_newlines board')"
    unfolding run(9) by (rule put, simp add: core_edits_def)+
  have oth: "\<forall>q. plain_path q \<longrightarrow> q \<notin> set (core_written r a) \<longrightarrow> lookup_file r' q = lookup_file r q"
    unfolding run(9) using other by simp
  have read: "read_text r (PLATFORM_PKG r) = Inr pkg" "read_text r (CORE_FILE r) = Inr core"
    "read_text r (descriptor_path (BOARD_DIR r) (sp_board a)) = Inr board"
    using run(2,4,6) by (simp_all add: read_text_ok)
  note same = core_spec_ok(1,2) [OF run(1)]
  show ?thesis
    by (rule exI [of _ a], rule exI [of _ pkg'], rule exI [of _ core'], rule exI [of _ board'])
      (use run(1,3,5,7) new ed oth read same in auto)
qed

lemma update_board_fails: "update_board_descriptor a r = (r', Inl e) \<Longrightarrow> r' = r"
  by (auto simp: update_board_descriptor_def res_simps Let_def split: if_splits dest: edit_file_fails)

text \<open>
  (C18) A run that fails creates no file: at most \<^verbatim>\<open>platform_pkg.sv\<close> and \<^verbatim>\<open>corejack.core\<close> have
  changed, and nothing at all has changed when an argument is rejected or one of the three new
  paths is taken.
\<close>

theorem create_core_failure:
  assumes "create_core args r = (r', Inl e)" "plain_path (root r)"
  shows "(\<forall>q. plain_path q \<longrightarrow> q \<notin> {PLATFORM_PKG r, CORE_FILE r} \<longrightarrow> lookup_file r' q = lookup_file r q) \<and>
    (r' = r \<or> (\<exists>a. core_spec_of r args = Inr a \<and> (\<forall>pc\<in>set (core_files r a). \<not> path_exists r (fst pc))))"
proof (cases "r' = r")
  case False
  with assms(1) obtain a where a: "core_spec_of r args = Inr a" and free: "refuse_all (core_files r a) r = Inr ()"
    by (auto simp: create_core_def then_do_fails look_eq)
  have ap: "apart (core_written r a)" by (rule core_written_apart [OF a assms(2)])
  then have pl: "plain_path (PLATFORM_PKG r)" "plain_path (CORE_FILE r)" by (simp_all add: apart_def core_written_def)
  consider (pkg) "update_platform_pkg a r = (r', Inl e)"
    | (core) r1 where "update_platform_pkg a r = (r1, Inr ())" "update_corejack_core a r1 = (r', Inl e)"
    | (board) r1 r2 where "update_platform_pkg a r = (r1, Inr ())" "update_corejack_core a r1 = (r2, Inr ())"
        "update_board_descriptor a r2 = (r', Inl e)"
    | (files) r1 r2 r3 where "update_platform_pkg a r = (r1, Inr ())" "update_corejack_core a r1 = (r2, Inr ())"
        "update_board_descriptor a r2 = (r3, Inr ())" "write_new_all (core_files r3 a) r3 = (r', Inl e)"
    using assms(1) False a free by (auto simp: create_core_def then_do_fails look_eq)
  then have "\<forall>q. plain_path q \<longrightarrow> q \<notin> {PLATFORM_PKG r, CORE_FILE r} \<longrightarrow> lookup_file r' q = lookup_file r q"
  proof cases
    case pkg
    then show ?thesis using False edit_file_fails by (simp add: update_platform_pkg_def)
  next
    case core
    then show ?thesis using pl
      by (auto simp: update_platform_pkg_def update_corejack_core_def edit_file_ok checkout.get_put dest!: edit_file_fails)
  next
    case board
    then show ?thesis using pl
      by (auto simp: update_platform_pkg_def update_corejack_core_def edit_file_ok checkout.get_put dest!: update_board_fails)
  next
    case files
    from files(1-3) obtain pkg core board where r3: "r3 = write_text (write_text (write_text r (PLATFORM_PKG r) pkg)
        (CORE_FILE r) core) (descriptor_path (BOARD_DIR r) (sp_board a)) board"
      by (auto simp: update_platform_pkg_def update_corejack_core_def update_board_descriptor_def edit_file_ok res_simps Let_def
        split: if_splits)
    then show ?thesis using files(4) core_files_written(2) [OF a assms(2) free r3] by simp
  qed
  with a core_files_written(1) [OF a assms(2) free refl] show ?thesis by blast
qed simp


lemma core_names_ok:
  assumes "core_spec_of r args = Inr a"
  shows "list_all file_name [''cfg'', ''cores'', ''boards'', ''rtl'', ''pkg'', ''platform_pkg.sv'', ''corejack.core'',
    sp_core a @ ''.yaml'', sp_board a @ ''.yaml'', adapter_name a @ ''.sv'', ''corejack_core_'' @ sp_core a @ ''.core'']"
  using core_spec_ok [OF assms]
  by (auto intro!: file_name_start simp: ident_no_slash adapter_name_def is_lower_key is_key_def is_alnum_def is_lower_bits)

end
