(* ===== verification/Core_Enum.thy ===== *)
theory Core_Enum
  imports Create_Core
begin

text \<open>
  The enumeration of core types in \<^verbatim>\<open>platform_pkg.sv\<close> as a list of members: what
  \<^verbatim>\<open>platform_core_type_values\<close>, \<^verbatim>\<open>existing_core_type_values\<close> and \<^verbatim>\<open>update_platform_pkg\<close>
  do to the text is what one expects of the list.
\<close>

section \<open>The text of the enumeration\<close>

text \<open>A member with the white space before it.\<close>

type_synonym member = "string \<times> string \<times> nat"

definition member_text :: "member \<Rightarrow> string" where
  "member_text m = (case m of (ws, name, n) \<Rightarrow> ws @ name @ '' = '' @ in_base 10 n)"

definition enum_body :: "member list \<Rightarrow> string" where
  "enum_body ms = join '','' (map member_text ms)"

definition enum_open :: string where
  "enum_open = ''typedef enum int unsigned {''"

definition enum_text :: "string \<Rightarrow> member list \<Rightarrow> string \<Rightarrow> string \<Rightarrow> string" where
  "enum_text pre ms wend post = pre @ enum_open @ enum_body ms @ wend @ ''} core_type_e;'' @ post"

definition member_ok :: "member \<Rightarrow> bool" where
  "member_ok m = (case m of (ws, name, n) \<Rightarrow> ws \<noteq> [] \<and> list_all is_space ws \<and> prefix ''Core'' name \<and>
     name \<noteq> ''Core'' \<and> list_all is_alnum name)"

text \<open>White space before the closing brace, with a line break in it.\<close>

definition enum_ok :: "string \<Rightarrow> member list \<Rightarrow> string \<Rightarrow> bool" where
  "enum_ok pre ms wend = ((pre = [] \<or> is_space (last pre)) \<and> \<not> contains ''typedef'' pre \<and> \<not> contains ''Core'' pre \<and>
     ms \<noteq> [] \<and> list_all member_ok ms \<and> list_all is_space wend \<and> NL \<in> set wend)"


section \<open>Reading the members\<close>

lemma enum_member_first:
  assumes "prefix ''Core'' name" "name \<noteq> ''Core''" "list_all is_alnum name" "pre \<noteq> []" "is_space (hd pre)"
    "rest = [] \<or> \<not> is_digit (hd rest)"
  shows "\<exists>p'. first (rmatch enum_member_rx (pre, name @ '' = '' @ in_base 10 n @ rest, [])) =
    Some (p', rest, [(''2'', in_base 10 n), (''1'', name)])"
proof -
  obtain u where u: "name = ''Core'' @ u" "u \<noteq> []" using assms(1,2) by (auto simp: prefix_def)
  have al: "list_all is_alnum u" using assms(3) u by simp
  have d: "in_base 10 n \<noteq> []" "list_all is_digit (in_base 10 n)" using dec_digits [of n] by (auto simp: list_all_iff)
  have wb: "word_boundary pre (name @ '' = '' @ in_base 10 n @ rest)"
    using assms(4,5) u by (auto simp: word_boundary_def is_word_def is_key_def is_alnum_def is_upper_bits Let_def
      dest: space_not_word)
  have 1: "first (rmatch (RGrp ''1'' (RSeq (rlit ''Core'') (plus1 is_alnum))) (pre, name @ '' = '' @ in_base 10 n @ rest, [])) =
      Some (rev u @ rev ''Core'' @ pre, '' = '' @ in_base 10 n @ rest, [(''1'', name)])"
    by (rule first_grp [OF first_seq [OF first_lit first_plus]]) (use u al in \<open>auto simp: is_alnum_def is_lower_bits is_upper_bits is_digit_bits\<close>)
  have 2: "first (rmatch (star is_space) (p, '' = '' @ s, g)) = Some (CHR '' '' # p, ''= '' @ s, g)" for p s g
    using first_star [of "'' = '' @ s" "'' ''" "''= '' @ s" is_space p g] by (simp add: is_space_bits)
  have 3: "first (rmatch (star is_space) (p, CHR '' '' # in_base 10 n @ rest, g)) = Some (CHR '' '' # p, in_base 10 n @ rest, g)" for p g
    using first_star [of "CHR '' '' # in_base 10 n @ rest" "'' ''" "in_base 10 n @ rest" is_space p g] d
      is_key_not_space [OF is_digit_key, of "hd (in_base 10 n)"] by (simp add: list_all_iff)
  have 4: "first (rmatch (RGrp ''2'' (plus1 is_digit)) (p, in_base 10 n @ rest, g)) =
      Some (rev (in_base 10 n) @ p, rest, (''2'', in_base 10 n) # g)" for p g
    by (rule first_grp [OF first_plus]) (use d assms(6) in auto)
  have eq: "first (rmatch (RChr ((=) CHR ''='')) (p, ''= '' @ s, g)) = Some (CHR ''='' # p, CHR '' '' # s, g)" for p s g by simp
  show ?thesis unfolding enum_member_rx_def rseq.simps
    by (rule exI) (rule first_seq [OF first_wordb [OF wb] first_seq [OF 1 first_seq [OF 2 first_seq [OF eq first_seq [OF 3 4]]]]])
qed

text \<open>Before a member nothing matches, since a match starts with the letter C.\<close>

lemma enum_member_start: "st \<in> set (rmatch enum_member_rx (pre, s, g)) \<Longrightarrow> s \<noteq> [] \<and> hd s = CHR ''C''"
  by (auto simp: enum_member_rx_def rx_mem simp del: rmatch.simps rlit.simps)

lemma enum_member_search:
  assumes "member_ok (ws, name, n)" "CHR ''C'' \<notin> set z" "rest = [] \<or> \<not> is_digit (hd rest)"
  shows "\<exists>p'. re_search_from enum_member_rx pre (z @ member_text (ws, name, n) @ rest) =
    Some (rev (z @ ws) @ pre, name @ '' = '' @ in_base 10 n @ rest, (p', rest, [(''2'', in_base 10 n), (''1'', name)]))"
proof -
  have m: "ws \<noteq> []" "list_all is_space ws" "prefix ''Core'' name" "name \<noteq> ''Core''" "list_all is_alnum name"
    using assms(1) by (auto simp: member_ok_def)
  let ?s = "name @ '' = '' @ in_base 10 n @ rest"
  have "CHR ''C'' \<notin> set ws" using m(2) by (auto simp: list_all_iff is_space_bits)
  then have c: "CHR ''C'' \<notin> set (z @ ws)" using assms(2) by simp
  have skip: "re_search_from enum_member_rx pre ((z @ ws) @ ?s) = re_search_from enum_member_rx (rev (z @ ws) @ pre) ?s"
  proof (rule re_search_skip)
    fix x y assume "z @ ws = x @ y" "y \<noteq> []"
    then have "hd (y @ ?s) \<noteq> CHR ''C''" using c by (metis hd_append2 in_set_conv_decomp list.set_sel(1) append_assoc Un_iff set_append)
    then show "rmatch enum_member_rx (rev x @ pre, y @ ?s, []) = []"
      using enum_member_start by (metis last_in_set)
  qed
  have "is_space (last ws)" using m(1,2) by (simp add: list_all_iff)
  then have "rev (z @ ws) @ pre \<noteq> []" "is_space (hd (rev (z @ ws) @ pre))" using m(1) by (simp_all add: hd_rev)
  from enum_member_first [OF m(3-5) this assms(3)] obtain p' where
    p: "first (rmatch enum_member_rx (rev (z @ ws) @ pre, ?s, [])) = Some (p', rest, [(''2'', in_base 10 n), (''1'', name)])"
    by blast
  then have "rmatch enum_member_rx (rev (z @ ws) @ pre, ?s, []) \<noteq> []" by auto
  from re_search_here [OF this] p show ?thesis
    by (cases "rmatch enum_member_rx (rev (z @ ws) @ pre, ?s, [])") (auto simp: member_text_def skip [simplified])
qed


lemma segments_nil: "re_search_from r pre s = None \<Longrightarrow> segments r pre s = ([], s)"
  by (subst segments.simps) simp

lemma segments_step:
  assumes "re_search_from r pre (u @ m @ rest) = Some (pre', m @ rest, (pre'', rest, g))" "m \<noteq> []"
  shows "segments r pre (u @ m @ rest) = (let (segs, end) = segments r pre'' rest in ((u, m, g) # segs, end))"
  using assms by (subst segments.simps) (auto split: prod.splits)

text \<open>The members after the first one, each behind its comma, and the space before the brace.\<close>

definition more_members :: "member list \<Rightarrow> string \<Rightarrow> string" where
  "more_members ms wend = concat (map (\<lambda>m. CHR '','' # member_text m) ms) @ wend"

lemma enum_body_Cons: "enum_body (m # ms) @ wend = member_text m @ more_members ms wend"
proof (induction ms arbitrary: m)
  case (Cons m' ms)
  have "enum_body (m # m' # ms) @ wend = member_text m @ CHR '','' # enum_body (m' # ms) @ wend"
    by (simp add: enum_body_def)
  with Cons.IH [of m'] show ?case by (simp add: more_members_def)
qed (simp add: enum_body_def more_members_def)

definition member_groups :: "member \<Rightarrow> groups" where
  "member_groups m = (case m of (ws, name, n) \<Rightarrow> [(''2'', in_base 10 n), (''1'', name)])"

lemma more_members_hd: "list_all is_space wend \<Longrightarrow> more_members ms wend = [] \<or> \<not> is_digit (hd (more_members ms wend))"
  by (cases ms; cases wend) (auto simp: more_members_def is_digit_bits dest: is_digit_key is_key_not_space)

lemma segments_members:
  "list_all member_ok ms \<Longrightarrow> list_all is_space wend \<Longrightarrow>
     map (\<lambda>x. snd (snd x)) (fst (segments enum_member_rx pre (more_members ms wend))) = map member_groups ms"
proof (induction ms arbitrary: pre)
  case Nil
  have "rmatch enum_member_rx (rev x @ pre, y, []) = []" if "wend = x @ y" for x y
  proof -
    have "hd y \<noteq> CHR ''C'' \<or> y = []" using that Nil(2) by (cases y) (auto simp: is_space_bits)
    then show ?thesis using enum_member_start by (metis last_in_set)
  qed
  then have "re_search_from enum_member_rx pre (wend @ []) = re_search_from enum_member_rx (rev wend @ pre) []"
    by (intro re_search_skip) simp
  also have "\<dots> = None" using \<open>\<And>x y. wend = x @ y \<Longrightarrow> _\<close> [of wend "[]"] by (simp del: rmatch.simps)
  finally show ?case by (simp add: more_members_def segments_nil)
next
  case (Cons m ms)
  obtain ws name n where m: "m = (ws, name, n)" by (cases m)
  let ?rest = "more_members ms wend"
  have ok: "member_ok (ws, name, n)" using Cons.prems(1) m by simp
  from enum_member_search [OF ok _ more_members_hd [OF Cons.prems(2)], of "'',''" pre ms]
  obtain p' where p: "re_search_from enum_member_rx pre ('','' @ member_text m @ ?rest) =
    Some (rev ('','' @ ws) @ pre, name @ '' = '' @ in_base 10 n @ ?rest, (p', ?rest, member_groups m))"
    using m by (auto simp: member_groups_def)
  have "segments enum_member_rx pre (('','' @ ws) @ (name @ '' = '' @ in_base 10 n) @ ?rest) =
      (let (segs, end) = segments enum_member_rx p' ?rest in (('','' @ ws, name @ '' = '' @ in_base 10 n, member_groups m) # segs, end))"
    by (rule segments_step) (use p m in \<open>simp_all add: member_text_def\<close>)
  moreover have "more_members (m # ms) wend = ('','' @ ws) @ (name @ '' = '' @ in_base 10 n) @ ?rest"
    by (simp add: more_members_def m member_text_def)
  ultimately show ?case using Cons.IH [of p'] Cons.prems by (simp add: case_prod_beta)
qed


lemma finditer_body:
  assumes "list_all member_ok ms" "ms \<noteq> []" "list_all is_space wend"
  shows "map snd (re_finditer enum_member_rx (enum_body ms @ wend)) = map member_groups ms"
proof -
  obtain ws name n ms' where ms: "ms = (ws, name, n) # ms'" using assms(2) by (cases ms) auto
  have ok: "member_ok (ws, name, n)" using assms(1) ms by simp
  let ?rest = "more_members ms' wend"
  from enum_member_search [OF ok _ more_members_hd [OF assms(3)], of "[]" "[]" ms'] obtain p' where
    p: "re_search_from enum_member_rx [] (ws @ (name @ '' = '' @ in_base 10 n) @ ?rest) =
      Some (rev ws, (name @ '' = '' @ in_base 10 n) @ ?rest, (p', ?rest, member_groups (ws, name, n)))"
    by (auto simp: member_groups_def member_text_def)
  have "segments enum_member_rx [] (ws @ (name @ '' = '' @ in_base 10 n) @ ?rest) =
      (let (segs, end) = segments enum_member_rx p' ?rest in ((ws, name @ '' = '' @ in_base 10 n, member_groups (ws, name, n)) # segs, end))"
    by (rule segments_step) (use p in simp_all)
  moreover have "enum_body ms @ wend = ws @ (name @ '' = '' @ in_base 10 n) @ ?rest"
    by (simp add: ms enum_body_Cons member_text_def)
  ultimately show ?thesis using segments_members [of ms' wend p'] assms ms
    by (simp add: re_finditer_def case_prod_beta comp_def)
qed

section \<open>Finding the enumeration\<close>

lemma first_lazy_until:
  assumes "first (rmatch q (rev b @ pre, v, (n, b) # g)) = Some st" "\<And>p c t g. c \<in> set b \<Longrightarrow> rmatch q (p, c # t, g) = []"
  shows "first (rmatch (RSeq (RGrp n (lazy (\<lambda>_. True))) q) (pre, b @ v, g)) = Some st"
proof -
  let ?f = "\<lambda>k. rmatch q (rev (take k (b @ v)) @ pre, drop k (b @ v), (n, take k (b @ v)) # g)"
  have len: "length (b @ v) - (length (b @ v) - k) = k" if "k \<le> length (b @ v)" for k using that by simp
  have all: "takeWhile (\<lambda>_. True) v = v" for v :: string by (induction v) auto
  have eq: "rmatch (RSeq (RGrp n (lazy (\<lambda>_. True))) q) (pre, b @ v, g) = concat (map ?f [0..<Suc (length (b @ v))])"
    by (simp add: rmatch_lazy_upt comp_def all del: upt_Suc append_assoc length_append drop_append take_append)
      (rule arg_cong [of _ _ concat], rule map_cong, auto simp: len simp del: length_append take_append drop_append)
  have "first (concat (map ?f [0..<Suc (length (b @ v))])) = first (?f (length b))"
  proof (rule first_concat_upt)
    show "?f (length b) \<noteq> []" using assms(1) by auto
    fix j assume j: "j < length b"
    then have "drop j (b @ v) = b ! j # drop (Suc j) b @ v" by (simp add: Cons_nth_drop_Suc [symmetric])
    moreover have "rmatch q (rev (take j (b @ v)) @ pre, b ! j # drop (Suc j) b @ v, (n, take j (b @ v)) # g) = []"
      by (rule assms(2)) (use j in simp)
    ultimately show "?f j = []" by (simp only:)
  qed simp
  then show ?thesis using assms(1) eq by simp
qed

lemma lit_not_across:
  assumes "\<not> contains l u" "u = x @ y" "y \<noteq> []" "last y \<notin> set l"
  shows "\<not> prefix l (y @ s)"
proof
  assume "prefix l (y @ s)"
  then consider "prefix l y" | z where "l = y @ z" by (auto simp: prefix_append)
  then show False
  proof cases
    case 1
    then show ?thesis using assms(1,2) by (auto simp: contains_iff prefix_def)
  next
    case 2
    then show ?thesis using assms(3,4) by simp
  qed
qed

text \<open>Steps over the blanks and words of the pattern.\<close>

lemma first_chr_eq: "first (rmatch (RChr ((=) c)) (p, c # t, g)) = Some (c # p, t, g)"
  by simp

lemma first_lit_eq: "first (rmatch (rlit l) (p, l @ t, g)) = Some (rev l @ p, t, g)"
  by (rule first_lit) simp

lemma first_plus_blank:
  "t = [] \<or> \<not> is_space (hd t) \<Longrightarrow> first (rmatch (plus1 is_space) (p, '' '' @ t, g)) = Some ('' '' @ p, t, g)"
  using first_plus [of "'' '' @ t" "'' ''" t is_space p g] by simp

lemma first_star_blank:
  "t = [] \<or> \<not> is_space (hd t) \<Longrightarrow> first (rmatch (star is_space) (p, '' '' @ t, g)) = Some ('' '' @ p, t, g)"
  using first_star [of "'' '' @ t" "'' ''" t is_space p g] by simp

lemma first_star_none: "t = [] \<or> \<not> is_space (hd t) \<Longrightarrow> first (rmatch (star is_space) (p, t, g)) = Some (p, t, g)"
  using first_star [of t "[]" t is_space p g] by simp

definition enum_close_rx :: rx where
  "enum_close_rx = rseq [RChr ((=) CHR ''}''), star is_space, rlit ''core_type_e'', star is_space, RChr ((=) CHR '';'')]"

lemma enum_close_first: "\<exists>p'. first (rmatch enum_close_rx (p, ''} core_type_e;'' @ post, g)) = Some (p', post, g)"
proof -
  have v: "''} core_type_e;'' @ post = CHR ''}'' # '' '' @ ''core_type_e'' @ CHR '';'' # post" by simp
  show ?thesis unfolding enum_close_rx_def rseq.simps v
    by (rule exI, rule first_seq [OF first_chr_eq first_seq [OF first_star_blank first_seq [OF first_lit_eq
      first_seq [OF first_star_none first_chr_eq]]]]) (simp_all add: is_space_bits)
qed

lemma enum_close_start: "c \<noteq> CHR ''}'' \<Longrightarrow> rmatch enum_close_rx (p, c # t, g) = []"
  by (simp add: enum_close_rx_def)

lemma enum_body_chars: "list_all member_ok ms \<Longrightarrow> c \<in> set (enum_body ms) \<Longrightarrow> c \<in> set '',= '' \<or> is_space c \<or> is_alnum c"
proof (induction ms)
  case (Cons m ms)
  obtain ws name n where m: "m = (ws, name, n)" by (cases m)
  have "c \<in> set (member_text m) \<or> c \<in> set (more_members ms [])"
    using Cons.prems(2) enum_body_Cons [of m ms "[]"] by (metis Un_iff append_Nil2 set_append)
  moreover have "c \<in> set (more_members ms []) \<Longrightarrow> c = CHR '','' \<or> c \<in> set (enum_body ms)"
    by (cases ms) (auto simp: more_members_def enum_body_Cons [of _ _ "[]", simplified])
  ultimately show ?case using Cons m dec_digits(1) [of n]
    by (auto simp: member_text_def member_ok_def list_all_iff is_alnum_def)
qed (simp add: enum_body_def)

lemma enum_search:
  assumes "enum_ok pre ms wend"
  shows "\<exists>g. re_search core_type_e_rx (enum_text pre ms wend post) = Some g \<and> group ''body'' g = enum_body ms @ wend"
proof -
  let ?b = "enum_body ms @ wend" and ?v = "''} core_type_e;'' @ post"
  let ?s = "enum_open @ ?b @ ?v"
  have skip: "re_search_from core_type_e_rx [] (pre @ ?s) = re_search_from core_type_e_rx (rev pre @ []) ?s"
  proof (rule re_search_skip)
    fix x y assume xy: "pre = x @ y" "y \<noteq> []"
    have "last y \<notin> set ''typedef''" using assms xy by (auto simp: enum_ok_def is_space_bits)
    then have "\<not> prefix ''typedef'' (y @ ?s)" using assms xy by (intro lit_not_across) (auto simp: enum_ok_def)
    then show "rmatch core_type_e_rx (rev x @ [], y @ ?s, []) = []"
      by (simp add: core_type_e_rx_def rmatch_lit_seq del: rlit.simps rmatch.simps)
  qed
  have lits: "?s = ''typedef'' @ '' '' @ ''enum'' @ '' '' @ ''int'' @ '' '' @ ''unsigned'' @ '' '' @ CHR ''{'' # ?b @ ?v"
    by (simp add: enum_open_def)
  have nb: "c \<noteq> CHR ''}''" if "c \<in> set ?b" for c
    using that assms enum_body_chars [of ms c]
    by (auto simp: enum_ok_def list_all_iff is_space_bits is_alnum_def is_lower_bits is_upper_bits is_digit_bits)
  obtain p' where "first (rmatch (RSeq (RGrp ''body'' (lazy (\<lambda>_. True))) enum_close_rx)
      (CHR ''{'' # '' '' @ rev ''unsigned'' @ '' '' @ rev ''int'' @ '' '' @ rev ''enum'' @ '' '' @ rev ''typedef'' @ rev pre, ?b @ ?v, [])) =
      Some (p', post, [(''body'', ?b)])"
    using first_lazy_until [OF _ enum_close_start, OF _ nb] enum_close_first by blast
  then have "first (rmatch core_type_e_rx (rev pre, ?s, [])) = Some (p', post, [(''body'', ?b)])"
    unfolding core_type_e_rx_def rseq.simps lits enum_close_rx_def
    by (intro first_seq [OF first_lit_eq] first_seq [OF first_plus_blank] first_seq [OF first_star_blank] first_seq [OF first_chr_eq])
      (simp_all add: is_space_bits)
  then have "re_search_from core_type_e_rx (rev pre) ?s = Some (rev pre, ?s, (p', post, [(''body'', ?b)]))"
    by (subst re_search_here) (auto simp: first_def split: list.splits)
  then have "re_search core_type_e_rx (pre @ ?s) = Some [(''body'', ?b)]" using skip by (simp add: re_search_def)
  then show ?thesis by (simp add: enum_text_def group_def)
qed


section \<open>The values the scripts read\<close>

definition members_of :: "member list \<Rightarrow> (string \<times> int) list" where
  "members_of ms = map (\<lambda>(ws, name, n). (name, int n)) ms"

lemma map_of_updates: "map_of (foldl (\<lambda>vs (k, v). AList.update k v vs) acc kvs) = map_of acc ++ map_of (rev kvs)"
  by (induction kvs arbitrary: acc) (auto simp: update_conv' map_add_def fun_eq_iff split: option.splits)

lemma existing_values:
  assumes "enum_ok pre ms wend"
  shows "existing_core_type_values (enum_text pre ms wend post) = Inr (map snd (members_of ms))"
proof -
  obtain g where g: "re_search core_type_e_rx (enum_text pre ms wend post) = Some g" "group ''body'' g = enum_body ms @ wend"
    using enum_search [OF assms] by blast
  have "map snd (re_finditer enum_member_rx (enum_body ms @ wend)) = map member_groups ms"
    using assms by (intro finditer_body) (auto simp: enum_ok_def)
  then have "map (\<lambda>g. int_of_digits (group ''2'' g)) (map snd (re_finditer enum_member_rx (enum_body ms @ wend))) =
      map (\<lambda>g. int_of_digits (group ''2'' g)) (map member_groups ms)" by (rule arg_cong)
  also have "\<dots> = map snd (members_of ms)"
    by (simp add: comp_def members_of_def member_groups_def group_def int_of_digits_def digits_val_in_base case_prod_beta)
  finally show ?thesis by (simp add: existing_core_type_values_def g comp_def)
qed

lemma enum_values_members:
  assumes "enum_ok pre ms wend"
  shows "map_of (enum_values (enum_body ms @ wend)) = map_of (rev (members_of ms))"
proof -
  let ?f = "\<lambda>vs g. AList.update (group ''1'' g) (int_of_digits (group ''2'' g)) vs"
  have "enum_values (enum_body ms @ wend) = foldl ?f [] (map snd (re_finditer enum_member_rx (enum_body ms @ wend)))"
    by (simp add: enum_values_def foldl_map)
  also have "\<dots> = foldl ?f [] (map member_groups ms)"
    using assms by (subst finditer_body) (auto simp: enum_ok_def)
  also have "\<dots> = foldl (\<lambda>vs (k, v). AList.update k v vs) [] (members_of ms)"
    by (simp add: members_of_def foldl_map case_prod_beta member_groups_def group_def int_of_digits_def digits_val_in_base)
  finally show ?thesis using map_of_updates [of "[]" "members_of ms"] by simp
qed

lemma platform_values:
  assumes "enum_ok pre ms wend" "lookup_file r (PLATFORM_PKG r) = Some (enum_text pre ms wend post)"
  shows "\<exists>vals. platform_core_type_values r = Inr vals \<and> map_of vals = map_of (rev (members_of ms))"
proof -
  obtain g where "re_search core_type_e_rx (enum_text pre ms wend post) = Some g" "group ''body'' g = enum_body ms @ wend"
    using enum_search [OF assms(1)] by blast
  then show ?thesis using assms(2) enum_values_members [OF assms(1)]
    by (simp add: platform_core_type_values_def is_file_def read_text_def)
qed

section \<open>Adding a member\<close>

text \<open>How a match of \<open>last_member_rx\<close> cuts the text.\<close>

definition last_cut :: "string \<Rightarrow> groups \<Rightarrow> string \<Rightarrow> bool" where
  "last_cut s g s' = (\<exists>ind al sp1 sp2 dg tr sp3 sp4 sp5. list_all is_space ind \<and> list_all is_alnum al \<and> al \<noteq> [] \<and>
    list_all is_space sp1 \<and> list_all is_space sp2 \<and> list_all is_digit dg \<and> dg \<noteq> [] \<and> list_all is_space tr \<and>
    list_all is_space sp3 \<and> list_all is_space sp4 \<and> list_all is_space sp5 \<and>
    s = ind @ ''Core'' @ al @ sp1 @ ''='' @ sp2 @ dg @ tr @ [NL] @ sp3 @ ''}'' @ sp4 @ ''core_type_e'' @ sp5 @ '';'' @ s' \<and>
    g = [(''close'', sp3 @ ''}'' @ sp4 @ ''core_type_e'' @ sp5 @ '';''), (''trailing'', tr),
      (''last'', ''Core'' @ al @ sp1 @ ''='' @ sp2 @ dg), (''indent'', ind)])"

lemma last_member_cut:
  assumes "(p', s', g) \<in> set (rmatch last_member_rx (p, s, []))"
  shows "last_cut s g s'"
  using assms unfolding last_member_rx_def rseq.simps
proof (clarsimp simp add: rx_mem simp del: rmatch.simps rlit.simps, goal_cases)
  case (1 ind tr al sp1 sp3 sp2 dg sp4 sp5)
  let ?L = "''Core'' @ al @ sp1 @ ''='' @ sp2 @ dg" and ?D = "''}'' @ sp4 @ ''core_type_e'' @ sp5 @ '';''"
  have t: "n = length x \<Longrightarrow> take n (x @ y) = x" for n and x y :: string by simp
  show ?case unfolding last_cut_def
    by (rule exI [of _ ind], rule exI [of _ al], rule exI [of _ sp1], rule exI [of _ sp2], rule exI [of _ dg],
      rule exI [of _ tr], rule exI [of _ sp3], rule exI [of _ sp4], rule exI [of _ sp5])
      (use 1 t [of "5 + (length al + (length sp1 + (length sp2 + length dg)))" ?L "tr @ [NL] @ sp3 @ ?D @ s'"]
        t [of "13 + (length sp4 + length sp5)" ?D s'] in simp)
qed


lemma last_member_exists:
  assumes "list_all is_space ws" "list_all is_alnum u" "u \<noteq> []" "list_all is_space tr" "list_all is_space sp"
  shows "rmatch last_member_rx (p, ws @ ''Core'' @ u @ '' = '' @ in_base 10 n @ tr @ [NL] @ sp @ ''} core_type_e;'' @ post, []) \<noteq> []"
proof -
  have d: "in_base 10 n \<noteq> []" "list_all is_digit (in_base 10 n)" using dec_digits [of n] by (auto simp: list_all_iff)
  have s: "ws @ ''Core'' @ u @ '' = '' @ in_base 10 n @ tr @ [NL] @ sp @ ''} core_type_e;'' @ post =
    ws @ ''Core'' @ u @ '' '' @ ''='' @ '' '' @ in_base 10 n @ tr @ [NL] @ sp @ ''}'' @ '' '' @ ''core_type_e'' @ [] @ '';'' @ post"
    by simp
  have "\<exists>st. st \<in> set (rmatch last_member_rx (p, ws @ ''Core'' @ u @ '' '' @ ''='' @ '' '' @ in_base 10 n @ tr @ [NL] @
      sp @ ''}'' @ '' '' @ ''core_type_e'' @ [] @ '';'' @ post, []))"
    using assms d unfolding last_member_rx_def rseq.simps
    by - (rule exI, (rule mem_intros | assumption | simp add: is_space_bits)+)
  then show ?thesis unfolding s by auto
qed

lemma cut_before:
  assumes "y @ s = X @ b # z" "y \<noteq> []" "last y \<notin> set X"
  shows "\<exists>y'. y = X @ b # y'"
proof -
  from assms(1) obtain us where "y = X @ us \<and> us @ s = b # z \<or> y @ us = X \<and> s = us @ b # z"
    by (auto simp only: append_eq_append_conv2)
  then show ?thesis
  proof
    assume e: "y = X @ us \<and> us @ s = b # z"
    then have "us \<noteq> []" using assms(2,3) by (metis append_Nil2 last_in_set)
    with e show ?thesis by (cases us) auto
  next
    assume "y @ us = X \<and> s = us @ b # z"
    then show ?thesis using assms(2,3) by (metis UnI1 last_in_set set_append)
  qed
qed

lemma cut_inside: "pre @ w = u @ b # v \<Longrightarrow> b \<notin> set w \<Longrightarrow> \<exists>v'. pre = u @ b # v'"
proof (induction u arbitrary: pre)
  case Nil
  then show ?case by (cases pre) auto
next
  case (Cons c u)
  then show ?case by (cases pre) auto
qed

text \<open>No match starts before the last member: it would have to cross a comma or the opening brace.\<close>

lemma last_member_skip:
  assumes "\<not> contains ''Core'' pre" "CHR ''}'' \<notin> set w" "w = w' @ [c]" "c = CHR '','' \<or> c = CHR ''{''"
    and "pre @ w = x @ y" "y \<noteq> []"
  shows "rmatch last_member_rx (p, y @ s, []) = []"
proof (rule ccontr)
  assume "rmatch last_member_rx (p, y @ s, []) \<noteq> []"
  then obtain p' s' g where "(p', s', g) \<in> set (rmatch last_member_rx (p, y @ s, []))"
    by (metis last_in_set prod_cases3)
  from last_member_cut [OF this] obtain ind al sp1 sp2 dg tr sp3 z where parts: "list_all is_space ind" "list_all is_alnum al"
    "list_all is_space sp1" "list_all is_space sp2" "list_all is_digit dg" "list_all is_space tr" "list_all is_space sp3"
    and ys: "y @ s = (ind @ ''Core'' @ al @ sp1 @ ''='' @ sp2 @ dg @ tr @ [NL] @ sp3) @ CHR ''}'' # z"
    unfolding last_cut_def by auto
  define X where "X = ind @ ''Core'' @ al @ sp1 @ ''='' @ sp2 @ dg @ tr @ [NL] @ sp3"
  have "d \<notin> set X" if "d = CHR '','' \<or> d = CHR ''{''" for d
    using parts that by (auto simp: X_def list_all_iff is_space_bits is_alnum_def is_lower_bits is_upper_bits is_digit_bits)
  moreover have "last y = c" using assms(3,5,6) by (metis last_appendR last_snoc snoc_eq_iff_butlast)
  ultimately have "last y \<notin> set X" using assms(4) by blast
  from cut_before [OF ys [folded X_def] assms(6) this] obtain y' where "y = X @ CHR ''}'' # y'" by blast
  with assms(5) have "pre @ w = (x @ X) @ CHR ''}'' # y'" by simp
  from cut_inside [OF this assms(2)] obtain v where "pre = (x @ X) @ CHR ''}'' # v" by blast
  then have "pre = (x @ ind) @ ''Core'' @ (al @ sp1 @ ''='' @ sp2 @ dg @ tr @ [NL] @ sp3 @ CHR ''}'' # v)"
    by (simp add: X_def)
  with assms(1) show False unfolding contains_iff by blast
qed


lemma span_unique:
  assumes "u @ v = u' @ v'" "list_all P u" "list_all P u'" "v \<noteq> []" "\<not> P (hd v)" "v' \<noteq> []" "\<not> P (hd v')"
  shows "u = u' \<and> v = v'"
proof -
  have "takeWhile P (u @ v) = u" "takeWhile P (u' @ v') = u'"
    using assms(2-7) takeWhile_append_stop [of u P v] takeWhile_append_stop [of u' P v'] by (auto simp: list_all_iff)
  with assms(1) show ?thesis by simp
qed

lemma space_not_class: "is_space c \<Longrightarrow> \<not> is_alnum c \<and> \<not> is_digit c"
  using is_key_not_space [of c] by (auto simp: is_key_def is_alnum_def)

lemma hd_spaces: "list_all is_space sp \<Longrightarrow> \<not> P c \<Longrightarrow> (\<And>c. is_space c \<Longrightarrow> \<not> P c) \<Longrightarrow> \<not> P (hd (sp @ c # t))"
  by (cases sp) auto

lemma last_cut_unique:
  assumes "last_cut (ws @ ''Core'' @ u @ '' = '' @ in_base 10 n @ wend @ ''} core_type_e;'' @ post) g s'"
    and "list_all is_space ws" "list_all is_alnum u" "list_all is_space wend" "wend \<noteq> []"
  shows "s' = post \<and> group ''indent'' g = ws \<and> group ''last'' g = ''Core'' @ u @ '' = '' @ in_base 10 n \<and>
    group ''trailing'' g @ [NL] @ group ''close'' g = wend @ ''} core_type_e;''"
  using assms(1) unfolding last_cut_def
proof (elim exE conjE, goal_cases)
  case (1 ind al sp1 sp2 dg tr sp3 sp4 sp5)
  note p = 1(1,2,4,5,6,7,8,9,10,11) and g = 1(13)
  have d: "in_base 10 n \<noteq> []" "list_all is_digit (in_base 10 n)" using dec_digits [of n] by (auto simp: list_all_iff)
  have e: "ws @ CHR ''C'' # ''ore'' @ u @ '' = '' @ in_base 10 n @ wend @ ''} core_type_e;'' @ post =
      ind @ CHR ''C'' # ''ore'' @ al @ sp1 @ ''='' @ sp2 @ dg @ tr @ [NL] @ sp3 @ ''}'' @ sp4 @ ''core_type_e'' @ sp5 @ '';'' @ s'"
    using 1(12) by simp
  have r: "ws = ind \<and> CHR ''C'' # ''ore'' @ u @ '' = '' @ in_base 10 n @ wend @ ''} core_type_e;'' @ post =
      CHR ''C'' # ''ore'' @ al @ sp1 @ ''='' @ sp2 @ dg @ tr @ [NL] @ sp3 @ ''}'' @ sp4 @ ''core_type_e'' @ sp5 @ '';'' @ s'"
    by (rule span_unique [OF e assms(2) p(1)]) (simp_all add: is_space_bits)
  from conjunct2 [OF r] have e2: "u @ '' = '' @ in_base 10 n @ wend @ ''} core_type_e;'' @ post =
      al @ sp1 @ CHR ''='' # sp2 @ dg @ tr @ [NL] @ sp3 @ ''}'' @ sp4 @ ''core_type_e'' @ sp5 @ '';'' @ s'" by simp
  have 2: "u = al \<and> '' = '' @ in_base 10 n @ wend @ ''} core_type_e;'' @ post =
      sp1 @ CHR ''='' # sp2 @ dg @ tr @ [NL] @ sp3 @ ''}'' @ sp4 @ ''core_type_e'' @ sp5 @ '';'' @ s'"
    by (rule span_unique [OF e2 assms(3) p(2)])
      (use hd_spaces [OF p(3), of is_alnum "CHR ''=''"] space_not_class in \<open>auto simp: is_alnum_def is_lower_bits is_upper_bits is_digit_bits\<close>)
  from conjunct2 [OF 2] have e3: "'' '' @ CHR ''='' # '' '' @ in_base 10 n @ wend @ ''} core_type_e;'' @ post =
      sp1 @ CHR ''='' # sp2 @ dg @ tr @ [NL] @ sp3 @ ''}'' @ sp4 @ ''core_type_e'' @ sp5 @ '';'' @ s'" by simp
  have 3: "'' '' = sp1 \<and> CHR ''='' # '' '' @ in_base 10 n @ wend @ ''} core_type_e;'' @ post =
      CHR ''='' # sp2 @ dg @ tr @ [NL] @ sp3 @ ''}'' @ sp4 @ ''core_type_e'' @ sp5 @ '';'' @ s'"
    by (rule span_unique [OF e3 _ p(3)]) (simp_all add: is_space_bits)
  from conjunct2 [OF 3] have e4: "'' '' @ in_base 10 n @ wend @ ''} core_type_e;'' @ post =
      sp2 @ dg @ tr @ [NL] @ sp3 @ ''}'' @ sp4 @ ''core_type_e'' @ sp5 @ '';'' @ s'" by simp
  have dig: "\<not> is_space (hd (x @ y))" if "list_all is_digit x" "x \<noteq> []" for x y
    using that space_not_class by (cases x) auto
  have 4: "'' '' = sp2 \<and> in_base 10 n @ wend @ ''} core_type_e;'' @ post =
      dg @ tr @ [NL] @ sp3 @ ''}'' @ sp4 @ ''core_type_e'' @ sp5 @ '';'' @ s'"
    by (rule span_unique [OF e4 _ p(4)]) (use dig d p(5,6) in simp_all)
  have 5: "in_base 10 n = dg \<and> wend @ ''} core_type_e;'' @ post =
      tr @ [NL] @ sp3 @ ''}'' @ sp4 @ ''core_type_e'' @ sp5 @ '';'' @ s'"
    by (rule span_unique [OF conjunct2 [OF 4] d(2) p(5)])
      (use hd_spaces [OF p(7), of is_digit NL] hd_spaces [OF assms(4), of is_digit "CHR ''}''"] space_not_class in \<open>auto simp: is_digit_bits\<close>)
  from conjunct2 [OF 5] have e6: "wend @ CHR ''}'' # '' '' @ ''core_type_e'' @ '';'' @ post =
      (tr @ [NL] @ sp3) @ CHR ''}'' # sp4 @ ''core_type_e'' @ sp5 @ '';'' @ s'" by simp
  have 6: "wend = tr @ [NL] @ sp3 \<and> CHR ''}'' # '' '' @ ''core_type_e'' @ '';'' @ post =
      CHR ''}'' # sp4 @ ''core_type_e'' @ sp5 @ '';'' @ s'"
    by (rule span_unique [OF e6 assms(4)]) (use p(7,8) in \<open>simp_all add: is_space_bits\<close>)
  from conjunct2 [OF 6] have e7: "'' '' @ CHR ''c'' # ''ore_type_e'' @ '';'' @ post = sp4 @ CHR ''c'' # ''ore_type_e'' @ sp5 @ '';'' @ s'" by simp
  have 7: "'' '' = sp4 \<and> CHR ''c'' # ''ore_type_e'' @ '';'' @ post = CHR ''c'' # ''ore_type_e'' @ sp5 @ '';'' @ s'"
    by (rule span_unique [OF e7 _ p(9)]) (simp_all add: is_space_bits)
  from conjunct2 [OF 7] have e8: "[] @ '';'' @ post = sp5 @ '';'' @ s'" by simp
  have 8: "[] = sp5 \<and> '';'' @ post = '';'' @ s'"
    by (rule span_unique [OF e8 _ p(10)]) (simp_all add: is_space_bits)
  from r 2 3 4 5 6 7 8 show ?case by (auto simp: g group_def)
qed


lemma enum_body_snoc: "enum_body (ms @ [m]) = concat (map (\<lambda>m. member_text m @ '','') ms) @ member_text m"
proof (induction ms)
  case (Cons k ms)
  have "enum_body (k # ms @ [m]) = member_text k @ '','' @ enum_body (ms @ [m])"
    by (cases ms) (simp_all add: enum_body_def)
  with Cons.IH show ?case by simp
qed (simp add: enum_body_def)

lemma enum_splice:
  assumes "enum_ok pre (ms @ [(ws, name, n)]) wend"
    and "\<And>g. group ''indent'' g = ws \<Longrightarrow> f g = ws @ group ''last'' g @ add @ group ''trailing'' g @ [NL] @ group ''close'' g"
  shows "re_splice last_member_rx f (enum_text pre (ms @ [(ws, name, n)]) wend post) =
    Some (pre @ enum_open @ enum_body (ms @ [(ws, name, n)]) @ add @ wend @ ''} core_type_e;'' @ post)"
proof -
  let ?w = "enum_open @ concat (map (\<lambda>m. member_text m @ '','') ms)"
  have m: "prefix ''Core'' name" "name \<noteq> ''Core''" "list_all is_alnum name" "list_all is_space ws"
    using assms(1) by (auto simp: enum_ok_def member_ok_def)
  then obtain u where "name = ''Core'' @ u" by (auto simp: prefix_def)
  with m have u: "name = ''Core'' @ u" "u \<noteq> []" "list_all is_alnum u" "list_all is_space ws" by auto
  have w: "list_all is_space wend" "wend \<noteq> []" "NL \<in> set wend" using assms(1) by (auto simp: enum_ok_def)
  from split_list [OF w(3)] obtain tr sp where wend: "wend = tr @ [NL] @ sp" by auto
  let ?s = "ws @ ''Core'' @ u @ '' = '' @ in_base 10 n @ wend @ ''} core_type_e;'' @ post"
  have tx: "enum_text pre (ms @ [(ws, name, n)]) wend post = (pre @ ?w) @ ?s"
    by (simp add: enum_text_def enum_body_snoc member_text_def u)
  have "CHR ''}'' \<notin> set (enum_body (ms @ [(ws, name, n)]))"
    using enum_body_chars [of "ms @ [(ws, name, n)]" "CHR ''}''"] assms(1)
    by (auto simp: enum_ok_def is_space_bits is_alnum_def is_lower_bits is_upper_bits is_digit_bits)
  then have nb: "CHR ''}'' \<notin> set ?w" by (auto simp: enum_body_snoc enum_open_def)
  have "\<exists>w' c. ?w = w' @ [c] \<and> (c = CHR '','' \<or> c = CHR ''{'')"
    by (cases ms rule: rev_cases) (auto simp: enum_open_def)
  then obtain w' c where wc: "?w = w' @ [c]" "c = CHR '','' \<or> c = CHR ''{''" by blast
  have "re_search_from last_member_rx [] ((pre @ ?w) @ ?s) = re_search_from last_member_rx (rev (pre @ ?w) @ []) ?s"
    by (rule re_search_skip, rule last_member_skip [OF _ nb wc]) (use assms(1) in \<open>auto simp: enum_ok_def\<close>)
  moreover have ne: "rmatch last_member_rx (rev (pre @ ?w) @ [], ?s, []) \<noteq> []"
    using last_member_exists [of ws u tr sp "rev (pre @ ?w) @ []" n post] u w wend by simp
  ultimately have found: "re_search_from last_member_rx [] ((pre @ ?w) @ ?s) =
      Some (rev (pre @ ?w), ?s, hd (rmatch last_member_rx (rev (pre @ ?w), ?s, [])))"
    using re_search_here [OF ne] by simp
  obtain p' s' g where st: "hd (rmatch last_member_rx (rev (pre @ ?w), ?s, [])) = (p', s', g)" by (cases "hd (rmatch last_member_rx (rev (pre @ ?w), ?s, []))")
  then have "(p', s', g) \<in> set (rmatch last_member_rx (rev (pre @ ?w), ?s, []))" using ne by (metis append_Nil2 hd_in_set)
  from last_cut_unique [OF last_member_cut [OF this] u(4,3) w(1,2)]
  have g: "s' = post" "group ''indent'' g = ws" "group ''last'' g = ''Core'' @ u @ '' = '' @ in_base 10 n"
    "group ''trailing'' g @ [NL] @ group ''close'' g = wend @ ''} core_type_e;''" by auto
  have "f g = ws @ (''Core'' @ u @ '' = '' @ in_base 10 n) @ add @ wend @ ''} core_type_e;''"
    using assms(2) [OF g(2)] g(3,4) by simp
  moreover have "re_splice last_member_rx f ((pre @ ?w) @ ?s) = Some ((pre @ ?w) @ f g @ post)"
    unfolding re_splice_def found st g(1) by simp
  ultimately show ?thesis unfolding tx by (simp add: enum_body_snoc member_text_def u(1))
qed


lemma split_by_chars: "seg \<in> set (split_by P s) \<Longrightarrow> c \<in> set seg \<Longrightarrow> \<not> P c"
  by (induction s arbitrary: seg) (fastforce split: list.splits if_splits)+

lemma upper_char_alnum: "is_alnum c \<Longrightarrow> is_alnum (upper_char c)"
  by (auto simp: upper_char_def is_alnum_def is_lower_def is_upper_def Let_def code_char_of)

lemma py_lower_alnum: "list_all is_alnum s \<Longrightarrow> list_all is_alnum (py_lower s)"
  by (auto simp: py_lower_def list_all_iff is_alnum_def is_lower_def is_upper_def is_digit_def Let_def code_char_of)

lemma capitalize_alnum: "list_all is_alnum s \<Longrightarrow> list_all is_alnum (capitalize s)"
  by (cases s) (auto simp: upper_char_alnum py_lower_alnum)

lemma core_enum_name_ok:
  assumes "core \<noteq> []" "is_lower (hd core)"
  shows "prefix ''Core'' (core_enum_name core)" "core_enum_name core \<noteq> ''Core''" "list_all is_alnum (core_enum_name core)"
proof -
  let ?segs = "segments_of is_alnum (py_lower core)"
  obtain c cs where core: "core = c # cs" "is_lower c" using assms by (cases core) auto
  then have lc: "py_lower core = c # py_lower cs" by (auto simp: py_lower_def is_lower_def is_upper_def Let_def)
  have "is_alnum c" using core by (simp add: is_alnum_def)
  then have "\<exists>t ts. split_by (\<lambda>c. \<not> is_alnum c) (py_lower core) = (c # t) # ts" using lc by (auto split: list.splits)
  then obtain t ts where "?segs = (c # t) # ts" unfolding segments_of_def by fastforce
  then show "core_enum_name core \<noteq> ''Core''" by (simp add: core_enum_name_def)
  have "list_all is_alnum seg" if "seg \<in> set ?segs" for seg
    using that split_by_chars by (fastforce simp: segments_of_def list_all_iff)
  moreover have "list_all is_alnum ''Core''" by code_simp
  ultimately show "list_all is_alnum (core_enum_name core)"
    using capitalize_alnum by (fastforce simp: core_enum_name_def list_all_iff)
qed (simp add: core_enum_name_def)

lemma member_edit_splice:
  "group ''indent'' g = ws \<Longrightarrow> member_edit a g = ws @ group ''last'' g @
     (CHR '','' # member_text (NL # ws, core_enum_name (sp_core a), nat (sp_core_type a))) @ group ''trailing'' g @ [NL] @ group ''close'' g"
  if "0 \<le> sp_core_type a"
  using that by (simp add: member_edit_def member_text_def py_str_def)

text \<open>The edit adds one member behind the last one.\<close>

lemma edit_platform_pkg_adds:
  assumes "edit_platform_pkg a (enum_text pre ms wend post) = Inr t" "enum_ok pre ms wend"
    and "0 \<le> sp_core_type a" "sp_core a \<noteq> []" "is_lower (hd (sp_core a))"
  shows "\<exists>ws. t = enum_text pre (ms @ [(ws, core_enum_name (sp_core a), nat (sp_core_type a))]) wend post \<and>
    enum_ok pre (ms @ [(ws, core_enum_name (sp_core a), nat (sp_core_type a))]) wend \<and>
    (CHR 0x0D \<notin> set (enum_text pre ms wend post) \<longrightarrow> CHR 0x0D \<notin> set t)"
proof -
  have "ms \<noteq> []" using assms(2) by (simp add: enum_ok_def)
  then obtain ms' ws name n where ms: "ms = ms' @ [(ws, name, n)]" by (metis prod_cases3 rev_exhaust)
  let ?m = "(NL # ws, core_enum_name (sp_core a), nat (sp_core_type a))"
  from assms(1) have "re_splice last_member_rx (member_edit a) (enum_text pre ms wend post) = Some t"
    by (auto simp: edit_platform_pkg_def Let_def res_simps split: option.splits)
  then have te: "t = pre @ enum_open @ enum_body ms @ (CHR '','' # member_text ?m) @ wend @ ''} core_type_e;'' @ post"
    using enum_splice [OF assms(2) [unfolded ms] member_edit_splice [OF assms(3)]] ms by simp
  have "enum_body (ms @ [?m]) = enum_body ms @ CHR '','' # member_text ?m"
    using ms enum_body_snoc [of "ms' @ [(ws, name, n)]" ?m] by (simp add: enum_body_snoc [of ms' "(ws, name, n)"])
  then have t: "t = enum_text pre (ms @ [?m]) wend post" by (simp add: te enum_text_def)
  have "list_all is_space ws" using assms(2) ms by (simp add: enum_ok_def member_ok_def)
  then have "member_ok ?m" using core_enum_name_ok [OF assms(4,5)] by (simp add: member_ok_def)
  then have "enum_ok pre (ms @ [?m]) wend" using assms(2) by (simp add: enum_ok_def)
  moreover have "CHR 0x0D \<notin> set t" if cr: "CHR 0x0D \<notin> set (enum_text pre ms wend post)"
  proof -
    have "CHR 0x0D \<notin> set (core_enum_name (sp_core a))" "CHR 0x0D \<notin> set (in_base 10 (nat (sp_core_type a)))"
      using core_enum_name_ok(3) [OF assms(4,5)] dec_digits(1) [of "nat (sp_core_type a)"]
      by (auto simp: list_all_iff is_alnum_def is_lower_bits is_upper_bits is_digit_bits)
    moreover have "CHR 0x0D \<notin> set ws" using cr ms by (simp add: enum_text_def enum_body_snoc member_text_def)
    ultimately show ?thesis using cr by (simp add: te enum_text_def member_text_def)
  qed
  ultimately show ?thesis using t by blast
qed

text \<open>
  (C20) \<^verbatim>\<open>update_platform_pkg\<close> refines the update of a finite map: on a package whose enumeration
  is a comma-separated list of members, the values \<^verbatim>\<open>validate_target.py\<close> reads afterwards are
  the values it read before, updated at the name of the new core.
\<close>

theorem update_platform_pkg_refines:
  assumes "update_platform_pkg a r = (r', Inr ())" "core_spec_of r0 args = Inr a" "0 \<le> sp_core_type a"
    and "lookup_file r (PLATFORM_PKG r) = Some (enum_text pre ms wend post)" "enum_ok pre ms wend"
    and "CHR 0x0D \<notin> set (enum_text pre ms wend post)" "plain_path (root r)"
  shows "\<exists>vals vals'. platform_core_type_values r = Inr vals \<and> platform_core_type_values r' = Inr vals' \<and>
    map_of vals' = (map_of vals)(core_enum_name (sp_core a) \<mapsto> sp_core_type a)"
proof -
  note ok = core_spec_ok [OF assms(2)]
  from assms(1,4) obtain t where t: "edit_platform_pkg a (enum_text pre ms wend post) = Inr t" "r' = write_text r (PLATFORM_PKG r) t"
    by (auto simp: update_platform_pkg_def edit_file_ok)
  from edit_platform_pkg_adds [OF t(1) assms(5,3) ok(3,4)] obtain ws where
    ms': "t = enum_text pre (ms @ [(ws, core_enum_name (sp_core a), nat (sp_core_type a))]) wend post"
      "enum_ok pre (ms @ [(ws, core_enum_name (sp_core a), nat (sp_core_type a))]) wend" "CHR 0x0D \<notin> set t"
    using assms(6) by blast
  have "plain_path (PLATFORM_PKG r)" using assms(7) by (simp add: PLATFORM_PKG_def plain_path_def)
  then have "lookup_file r' (PLATFORM_PKG r') = Some t"
    using t(2) ms'(3) by (simp add: checkout.get_put universal_newlines_id)
  with ms' obtain vals' where "platform_core_type_values r' = Inr vals'"
    "map_of vals' = map_of (rev (members_of (ms @ [(ws, core_enum_name (sp_core a), nat (sp_core_type a))])))"
    using platform_values [of pre "ms @ [(ws, core_enum_name (sp_core a), nat (sp_core_type a))]" wend r' post] by auto
  moreover obtain vals where "platform_core_type_values r = Inr vals" "map_of vals = map_of (rev (members_of ms))"
    using platform_values [OF assms(5,4)] by blast
  ultimately show ?thesis using assms(3) by (auto simp: members_of_def)
qed


lemma updates_values:
  "map_of (foldl (\<lambda>vs m. AList.update (k m) (w m) vs) acc xs) n = Some v \<Longrightarrow> v \<in> w ` set xs \<or> map_of acc n = Some v"
proof (induction xs arbitrary: acc)
  case (Cons x xs)
  then show ?case using Cons.IH [of "AList.update (k x) (w x) acc"] by (auto simp: update_conv split: if_splits)
qed simp

text \<open>
  (C23) The default core type is fresh: \<^verbatim>\<open>next_core_type\<close> returns a number that is not negative and
  greater than every value \<^verbatim>\<open>validate_target.py\<close> reads from the enumeration.
\<close>

theorem next_core_type_fresh:
  assumes "next_core_type r = Inr n"
  shows "0 \<le> n \<and> (\<exists>vals. platform_core_type_values r = Inr vals \<and> (\<forall>name v. map_of vals name = Some v \<longrightarrow> v < n))"
proof -
  from assms obtain t g where read: "lookup_file r (PLATFORM_PKG r) = Some t" and g: "re_search core_type_e_rx t = Some g"
    and n: "n = (let values = map (\<lambda>m. int_of_digits (group ''2'' (snd m))) (re_finditer enum_member_rx (group ''body'' g))
       in (if values = [] then -1 else Max (set values)) + 1)"
    by (auto simp: next_core_type_def existing_core_type_values_def res_simps read_text_ok Let_def split: option.splits)
  let ?w = "\<lambda>m. int_of_digits (group ''2'' (snd m))" and ?ms = "re_finditer enum_member_rx (group ''body'' g)"
  have max: "?w m < n" if "m \<in> set ?ms" for m
  proof -
    have "?w m \<le> Max (set (map ?w ?ms))" using that by (intro Max_ge) auto
    with that show ?thesis unfolding n Let_def by auto
  qed
  have "0 \<le> n"
  proof (cases "?ms = []")
    case False
    then have "?w (hd ?ms) < n" by (intro max) simp
    then show ?thesis by (simp add: int_of_digits_def)
  qed (simp add: n)
  moreover have "v < n" if "map_of (enum_values (group ''body'' g)) name = Some v" for name v
    using updates_values [OF that [unfolded enum_values_def]] max by auto
  moreover have "platform_core_type_values r = Inr (enum_values (group ''body'' g))"
    using read g by (simp add: platform_core_type_values_def is_file_def read_text_def)
  ultimately show ?thesis by blast
qed

end
