(* ===== verification/Core_Accepted.thy ===== *)
theory Core_Accepted
  imports Core_Enum
begin

text \<open>
  The composition of \<^verbatim>\<open>create_core.py\<close> and \<^verbatim>\<open>validate_target.py\<close>: the generated descriptor is
  a printed tree, the reader returns its values, and the check that the script tells its user to
  run accepts the new core.
\<close>

section \<open>The generated descriptor\<close>

definition core_tree :: "core_spec \<Rightarrow> ytree" where
  "core_tree a =
    [(''name'', YScalar (sp_core a)), (''display_name'', YScalar (sp_display_name a)),
     (''integration'', YMap [(''sim'', YScalar ''planned''), (''fpga'', YScalar ''planned''), (''debug'', YScalar ''planned'')]),
     (''adapter'', YMap [(''module'', YScalar (adapter_name a)),
        (''file'', YScalar (''rtl/cores/'' @ adapter_name a @ ''.sv''))]),
     (''platform'', YMap [(''core_type'', YScalar (py_str (sp_core_type a))),
        (''integration'', YScalar (sp_platform_integration a))]),
     (''wrapper'', YMap [(''module'', YScalar (sp_core a @ ''_wrapper''))]),
     (''fusesoc'', YMap [(''sim_target'', YScalar ''sw-sim''), (''core_flag'', YScalar (''core_'' @ sp_core a))]),
     (''isa'', YMap [(''xlen'', YScalar (py_str (sp_xlen a))), (''march'', YScalar (sp_march a)),
        (''mabi'', YScalar (sp_mabi a))]),
     (''reset'', YMap [(''boot_addr'', YScalar ''0x80000000''), (''mtvec_addr'', YScalar ''0x80000000'')]),
     (''debug'', YMap [(''supported'', YScalar ''false'')]),
     (''buses'', YMap [(''instruction'', YScalar (sp_instruction_bus a)), (''data'', YScalar (sp_data_bus a))]),
     (''clocking'', YMap [(''validated_min_hz'', YScalar ''0''), (''validated_max_hz'', YScalar ''0'')]),
     (''software'', YMap [(''default_target'', YScalar ''sim''), (''toolchain'', YScalar ''riscv-multilib''),
        (''zephyr'', YMap [(''status'', YScalar ''planned'')])])]"

lemma core_descriptor_printed:
  "filter nonblank (core_descriptor_lines a) = ydoc 0 (core_tree a @ (''compatible_boards'', YList [sp_board a]) # [])"
  by (simp add: core_descriptor_lines_def core_tree_def blanks_def nonblank_Cons is_space_bits)

lemma core_tree_wf:
  assumes "core_spec_of r args = Inr a" "plain_scalar (sp_display_name a)" "plain_scalar (sp_march a)"
    "plain_scalar (sp_mabi a)" "0 \<le> sp_core_type a"
  shows "ywf (\<lambda>v. unquote_ends v = v) (core_tree a @ (''compatible_boards'', YList [sp_board a]) # [])"
proof -
  note ok = core_spec_ok [OF assms(1)]
  have keys: "list_all is_key (sp_core a)" "list_all is_key (sp_board a)" "list_all is_key (sp_integration_suffix a)"
    using ok by (auto simp: list_all_iff ident_char_key)
  have b: "sp_instruction_bus a \<in> set BUSES" "sp_data_bus a \<in> set BUSES" "sp_xlen a \<in> {32, 64}" "sp_platform_integration a = ''socket_region''"
    using assms(1) by (auto simp: core_spec_of_def res_simps Let_def)
  have bus: "plain_scalar s" if "s \<in> set BUSES" for s
    using that by (intro plain_scalar_keys) (auto simp: BUSES_def is_key_def is_alnum_def is_lower_bits is_digit_bits)
  have lits: "plain_scalar ''planned''" "plain_scalar ''sw-sim''" "plain_scalar ''0x80000000''" "plain_scalar ''false''"
    "plain_scalar ''0''" "plain_scalar ''sim''" "plain_scalar ''riscv-multilib''" "plain_scalar ''socket_region''"
    by code_simp+
  have fil: "plain_scalar (''rtl/cores/'' @ adapter_name a @ ''.sv'')"
    using keys by (intro plain_scalar_ends)
      (auto simp: adapter_name_def is_key_def is_alnum_def is_lower_bits is_linebreak_bits one_line_keys)
  have vals: "plain_scalar (sp_core a)" "plain_scalar (sp_board a)" "plain_scalar (adapter_name a)" "plain_scalar (sp_core a @ ''_wrapper'')"
    "plain_scalar (''core_'' @ sp_core a)" "plain_scalar (py_str (sp_core_type a))" "plain_scalar (py_str (sp_xlen a))"
    "plain_scalar (sp_instruction_bus a)" "plain_scalar (sp_data_bus a)"
    using ok keys assms(5) b bus
    by (auto intro!: plain_scalar_keys plain_scalar_str simp: adapter_name_def is_key_def is_alnum_def is_lower_bits)
  show ?thesis using assms(2-4) vals fil lits b(4)
    by (simp add: core_tree_def plain_scalar_def key_text_def is_key_def is_alnum_def is_lower_bits)
qed


lemma core_descriptor_read:
  assumes "core_spec_of r args = Inr a" "plain_scalar (sp_display_name a)" "plain_scalar (sp_march a)"
    "plain_scalar (sp_mabi a)" "0 \<le> sp_core_type a"
  shows "yaml_path_scalar (core_descriptor a) path =
      ylookup (core_tree a @ (''compatible_boards'', YList [sp_board a]) # []) path"
    and "yaml_top_list (core_descriptor a) ''compatible_boards'' = [sp_board a]"
    and "universal_newlines (core_descriptor a) = core_descriptor a"
proof -
  note wf = core_tree_wf [OF assms]
  have "one_line l" if "l \<in> set (filter nonblank (core_descriptor_lines a))" for l
    using that ydoc_lines [OF wf] by (simp only: core_descriptor_printed)
  moreover have "one_line l" if "l \<in> set (core_descriptor_lines a)" "\<not> nonblank l" for l
    using that by (auto simp: core_descriptor_lines_def nonblank_Cons is_space_bits)
  ultimately have ol: "list_all one_line (core_descriptor_lines a)"
    by (auto simp: list_all_iff) 
  show "yaml_path_scalar (core_descriptor a) path =
      ylookup (core_tree a @ (''compatible_boards'', YList [sp_board a]) # []) path"
    unfolding core_descriptor_def by (rule validate_reader.read_printed [OF wf ol core_descriptor_printed])
  have "quote_free (sp_board a)"
    using core_spec_ok [OF assms(1)] by (intro quote_free_keys) (auto simp: list_all_iff ident_char_key)
  moreover have "''compatible_boards'' \<notin> set (ykeys (core_tree a))" by (simp add: core_tree_def)
  ultimately show "yaml_top_list (core_descriptor a) ''compatible_boards'' = [sp_board a]"
    using top_list_printed [OF wf _ _ _ core_descriptor_printed] ol
    by (simp add: yaml_top_list_def core_descriptor_def splitlines_unlines)
  show "universal_newlines (core_descriptor a) = core_descriptor a"
    using unlines_no_cr [OF ol] by (simp add: core_descriptor_def universal_newlines_id)
qed


definition planned :: "(string \<times> string) list" where
  "planned = map (\<lambda>flow. (flow, ''planned'')) FLOWS"

definition scaffold_info :: "core_spec \<Rightarrow> core_info" where
  "scaffold_info a =
     \<lparr>ci_display_name = sp_display_name a, ci_statuses = planned, ci_adapter_module = adapter_name a,
      ci_adapter_file = ''rtl/cores/'' @ adapter_name a @ ''.sv'', ci_core_type = sp_core_type a,
      ci_integration = sp_platform_integration a, ci_enum_name = core_enum_name (sp_core a),
      ci_wrapper_module = sp_core a @ ''_wrapper'', ci_sim_target = ''sw-sim'', ci_core_flag = ''core_'' @ sp_core a,
      ci_xlen = sp_xlen a, ci_march = sp_march a, ci_mabi = sp_mabi a,
      ci_boot_addr = 0x80000000, ci_mtvec_addr = 0x80000000, ci_instruction_bus = sp_instruction_bus a,
      ci_data_bus = sp_data_bus a, ci_min_hz = 0, ci_max_hz = 0, ci_default_target = ''sim'',
      ci_toolchain = ''riscv-multilib'', ci_zephyr = ''planned'', ci_boards = [sp_board a]\<rparr>"

lemma reset_value: "py_int0 ''0x80000000'' = Some 0x80000000" "py_int0 ''0'' = Some 0"
  by (simp_all add: py_int0_def unsigned0_def grouped_val_def Let_def strip_by_def lstrip_by_def rstrip_by_def int_space_def code_Char split_on_def base_digits_def digits_val_def digit_val_def)

lemma core_descriptor_accepted:
  assumes "core_spec_of r args = Inr a" "plain_scalar (sp_display_name a)" "plain_scalar (sp_march a)"
    "plain_scalar (sp_mabi a)" "0 \<le> sp_core_type a"
  shows "core_identity (sp_core a) (core_descriptor a) = Inr (sp_display_name a, planned)"
    and "core_fields (sp_core a) (core_descriptor a) (sp_display_name a, planned)
      (adapter_name a, ''rtl/cores/'' @ adapter_name a @ ''.sv'')
      (sp_core_type a, sp_platform_integration a, core_enum_name (sp_core a)) = Inr (scaffold_info a)"
    and "core_rules (scaffold_info a) = Inr ()"
    and "core_debug_check (sp_core a) (core_descriptor a) ''planned'' = Inr ()"
proof -
  note read = core_descriptor_read [OF assms]
  have b: "sp_instruction_bus a \<in> set BUSES" "sp_data_bus a \<in> set BUSES" "sp_xlen a \<in> {32, 64}"
    "sp_platform_integration a = ''socket_region''" "prefix (''rv'' @ py_str (sp_xlen a)) (sp_march a)"
    "sp_xlen a = 32 \<longrightarrow> prefix ''ilp32'' (sp_mabi a)" "sp_xlen a = 64 \<longrightarrow> prefix ''lp64'' (sp_mabi a)"
    using assms(1) by (auto simp: core_spec_of_def res_simps Let_def)
  show "core_identity (sp_core a) (core_descriptor a) = Inr (sp_display_name a, planned)"
    by (simp add: core_identity_def require_scalar_def read(1) ylookup_def core_tree_def FLOWS_def planned_def
      require_status_def)
  show "core_fields (sp_core a) (core_descriptor a) (sp_display_name a, planned)
      (adapter_name a, ''rtl/cores/'' @ adapter_name a @ ''.sv'')
      (sp_core_type a, sp_platform_integration a, core_enum_name (sp_core a)) = Inr (scaffold_info a)"
    using b(3) by (auto simp: core_fields_def require_scalar_def require_int_def read(1,2) ylookup_def core_tree_def
      parse_positive_int_def parse_nonnegative_int_def py_int0_str reset_value scaffold_info_def)
  have flag: "re_fullmatch flag_rx (''core_'' @ sp_core a)" 
  proof -
    have "list_all is_key (sp_core a)" using core_spec_ok(5) [OF assms(1)] by (auto simp: list_all_iff ident_char_key)
    moreover have "list_all is_key ''core_''" by code_simp
    ultimately show ?thesis by (simp add: flag_rx_def re_fullmatch_plus)
  qed
  have "re_fullmatch sim_target_rx ''sw-sim''"
    by (simp add: sim_target_rx_def re_fullmatch_plus is_key_def is_alnum_def is_lower_bits)
  then show "core_rules (scaffold_info a) = Inr ()"
    using b flag by (auto simp: core_rules_def scaffold_info_def PLATFORM_INTEGRATIONS_def ZEPHYR_STATUSES_def)
  show "core_debug_check (sp_core a) (core_descriptor a) ''planned'' = Inr ()"
    by (simp add: core_debug_check_def require_scalar_def read(1) ylookup_def core_tree_def)
qed


section \<open>The adapter\<close>

lemma split_by_step: "\<forall>c\<in>set a. \<not> P c \<Longrightarrow> P d \<Longrightarrow> split_by P (a @ d # b) = a # split_by P b"
  by (induction a) auto

lemma adapter_path:
  assumes "file_name n"
  shows "path_join p (''rtl/cores/'' @ n) = p @ [''rtl'', ''cores'', n]"
proof -
  have "''rtl/cores/'' @ n = ''rtl'' @ CHR ''/'' # ''cores'' @ CHR ''/'' # n" by simp
  then have "split_by ((=) CHR ''/'') (''rtl/cores/'' @ n) = [''rtl'', ''cores''] @ split_by ((=) CHR ''/'') n"
    by (simp only:) (subst split_by_step, simp, simp, subst split_by_step, simp_all)
  moreover have "split_by ((=) CHR ''/'') n = [n]" using assms by (intro split_by_none) (auto simp: file_name_def)
  ultimately show ?thesis using assms by (simp add: path_join_def components_def split_on_def file_name_def)
qed

lemma module_found:
  assumes "name \<noteq> []" "is_word (last name)"
  shows "re_search (module_rx name) (pre @ [NL] @ ''module '' @ name @ '';'' @ post) \<noteq> None"
proof -
  have wb: "word_boundary (rev name @ p) ('';'' @ post)" for p
    using assms by (simp add: word_boundary_def hd_rev hd_append is_word_def is_key_def is_alnum_def is_lower_bits
      is_upper_bits is_digit_bits Let_def code_Char)
  have "\<exists>st. st \<in> set (rmatch (module_rx name) (NL # rev pre, [] @ ''module'' @ '' '' @ name @ '';'' @ post, []))"
    unfolding module_rx_def rseq.simps
    by (rule exI, (rule mem_intros wb | simp add: at_bol_def)+)
  then have "rmatch (module_rx name) (rev (pre @ [NL]) @ [], ''module '' @ name @ '';'' @ post, []) \<noteq> []" by auto
  from re_search_finds [OF this] show ?thesis by (simp add: re_search_def)
qed

lemma adapter_accepted:
  assumes "core_spec_of r args = Inr a" "plain_scalar (sp_display_name a)" "plain_scalar (sp_march a)"
    "plain_scalar (sp_mabi a)" "0 \<le> sp_core_type a"
    and "lookup_file r' (root r' @ [''rtl'', ''cores'', adapter_name a @ ''.sv'']) = Some (universal_newlines (core_adapter_text a))"
  shows "core_adapter r' (sp_core a) (core_descriptor a) = Inr (adapter_name a, ''rtl/cores/'' @ adapter_name a @ ''.sv'')"
proof -
  note read = core_descriptor_read [OF assms(1-5)] and ok = core_spec_ok [OF assms(1)]
  have fn: "file_name (adapter_name a @ ''.sv'')"
    using ok by (auto intro!: file_name_start simp: ident_no_slash adapter_name_def is_lower_key is_lower_bits)
  have path: "path_join (root r') (''rtl/cores/'' @ adapter_name a @ ''.sv'') = root r' @ [''rtl'', ''cores'', adapter_name a @ ''.sv'']"
    using adapter_path [OF fn] by simp
  have ol: "one_line (adapter_name a)" using ok by (simp add: adapter_name_def is_linebreak_bits one_line_ident)
  have dn: "one_line (sp_display_name a)" using assms(2) by (simp add: plain_scalar_def plain_text_def)
  have cr: "universal_newlines (core_adapter_text a) = core_adapter_text a"
    unfolding core_adapter_text_def by (intro universal_newlines_id unlines_no_cr) (simp add: ol dn is_linebreak_bits)
  have "re_search (module_rx (adapter_name a)) (core_adapter_text a) \<noteq> None"
  proof -
    have e: "\<exists>pre post. core_adapter_text a = pre @ [NL] @ ''module '' @ adapter_name a @ '';'' @ post"
      unfolding core_adapter_text_def
      by (rule exI [of _ "butlast (unlines [''// Placeholder adapter for '' @ sp_display_name a @ ''.'', ''//'',
        ''// This scaffold is intentionally not wired into corejack_core_region. Replace'',
        ''// this module with the real core protocol adapter before attempting simulation'', ''// or FPGA support promotion.''])"],
        rule exI [of _ "[NL] @ ''endmodule'' @ [NL]"]) (simp add: butlast_append)
    have "is_word (last (adapter_name a))" "adapter_name a \<noteq> []"
      by (simp_all add: adapter_name_def is_word_def is_key_def is_alnum_def is_lower_bits Let_def)
    with e module_found show ?thesis by metis
  qed
  then show ?thesis using assms(6)
    by (auto simp: core_adapter_def require_scalar_def read(1) ylookup_def core_tree_def check_repo_file_def path [simplified]
      is_file_def read_text_def cr Let_def)
qed


section \<open>The core types in use\<close>

text \<open>What the scan of all descriptors needs of one of them, and the type it counts for it.\<close>

definition type_readable :: "repo \<Rightarrow> string \<Rightarrow> bool" where
  "type_readable r c = (\<exists>ct. lookup_file r (descriptor_path (CORE_DIR r) c) = Some ct \<and>
     (\<forall>v. yaml_path_scalar ct [''platform'', ''core_type''] = Some v \<longrightarrow> (\<exists>t. py_int0 v = Some t \<and> 0 \<le> t)))"

definition has_type :: "repo \<Rightarrow> string \<Rightarrow> int \<Rightarrow> bool" where
  "has_type r c t = (\<exists>ct v. lookup_file r (descriptor_path (CORE_DIR r) c) = Some ct \<and>
     yaml_path_scalar ct [''platform'', ''core_type''] = Some v \<and> py_int0 v = Some t)"

lemma usage_scan_readable: "usage_scan r cores u = Inr u' \<Longrightarrow> c \<in> set cores \<Longrightarrow> type_readable r c"
proof (induction r cores u rule: usage_scan.induct)
  case (2 r core cores u)
  from "2.prems"(1) obtain ct where ct: "read_text r (descriptor_path (CORE_DIR r) core) = Inr ct" by (auto simp: res_simps)
  show ?case
  proof (cases "yaml_path_scalar ct [''platform'', ''core_type'']")
    case None
    with 2 ct show ?thesis by (auto simp: type_readable_def read_text_ok)
  next
    case (Some v)
    with "2.prems"(1) ct obtain t where "py_int0 v = Some t" "0 \<le> t" by (auto simp: res_simps)
    with 2 ct Some show ?thesis by (auto simp: type_readable_def read_text_ok res_simps)
  qed
qed simp

lemma usage_scan_total:
  "\<forall>c\<in>set cores. type_readable r c \<Longrightarrow> \<exists>u'. usage_scan r cores u = Inr u' \<and>
     (\<forall>t us c. map_of u' t = Some us \<longrightarrow> c \<in> set us \<longrightarrow>
        (\<exists>us0. map_of u t = Some us0 \<and> c \<in> set us0) \<or> c \<in> set cores \<and> has_type r c t)"
proof (induction cores arbitrary: u)
  case (Cons core cores)
  then obtain ct where ct: "lookup_file r (descriptor_path (CORE_DIR r) core) = Some ct"
    "\<forall>v. yaml_path_scalar ct [''platform'', ''core_type''] = Some v \<longrightarrow> (\<exists>t. py_int0 v = Some t \<and> 0 \<le> t)"
    by (auto simp: type_readable_def)
  show ?case
  proof (cases "yaml_path_scalar ct [''platform'', ''core_type'']")
    case None
    with Cons ct show ?thesis by (fastforce simp: read_text_def)
  next
    case (Some v)
    with ct obtain t where t: "py_int0 v = Some t" "0 \<le> t" by blast
    let ?u = "AList.map_default t [core] (\<lambda>us. us @ [core]) u"
    from Cons obtain u' where u': "usage_scan r cores ?u = Inr u'"
      "\<forall>t us c. map_of u' t = Some us \<longrightarrow> c \<in> set us \<longrightarrow>
        (\<exists>us0. map_of ?u t = Some us0 \<and> c \<in> set us0) \<or> c \<in> set cores \<and> has_type r c t" by fastforce
    have "has_type r core t" using ct(1) Some t by (auto simp: has_type_def)
    moreover have "map_of ?u = (map_of u)(t \<mapsto> case map_of u t of None \<Rightarrow> [core] | Some us \<Rightarrow> us @ [core])"
      by (simp add: map_of_map_default split: option.split)
    ultimately show ?thesis using u' ct(1) Some t
      by (auto simp: read_text_def parse_nonnegative_int_def split: if_splits option.splits)
  qed
qed simp


section \<open>The check accepts the new core\<close>

text \<open>The directories of the descriptors after a run.\<close>

lemma core_names_after:
  assumes "core_spec_of r args = Inr a" "r' = checkout.put_all r (core_edits r a pkg core board)"
    "c \<in> set (descriptor_names r' (CORE_DIR r))"
  shows "c = sp_core a \<or> c \<in> set (descriptor_names r (CORE_DIR r))"
proof -
  from assms(3) obtain p where p: "p \<in> fst ` set (files r')" "strict_prefix (CORE_DIR r) p"
      "suffix ''.yaml'' (p ! length (CORE_DIR r))" "c = stem ''.yaml'' (p ! length (CORE_DIR r))"
    unfolding descriptor_names_iff entries_iff by blast
  have "p \<in> fst ` set (files r) \<or> p \<in> set (core_written r a)"
    using p(1) by (simp add: assms(2) keys_put_all) (metis core_edits_paths list.set_map)
  then show ?thesis
  proof
    assume "p \<in> fst ` set (files r)"
    with p(2-4) show ?thesis unfolding descriptor_names_iff entries_iff by blast
  next
    assume "p \<in> set (core_written r a)"
    with p(2) have "p = root r @ [''cfg'', ''cores'', sp_core a @ ''.yaml'']"
      by (auto simp: core_written_def core_paths [OF assms(1)] PLATFORM_PKG_def CORE_FILE_def CORE_DIR_def strict_prefix_def prefix_def)
    with p(4) core_spec_ok(3) [OF assms(1)] show ?thesis by (simp add: CORE_DIR_def nth_append stem_yaml)
  qed
qed

lemma dirs_put_all [simp]:
  "CORE_DIR (checkout.put_all r kts) = CORE_DIR r" "BOARD_DIR (checkout.put_all r kts) = BOARD_DIR r"
  "PLATFORM_PKG (checkout.put_all r kts) = PLATFORM_PKG r"
  by (simp_all add: CORE_DIR_def BOARD_DIR_def PLATFORM_PKG_def)

lemma core_descriptor_path:
  assumes "core_spec_of r args = Inr a"
  shows "descriptor_path (CORE_DIR r) (sp_core a) = root r @ [''cfg'', ''cores'', sp_core a @ ''.yaml'']"
  using core_paths(1) [OF assms, of r] by (simp add: core_files_def)

text \<open>No other descriptor changes, and none of them uses the new core type.\<close>

lemma usage_after:
  assumes "core_spec_of r args = Inr a" "wf_repo r" "r' = checkout.put_all r (core_edits r a pkg core board)"
    and "core_type_usage r = Inr usage" "map_of usage (sp_core_type a) = None"
    and "type_readable r' (sp_core a)"
  shows "\<exists>usage'. core_type_usage r' = Inr usage' \<and>
    (\<forall>us c. map_of usage' (sp_core_type a) = Some us \<longrightarrow> c \<in> set us \<longrightarrow> c = sp_core a)"
proof -
  have plain: "plain_path (root r)" by (rule wf_repo_plain [OF assms(2)])
  have pl: "list_all plain_path (map fst (core_edits r a pkg core board))"
    using core_written_apart [OF assms(1) plain] by (simp add: apart_def)
  have old: "lookup_file r' (descriptor_path (CORE_DIR r) c) = lookup_file r (descriptor_path (CORE_DIR r) c)"
    if c: "c \<in> set (descriptor_names r (CORE_DIR r))" "c \<noteq> sp_core a" for c
  proof -
    note path = listed_path [OF assms(2) c(1)]
    have "plain_path (descriptor_path (CORE_DIR r) c)"
      using path plain by (auto simp: CORE_DIR_def plain_path_def file_name_def)
    moreover have "descriptor_path (CORE_DIR r) c \<notin> set (core_written r a)"
      using path c(2) by (auto simp: core_written_def core_paths [OF assms(1)] PLATFORM_PKG_def CORE_FILE_def CORE_DIR_def)
    ultimately show ?thesis using checkout.get_put_all_other [OF _ pl, of _ r] assms(3) by simp
  qed
  have names: "c = sp_core a \<or> c \<in> set (descriptor_names r (CORE_DIR r))" if "c \<in> set (descriptor_names r' (CORE_DIR r))" for c
    using core_names_after [OF assms(1,3) that] .
  have readable: "type_readable r c" if "c \<in> set (descriptor_names r (CORE_DIR r))" for c
    using usage_scan_readable [OF assms(4) [unfolded core_type_usage_def] that] .
  have "\<forall>c\<in>set (descriptor_names r' (CORE_DIR r)). type_readable r' c"
  proof
    fix c assume "c \<in> set (descriptor_names r' (CORE_DIR r))"
    then show "type_readable r' c" using names [of c] old [of c] readable [of c] assms(6) assms(3)
      by (cases "c = sp_core a") (auto simp: type_readable_def)
  qed
  from usage_scan_total [OF this, of "[]"] obtain u' where u': "core_type_usage r' = Inr u'"
    "\<And>t us c. map_of u' t = Some us \<Longrightarrow> c \<in> set us \<Longrightarrow> c \<in> set (descriptor_names r' (CORE_DIR r)) \<and> has_type r' c t"
    using assms(3) by (auto simp: core_type_usage_def)
  have "c = sp_core a" if m: "map_of u' (sp_core_type a) = Some us" "c \<in> set us" for us c
  proof (rule ccontr)
    assume ne: "c \<noteq> sp_core a"
    from u'(2) [OF m] have c: "c \<in> set (descriptor_names r (CORE_DIR r))" "has_type r' c (sp_core_type a)" using names ne by auto
    then obtain ct v where "lookup_file r (descriptor_path (CORE_DIR r) c) = Some ct"
      "yaml_path_scalar ct [''platform'', ''core_type''] = Some v" "py_int0 v = Some (sp_core_type a)"
      using old [OF c(1) ne] assms(3) by (auto simp: has_type_def)
    with usage_scan_finds [OF assms(4) [unfolded core_type_usage_def] c(1)] assms(5) show False by fastforce
  qed
  with u'(1) show ?thesis by blast
qed

lemma board_after:
  assumes "core_spec_of r args = Inr a" "block_only ''compatible_cores'' (splitlines board)"
    "\<not> yaml_top_list_contains board ''compatible_cores'' (sp_core a)"
    "append_yaml_top_list_item board ''compatible_cores'' (sp_core a) = Inr board'"
    and "CHR 0x0D \<notin> set board"
  shows "sp_core a \<in> set (yaml_top_list board' ''compatible_cores'')" "CHR 0x0D \<notin> set board'"
proof -
  note ok = core_spec_ok [OF assms(1)]
  have item: "plain_text (sp_core a)" "quote_free (sp_core a)"
    using plain_scalar_keys [OF ok(3) ident_keys [OF ok(5)]] quote_free_keys [OF ok(3) ident_keys [OF ok(5)]]
    by (simp_all add: plain_scalar_def)
  have key: "key_text ''compatible_cores''" by code_simp
  obtain out where e: "append_scan ''compatible_cores'' (sp_core a) None (splitlines board) = (out, True)"
    "splitlines board' = out" "list_all one_line (splitlines board)"
    using append_edit [OF item(1) assms(3,4)] .
  show "sp_core a \<in> set (yaml_top_list board' ''compatible_cores'')"
    using append_scan_top_list [OF key item e(1,3) assms(2)] e(2) by (auto simp: yaml_top_list_def)
  show "CHR 0x0D \<notin> set board'" using append_keeps_lines [OF item(1) assms(4,5)] by blast
qed

lemma enum_name_same: "expected_core_enum_name = core_enum_name"
  by (rule ext) (simp add: expected_core_enum_name_def core_enum_name_def)

lemma core_type_accepted:
  assumes "core_spec_of r args = Inr a" "yaml_path_scalar ct [''platform'', ''core_type''] = Some (py_str (sp_core_type a))"
    "yaml_path_scalar ct [''platform'', ''integration''] = Some (sp_platform_integration a)" "0 \<le> sp_core_type a"
    and "platform_core_type_values r' = Inr vals" "map_of vals (core_enum_name (sp_core a)) = Some (sp_core_type a)"
    and "core_type_usage r' = Inr usage" "\<forall>us c. map_of usage (sp_core_type a) = Some us \<longrightarrow> c \<in> set us \<longrightarrow> c = sp_core a"
  shows "core_type_check r' (sp_core a) ct = Inr (sp_core_type a, sp_platform_integration a, core_enum_name (sp_core a))"
  using assms(2-8)
  by (auto simp: core_type_check_def require_scalar_def parse_nonnegative_int_def py_int0_str
    enum_name_same Let_def fail_if_def split: option.splits)

text \<open>
  (C5) The scaffold passes the check that the script tells its user to run. After a successful
  \<^verbatim>\<open>create_core\<close> on a well-formed checkout, \<^verbatim>\<open>validate_target.py --core-check\<close> accepts the new
  core, when its free-form arguments are plain YAML scalars, its core type is used by no other
  descriptor, the enumeration is a list of members and the board lists its cores as a block.
\<close>

theorem create_core_passes_check:
  assumes "create_core args r = (r', Inr out)" "wf_repo r"
    and "core_spec_of r args = Inr a" "plain_scalar (sp_display_name a)" "plain_scalar (sp_march a)"
      "plain_scalar (sp_mabi a)" "0 \<le> sp_core_type a"
    and "lookup_file r (PLATFORM_PKG r) = Some (enum_text pre ms wend post)" "enum_ok pre ms wend"
    and "core_type_usage r = Inr usage" "map_of usage (sp_core_type a) = None"
    and "lookup_file r (descriptor_path (BOARD_DIR r) (sp_board a)) = Some board"
      "block_only ''compatible_cores'' (splitlines board)"
      "\<not> yaml_top_list_contains board ''compatible_cores'' (sp_core a)"
  shows "snd (core_check r' (sp_core a) verbose) = Inr ()"
proof -
  note ok = core_spec_ok [OF assms(3)] and plain = wf_repo_plain [OF assms(2)] and core_paths = core_paths [OF assms(3)]
  note read = core_descriptor_read [OF assms(3-7)] and accepted = core_descriptor_accepted [OF assms(3-7)]
  obtain a' pkg pkg' core core' bt board' where run': "core_spec_of r args = Inr a'"
    "lookup_file r (PLATFORM_PKG r) = Some pkg" "edit_platform_pkg a' pkg = Inr pkg'"
    "lookup_file r (CORE_FILE r) = Some core" "edit_corejack_core a' core = Inr core'"
    "lookup_file r (descriptor_path (BOARD_DIR r) (sp_board a')) = Some bt"
    "append_yaml_top_list_item bt ''compatible_cores'' (sp_core a') = Inr board'"
    "\<forall>pc\<in>set (core_files r a'). \<not> path_exists r (fst pc)"
    "r' = checkout.put_all r (core_edits r a' pkg' core' board')"
    by (rule create_core_run [OF assms(1) plain])
  from run'(1) assms(3) have [simp]: "a' = a" by simp
  have run: "edit_platform_pkg a (enum_text pre ms wend post) = Inr pkg'"
    "append_yaml_top_list_item board ''compatible_cores'' (sp_core a) = Inr board'"
    "r' = checkout.put_all r (core_edits r a pkg' core' board')"
    using run'(2,3,6,7,9) assms(8,12) by simp_all
  have ap: "apart (core_written r a)" by (rule core_written_apart [OF assms(3) plain])
  have after: "lookup_file r' p = Some (universal_newlines c)" if "(p, c) \<in> set (core_edits r a pkg' core' board')" for p c
    using checkout.get_put_all [OF _ _ that, of r] ap run(3) by (simp add: apart_distinct, simp add: apart_def)
  let ?D = "descriptor_path (CORE_DIR r) (sp_core a)" and ?B = "descriptor_path (BOARD_DIR r) (sp_board a)"
  have D: "lookup_file r' ?D = Some (core_descriptor a)"
    using after [of ?D "core_descriptor a"] read(3) by (simp add: core_edits_def core_files_def)
  have "file_name (adapter_name a @ ''.sv'')"
    using ok by (auto intro!: file_name_start simp: ident_no_slash adapter_name_def is_lower_bits is_key_def is_alnum_def)
  then have adapter: "core_adapter r' (sp_core a) (core_descriptor a) = Inr (adapter_name a, ''rtl/cores/'' @ adapter_name a @ ''.sv'')"
    using after run(3) by (intro adapter_accepted [OF assms(3-7)]) (simp add: core_edits_def core_files_def path_join_name)
  obtain ws where pkg: "pkg' = enum_text pre (ms @ [(ws, core_enum_name (sp_core a), nat (sp_core_type a))]) wend post"
    "enum_ok pre (ms @ [(ws, core_enum_name (sp_core a), nat (sp_core_type a))]) wend" "CHR 0x0D \<notin> set pkg'"
    using edit_platform_pkg_adds [OF run(1) assms(9,7) ok(3,4)] wf_repo_text [OF assms(2,8)] by blast
  then have "lookup_file r' (PLATFORM_PKG r') = Some pkg'"
    using after [of "PLATFORM_PKG r" pkg'] run(3) by (simp add: core_edits_def universal_newlines_id)
  with pkg platform_values obtain vals where vals: "platform_core_type_values r' = Inr vals"
      "map_of vals (core_enum_name (sp_core a)) = Some (sp_core_type a)"
    using assms(7) by (force simp: members_of_def)
  have ctype: "yaml_path_scalar (core_descriptor a) [''platform'', ''core_type''] = Some (py_str (sp_core_type a))"
    "yaml_path_scalar (core_descriptor a) [''platform'', ''integration''] = Some (sp_platform_integration a)"
    by (simp_all add: read(1) ylookup_def core_tree_def)
  have "type_readable r' (sp_core a)" using D ctype(1) assms(7) run(3) by (simp add: type_readable_def py_int0_str)
  with usage_after [OF assms(3,2) run(3) assms(10,11)] obtain usage' where "core_type_usage r' = Inr usage'"
    "\<forall>us c. map_of usage' (sp_core_type a) = Some us \<longrightarrow> c \<in> set us \<longrightarrow> c = sp_core a" by blast
  note type = core_type_accepted [OF assms(3) ctype assms(7) vals this]
  note board = board_after [OF assms(3,13,14) run(2) wf_repo_text [OF assms(2,12)]]
  have B: "lookup_file r' ?B = Some board'"
    using after [of ?B board'] board(2) by (simp add: core_edits_def universal_newlines_id)
  have "sp_board a \<in> set (descriptor_names r' (BOARD_DIR r))"
  proof (rule descriptor_listed)
    have eq: "?B = BOARD_DIR r @ [sp_board a @ ''.yaml'']" using core_paths(2) [of r] by (simp add: BOARD_DIR_def)
    then show "lookup_file r' (BOARD_DIR r @ [sp_board a @ ''.yaml'']) = Some board'" using B by simp
    show "plain_path (BOARD_DIR r @ [sp_board a @ ''.yaml''])" using ap eq by (simp add: apart_def core_written_def)
  qed (rule ok(6))
  then have boards: "core_boards_check r' (sp_core a) [sp_board a] = Inr ()"
    using B board(1) run(3) by (auto simp: core_boards_check_def read_text_def)
  have "status_of planned ''debug'' = ''planned''" by (simp add: status_of_def planned_def FLOWS_def)
  then have "core_checked r' (sp_core a) = Inr (core_descriptor a, scaffold_info a)"
    using D run(3) accepted adapter type boards
    by (simp add: core_checked_def is_file_def read_text_def) (simp add: scaffold_info_def)
  then show ?thesis by (simp add: core_check_end)
qed

end
