(* ===== verification/Create_Board.thy ===== *)
theory Create_Board
  imports Scaffold
begin

text \<open>
  \<^verbatim>\<open>src/bin/create_board.py\<close>: the scaffold of a new FPGA board. A run creates the board
  descriptor, its constraints, its wrapper and its FuseSoC core, and edits the shared FPGA target
  of \<^verbatim>\<open>corejack.core\<close>, line by line, with five flags.
\<close>

section \<open>Arguments\<close>

record board_args =
  ba_board :: string
  ba_part :: string
  ba_display_name :: string
  ba_input_hz :: int
  ba_soc_hz :: int
  ba_clock_p :: string
  ba_clock_n :: string
  ba_reset_port :: string
  ba_reset_polarity :: string
  ba_uart_baud :: int
  ba_uart_tx :: string
  ba_uart_rx :: string

text \<open>
  The default of \<^verbatim>\<open>parse_args\<close> for a missing display name; it is used only for a board name
  that \<^verbatim>\<open>require_identifier\<close> accepts.
\<close>

definition default_display :: "string option \<Rightarrow> board_args \<Rightarrow> board_args" where
  "default_display display_name a =
     a\<lparr>ba_display_name := (case display_name of None \<Rightarrow> upper_name (ba_board a) | Some d \<Rightarrow> d)\<rparr>"

definition board_top :: "board_args \<Rightarrow> string" where
  "board_top a = ''corejack_'' @ ba_board a @ ''_wrap''"

section \<open>Generated files\<close>

definition board_descriptor_lines :: "board_args \<Rightarrow> string list" where
  "board_descriptor_lines a =
    [''name: '' @ ba_board a,
     ''display_name: '' @ ba_display_name a,
     [],
     ''fpga:'',
     ''  part: '' @ ba_part a,
     ''  top_template: corejack_{board}_wrap'',
     ''  target: fpga'',
     ''  work_root: build/fpga/{board}/{core}/fusesoc-fpga'',
     [],
     ''fusesoc:'',
     ''  board_flag: board_'' @ ba_board a,
     [],
     ''clock:'',
     ''  input_hz: '' @ py_str (ba_input_hz a),
     ''  soc_hz: '' @ py_str (ba_soc_hz a),
     ''  constraints_ports:'',
     ''    p: '' @ ba_clock_p a,
     ''    n: '' @ ba_clock_n a,
     [],
     ''reset:'',
     ''  polarity: '' @ ba_reset_polarity a,
     ''  constraints_port: '' @ ba_reset_port a,
     [],
     ''uart:'',
     ''  baud: '' @ py_str (ba_uart_baud a),
     ''  tx_port: '' @ ba_uart_tx a,
     ''  rx_port: '' @ ba_uart_rx a,
     [],
     ''debug:'',
     ''  transport: jtag'',
     ''  jtag_adapter: tigard'',
     [],
     ''constraints:'',
     ''  xdc: rtl/platform/fpga/boards/'' @ ba_board a @ ''/'' @ ba_board a @ ''.xdc'',
     [],
     ''programming:'',
     ''  flow: vivado'',
     ''  bitstream_target: fpga-bit'',
     ''  program_target: fpga-pgm'',
     [],
     ''validation:'',
     ''  smoke_app: hello_world'',
     [],
     ''compatible_cores:'',
     ''  - ibex'']"

definition board_descriptor :: "board_args \<Rightarrow> string" where
  "board_descriptor a = unlines (board_descriptor_lines a)"

definition board_core :: "string \<Rightarrow> board_args \<Rightarrow> string" where
  "board_core version a = unlines
    [''CAPI=2:'',
     [],
     ''name: corejack:boards:'' @ ba_board a @ '':'' @ version,
     ''description: '' @ ba_display_name a @ '' FPGA board wrapper and constraints for CoreJack'',
     [],
     ''filesets:'',
     ''  board_rtl:'',
     ''    files:'',
     ''      - rtl/platform/fpga/boards/'' @ ba_board a @ ''/corejack_'' @ ba_board a @ ''_wrap.sv'',
     ''      - rtl/platform/fpga/boards/'' @ ba_board a @ ''/'' @ ba_board a @ ''.xdc : {file_type: xdc}'',
     ''    file_type: systemVerilogSource'',
     [],
     ''targets:'',
     ''  default:'',
     ''    filesets:'',
     ''      - board_rtl'']"

definition board_xdc :: "board_args \<Rightarrow> string" where
  "board_xdc a = unlines
    [''# '' @ ba_display_name a @ '' constraints for CoreJack.'',
     ''# Replace the PACKAGE_PIN placeholders with board-specific pin names before'',
     ''# attempting bitstream generation.'',
     [],
     ''# Differential input clock'',
     ''# set_property PACKAGE_PIN <CLK_P_PIN> [get_ports {'' @ ba_clock_p a @ ''}]'',
     ''# set_property PACKAGE_PIN <CLK_N_PIN> [get_ports {'' @ ba_clock_n a @ ''}]'',
     ''# set_property IOSTANDARD DIFF_SSTL12 [get_ports {'' @ ba_clock_p a @ '' '' @ ba_clock_n a @ ''}]'',
     ''# create_clock -period 10.000 [get_ports {'' @ ba_clock_p a @ ''}]'',
     [],
     ''# Reset'',
     ''# set_property PACKAGE_PIN <RESET_PIN> [get_ports {'' @ ba_reset_port a @ ''}]'',
     ''# set_property IOSTANDARD LVCMOS18 [get_ports {'' @ ba_reset_port a @ ''}]'',
     [],
     ''# UART'',
     ''# set_property PACKAGE_PIN <UART_TX_PIN> [get_ports {'' @ ba_uart_tx a @ ''}]'',
     ''# set_property PACKAGE_PIN <UART_RX_PIN> [get_ports {'' @ ba_uart_rx a @ ''}]'',
     ''# set_property IOSTANDARD LVCMOS18 [get_ports {'' @ ba_uart_tx a @ '' '' @ ba_uart_rx a @ ''}]'',
     [],
     ''# JTAG/debug pins, LEDs, and any other board-specific I/O belong here.'']"

definition board_wrapper :: "board_args \<Rightarrow> string" where
  "board_wrapper a = unlines
    [''module '' @ board_top a @ '' #('',
     ''  parameter int unsigned CoreType = platform_pkg::CoreIbex,'',
     ''  parameter bit EnableUartLoader = 1'' @ [SQ] @ ''b0,'',
     ''  // Shared SRAM size in 32-bit words, derived from the single source of truth'',
     ''  // (cfg/boards/'' @ ba_board a @ ''.yaml: memory.ram_bytes / 4) and driven in by the'',
     ''  // FPGA build via the corejack.core RamWords vlogparam. The default matches'',
     ''  // the soc_top default (1 MiB); set memory.ram_bytes in the descriptor to'',
     ''  // change it - do not hardcode the size here.'',
     ''  parameter int unsigned RamWords = 262144'',
     '') ('',
     ''  input  logic       '' @ ba_clock_p a @ '','',
     ''  input  logic       '' @ ba_clock_n a @ '','',
     ''  input  logic       '' @ ba_reset_port a @ '','',
     ''  output logic [3:0] led,'',
     ''  output logic       '' @ ba_uart_tx a @ '','',
     ''  input  logic       '' @ ba_uart_rx a @ '','',
     ''  input  logic       jtag_tck,'',
     ''  input  logic       jtag_tms,'',
     ''  input  logic       jtag_trst_n,'',
     ''  input  logic       jtag_tdi,'',
     ''  output logic       jtag_tdo'',
     '');'',
     ''  import dm::*;'',
     ''  import soc_bus_pkg::*;'',
     [],
     ''  logic clk_in;'',
     ''  logic clk_in_buf;'',
     ''  logic core_clk_raw;'',
     ''  logic core_clk;'',
     ''  logic pll_clkfb;'',
     ''  logic pll_locked;'',
     ''  logic pll_locked_r;'',
     ''  logic rst_ni_raw;'',
     ''  logic dmactive;'',
     ''  logic debug_req;'',
     ''  logic alert_minor;'',
     ''  logic alert_major_internal;'',
     ''  logic alert_major_bus;'',
     ''  logic core_sleep;'',
     ''  soc_apb_req_t apb_req_unused;'',
     ''  soc_apb_resp_t apb_rsp_unused;'',
     [],
     ''  IBUFDS i_sys_clk_ibufds ('',
     ''    .I ('' @ ba_clock_p a @ ''),'',
     ''    .IB('' @ ba_clock_n a @ ''),'',
     ''    .O (clk_in)'',
     ''  );'',
     [],
     ''  BUFG i_sys_clk_bufg ('',
     ''    .I(clk_in),'',
     ''    .O(clk_in_buf)'',
     ''  );'',
     [],
     ''  // TODO: Adjust PLL parameters for the board input clock and target SoC clock.'',
     ''  PLLE2_BASE #('',
     ''    .BANDWIDTH('' @ [DQ] @ ''OPTIMIZED'' @ [DQ] @ ''),'',
     ''    .CLKFBOUT_MULT(5),'',
     ''    .CLKIN1_PERIOD(10.0),'',
     ''    .CLKOUT0_DIVIDE(20),'',
     ''    .DIVCLK_DIVIDE(1),'',
     ''    .STARTUP_WAIT('' @ [DQ] @ ''FALSE'' @ [DQ] @ '')'',
     ''  ) i_pll ('',
     ''    .CLKOUT0(core_clk_raw),'',
     ''    .CLKOUT1(),'',
     ''    .CLKOUT2(),'',
     ''    .CLKOUT3(),'',
     ''    .CLKOUT4(),'',
     ''    .CLKOUT5(),'',
     ''    .CLKFBOUT(pll_clkfb),'',
     ''    .LOCKED(pll_locked),'',
     ''    .CLKIN1(clk_in_buf),'',
     ''    .PWRDWN(1'' @ [SQ] @ ''b0),'',
     ''    .RST(1'' @ [SQ] @ ''b0),'',
     ''    .CLKFBIN(pll_clkfb)'',
     ''  );'',
     [],
     ''  BUFG i_core_clk_bufg ('',
     ''    .I(core_clk_raw),'',
     ''    .O(core_clk)'',
     ''  );'',
     [],
     ''  always_ff @(posedge core_clk or negedge '' @ ba_reset_port a @ '') begin'',
     ''    if (!'' @ ba_reset_port a @ '') begin'',
     ''      pll_locked_r <= 1'' @ [SQ] @ ''b0;'',
     ''      rst_ni_raw   <= 1'' @ [SQ] @ ''b0;'',
     ''    end else begin'',
     ''      pll_locked_r <= pll_locked;'',
     ''      rst_ni_raw   <= pll_locked_r;'',
     ''    end'',
     ''  end'',
     [],
     ''  assign apb_req_unused = '' @ [SQ] @ ''0;'',
     [],
     ''  soc_top #('',
     ''    .apb_req_t       (soc_apb_req_t),'',
     ''    .apb_rsp_t       (soc_apb_resp_t),'',
     ''    .axi_req_t       (soc_axi_req_t),'',
     ''    .axi_rsp_t       (soc_axi_resp_t),'',
     ''    .obi_req_t       (soc_obi_req_t),'',
     ''    .obi_rsp_t       (soc_obi_rsp_t),'',
     ''    .CoreType        (CoreType),'',
     ''    .EnablePlatform  (1'' @ [SQ] @ ''b1),'',
     ''    .EnableUartLoader(EnableUartLoader),'',
     ''    .RamWords        (RamWords),'',
     ''    .MemImpl         (mem_ss_pkg::MemImplXilinx)'',
     ''  ) i_soc_top ('',
     ''    .clk_i                  (core_clk),'',
     ''    .rst_ni                 (rst_ni_raw),'',
     ''    .apb_req_i              (apb_req_unused),'',
     ''    .apb_rsp_o              (apb_rsp_unused),'',
     ''    .uart_rx_i              ('' @ ba_uart_rx a @ ''),'',
     ''    .uart_tx_o              ('' @ ba_uart_tx a @ ''),'',
     ''    .jtag_tck_i             (jtag_tck),'',
     ''    .jtag_tms_i             (jtag_tms),'',
     ''    .jtag_trst_ni           (jtag_trst_n),'',
     ''    .jtag_tdi_i             (jtag_tdi),'',
     ''    .jtag_tdo_o             (jtag_tdo),'',
     ''    .dmactive_o             (dmactive),'',
     ''    .debug_req_o            (debug_req),'',
     ''    .alert_minor_o          (alert_minor),'',
     ''    .alert_major_internal_o (alert_major_internal),'',
     ''    .alert_major_bus_o      (alert_major_bus),'',
     ''    .core_sleep_o           (core_sleep)'',
     ''  );'',
     [],
     ''  assign led = {core_sleep, debug_req, dmactive, rst_ni_raw};'',
     ''endmodule'']"

section \<open>The shared FPGA target\<close>

definition key_at_rx :: "nat \<Rightarrow> rx" where
  "key_at_rx n = rseq [RBol False, rlit (replicate n CHR '' ''), plus1 (\<lambda>c. is_key c \<or> c = CHR ''-''), RChr ((=) CHR '':'')]"

record fpga_state =
  in_fpga :: bool
  in_flow_options :: bool
  changed_part :: bool
  changed_filesets :: bool
  changed_top :: bool

definition fpga_start :: fpga_state where
  "fpga_start = \<lparr>in_fpga = False, in_flow_options = False, changed_part = False, changed_filesets = False, changed_top = False\<rparr>"

definition board_flag :: "board_args \<Rightarrow> string" where
  "board_flag a = ''board_'' @ ba_board a"

definition part_choice :: "board_args \<Rightarrow> string" where
  "part_choice a = '' '' @ board_flag a @ '' ? ('' @ ba_part a @ '')''"

definition top_choice :: "board_args \<Rightarrow> string" where
  "top_choice a = '' '' @ board_flag a @ '' ? ('' @ board_top a @ '')''"

definition fileset_choice :: "board_args \<Rightarrow> string" where
  "fileset_choice a = ''      - '' @ board_flag a @ '' ? ('' @ board_flag a @ ''_rtl)''"

text \<open>The first two statements of the loop body: which section the line is in.\<close>

definition fpga_section :: "string \<Rightarrow> fpga_state \<Rightarrow> fpga_state" where
  "fpga_section line st =
     (let st1 = (if line = ''  fpga:'' then st\<lparr>in_fpga := True\<rparr>
                 else if in_fpga st \<and> re_match (key_at_rx 2) line \<noteq> None then st\<lparr>in_fpga := False, in_flow_options := False\<rparr>
                 else st)
      in if in_fpga st1 \<and> line = ''    flow_options:'' then st1\<lparr>in_flow_options := True\<rparr>
         else if in_fpga st1 \<and> in_flow_options st1 \<and> re_match (key_at_rx 4) line \<noteq> None
         then st1\<lparr>in_flow_options := False\<rparr>
         else st1)"

text \<open>One pass of the loop: the lines it appends and the flags it leaves.\<close>

definition fpga_line :: "board_args \<Rightarrow> string \<Rightarrow> fpga_state \<Rightarrow> string list \<times> fpga_state" where
  "fpga_line a line st =
     (let st1 = fpga_section line st;
          part = (in_fpga st1 \<and> in_flow_options st1 \<and> prefix ''      part: '' line);
          line1 = (if part then line @ part_choice a else line);
          st2 = (if part then st1\<lparr>changed_part := True\<rparr> else st1)
      in if in_fpga st2 \<and> prefix ''    toplevel: '' line1
         then ((if changed_filesets st2 then [] else [fileset_choice a]) @ [line1 @ top_choice a],
               st2\<lparr>changed_filesets := True, changed_top := True\<rparr>)
         else ([line1], st2))"

fun fpga_lines :: "board_args \<Rightarrow> string list \<Rightarrow> fpga_state \<Rightarrow> string list \<times> fpga_state" where
  "fpga_lines a [] st = ([], st)"
| "fpga_lines a (line # lines) st =
     (case fpga_line a line st of
        (out, st') \<Rightarrow> (case fpga_lines a lines st' of (outs, st'') \<Rightarrow> (out @ outs, st'')))"

definition rtl_marker :: string where
  "rtl_marker = [NL] @ ''  rtl:'' @ [NL]"

definition fileset_block :: "string \<Rightarrow> board_args \<Rightarrow> string" where
  "fileset_block version a = [NL] @ ''  '' @ board_flag a @ ''_rtl:'' @ [NL] @ ''    depend:'' @ [NL] @
     ''      - corejack:boards:'' @ ba_board a @ '':'' @ version @ [NL]"

definition replace_in_fpga_target :: "string \<Rightarrow> board_args \<Rightarrow> string \<Rightarrow> string res" where
  "replace_in_fpga_target version a text =
     (let flag = board_flag a; fileset = flag @ ''_rtl''
      in fail_if (contains (''  '' @ fileset @ '':'') text) (fileset @ '' already exists in corejack.core'') (
         fail_if (contains (flag @ '' ? ('') text) (flag @ '' already exists in corejack.core'') (
         fail_if (\<not> contains rtl_marker text) ''could not find rtl fileset marker in corejack.core'' (
         let text = replace_first rtl_marker (fileset_block version a @ rtl_marker) text
         in case fpga_lines a (splitlines text) fpga_start of
              (out, st) \<Rightarrow>
                fail_if (\<not> changed_part st) ''could not update fpga flow_options.part in corejack.core'' (
                fail_if (\<not> changed_filesets st) ''could not update fpga filesets_append in corejack.core'' (
                fail_if (\<not> changed_top st) ''could not update fpga toplevel in corejack.core'' (
                Inr (join [NL] out @ [NL]))))))))"

definition board_update_corejack_core :: "string \<Rightarrow> board_args \<Rightarrow> repo \<Rightarrow> repo \<times> unit res" where
  "board_update_corejack_core version a r = edit_file (CORE_FILE r) (replace_in_fpga_target version a) r"

section \<open>create_board\<close>

definition fpga_boards :: "repo \<Rightarrow> fpath" where
  "fpga_boards r = root r @ [''rtl'', ''platform'', ''fpga'', ''boards'']"

definition board_files :: "repo \<Rightarrow> string \<Rightarrow> board_args \<Rightarrow> (fpath \<times> string) list" where
  "board_files r version a =
    [(descriptor_path (BOARD_DIR r) (ba_board a), board_descriptor a),
     (path_join (path_join (fpga_boards r) (ba_board a)) (ba_board a @ ''.xdc''), board_xdc a),
     (path_join (path_join (fpga_boards r) (ba_board a)) (board_top a @ ''.sv''), board_wrapper a),
     (path_join (root r) (''corejack_board_'' @ ba_board a @ ''.core''), board_core version a)]"

definition board_spec_of :: "repo \<Rightarrow> board_args \<Rightarrow> string res" where
  "board_spec_of r a =
     bindr (platform_version r) (\<lambda>version.
     bindr (require_identifier (ba_board a) ''board'') (\<lambda>_.
     fail_if (ba_reset_polarity a \<noteq> ''active_low'') ''only active_low reset scaffolds are currently supported'' (
     Inr version)))"

definition create_board :: "board_args \<Rightarrow> repo \<Rightarrow> repo \<times> string list res" where
  "create_board a r =
     then_do (look (\<lambda>r. board_spec_of r a) r) (\<lambda>version r.
     then_do (look (refuse_all (board_files r version a)) r) (\<lambda>_ r.
     then_do (board_update_corejack_core version a r) (\<lambda>_ r.
     then_do (write_new_all (board_files r version a) r) (\<lambda>_ r.
     (r, Inr [''Created board scaffold for BOARD='' @ ba_board a,
              ''Run: make board-check BOARD='' @ ba_board a,
              ''Then review the wrapper PLL settings and fill in the XDC pin constraints.''])))))"


section \<open>What a run leaves behind\<close>

lemma board_spec_ok:
  assumes "board_spec_of r a = Inr version"
  shows "ba_board a \<noteq> []" "is_lower (hd (ba_board a))" "list_all ident_char (ba_board a)" "ba_reset_polarity a = ''active_low''"
  using assms by (auto simp: board_spec_of_def res_simps)

lemma board_names_ok:
  assumes "board_spec_of r a = Inr version"
  shows "list_all file_name [''cfg'', ''boards'', ''rtl'', ''platform'', ''fpga'', ''corejack.core'', ba_board a,
    ba_board a @ ''.yaml'', ba_board a @ ''.xdc'', board_top a @ ''.sv'', ''corejack_board_'' @ ba_board a @ ''.core'']"
  using board_spec_ok [OF assms]
  by (auto intro!: file_name_start simp: ident_no_slash board_top_def is_lower_key is_key_def is_alnum_def is_lower_bits)

lemma board_paths:
  assumes "board_spec_of r a = Inr version"
  shows "map fst (board_files r' v a) = [root r' @ [''cfg'', ''boards'', ba_board a @ ''.yaml''],
      root r' @ [''rtl'', ''platform'', ''fpga'', ''boards'', ba_board a, ba_board a @ ''.xdc''],
      root r' @ [''rtl'', ''platform'', ''fpga'', ''boards'', ba_board a, board_top a @ ''.sv''],
      root r' @ [''corejack_board_'' @ ba_board a @ ''.core'']]"
  using board_names_ok [OF assms]
  by (simp add: board_files_def descriptor_path_def BOARD_DIR_def fpga_boards_def path_join_name)

definition board_written :: "repo \<Rightarrow> string \<Rightarrow> board_args \<Rightarrow> fpath list" where
  "board_written r version a = CORE_FILE r # map fst (board_files r version a)"

lemma board_written_apart:
  assumes "board_spec_of r a = Inr version" "plain_path (root r)"
  shows "apart (board_written r version a)"
proof -
  note names = board_names_ok [OF assms(1)]
  have "plain_path p" if "p \<in> set (board_written r version a)" for p
    using that names assms(2) by (auto simp: board_written_def board_paths [OF assms(1)] CORE_FILE_def plain_path_def file_name_def)
  moreover have "ba_board a @ ''.xdc'' \<noteq> board_top a @ ''.sv''" "''corejack.core'' \<noteq> ''corejack_board_'' @ ba_board a @ ''.core''"
    by (auto simp: board_top_def append_eq_append_conv2 dest: arg_cong [of _ _ last])
  ultimately show ?thesis by (auto simp: apart_def list_all_iff board_written_def board_paths [OF assms(1)] CORE_FILE_def)
qed

lemma board_files_write [simp]: "board_files (write_text r p t) v a = board_files r v a"
  by (simp add: board_files_def fpga_boards_def)

definition board_edits :: "repo \<Rightarrow> string \<Rightarrow> board_args \<Rightarrow> string \<Rightarrow> (fpath \<times> string) list" where
  "board_edits r version a core = (CORE_FILE r, core) # board_files r version a"

lemma board_edits_paths [simp]: "map fst (board_edits r version a core) = board_written r version a"
  by (simp add: board_edits_def board_written_def)

lemma board_files_written:
  assumes "board_spec_of r a = Inr version" "plain_path (root r)" "refuse_all (board_files r version a) r = Inr ()"
    and "r1 = write_text r (CORE_FILE r) core"
  shows "\<forall>pc\<in>set (board_files r version a). \<not> path_exists r (fst pc)"
    and "write_new_all (board_files r1 version a) r1 = (checkout.put_all r (board_edits r version a core), Inr ())"
proof -
  have ap: "apart (board_written r version a)" by (rule board_written_apart [OF assms(1,2)])
  show free: "\<forall>pc\<in>set (board_files r version a). \<not> path_exists r (fst pc)"
    using assms(3) by (auto simp: refuse_all_ok refuse_def res_simps split: if_splits)
  have "path_exists (write_text s (CORE_FILE r) t) (fst pc) \<longleftrightarrow> path_exists s (fst pc)"
    if "pc \<in> set (board_files r version a)" for pc s t
    using ap that by (intro path_exists_write) (auto simp: apart_def board_written_def list_all_iff)
  with free assms(4) have "\<forall>pc\<in>set (board_files r1 version a). \<not> path_exists r1 (fst pc)" by simp
  moreover have "apart (map fst (board_files r1 version a))" using ap assms(4) by (simp add: apart_def board_written_def)
  ultimately show "write_new_all (board_files r1 version a) r1 = (checkout.put_all r (board_edits r version a core), Inr ())"
    using write_new_all_put assms(4) by (simp add: board_edits_def)
qed

lemma create_board_run:
  assumes "create_board a r = (r', Inr out)" "plain_path (root r)"
  obtains version core core' where "board_spec_of r a = Inr version"
    "lookup_file r (CORE_FILE r) = Some core" "replace_in_fpga_target version a core = Inr core'"
    "\<forall>pc\<in>set (board_files r version a). \<not> path_exists r (fst pc)"
    "r' = checkout.put_all r (board_edits r version a core')"
proof -
  from assms(1) obtain version r1 where v: "board_spec_of r a = Inr version"
    and free: "refuse_all (board_files r version a) r = Inr ()"
    and w: "board_update_corejack_core version a r = (r1, Inr ())" "write_new_all (board_files r1 version a) r1 = (r', Inr ())"
    unfolding create_board_def then_do_ok look_eq by auto
  from w(1) obtain core core' where c: "lookup_file r (CORE_FILE r) = Some core" "replace_in_fpga_target version a core = Inr core'"
      "r1 = write_text r (CORE_FILE r) core'"
    by (auto simp: board_update_corejack_core_def edit_file_ok)
  from board_files_written [OF v assms(2) free c(3)] w(2) v c(1,2) show thesis by (intro that) auto
qed

lemma create_board_returns:
  assumes "board_spec_of r a = Inr version" "plain_path (root r)" "\<forall>pc\<in>set (board_files r version a). \<not> path_exists r (fst pc)"
    and "lookup_file r (CORE_FILE r) = Some core" "replace_in_fpga_target version a core = Inr core'"
  shows "\<exists>out. create_board a r = (checkout.put_all r (board_edits r version a core'), Inr out)"
proof -
  have free: "refuse_all (board_files r version a) r = Inr ()" using assms(3) by (simp add: refuse_all_ok)
  let ?r1 = "write_text r (CORE_FILE r) core'"
  have "board_update_corejack_core version a r = (?r1, Inr ())"
    using assms(4,5) by (auto simp: board_update_corejack_core_def edit_file_ok)
  then show ?thesis unfolding create_board_def
    using board_files_written(2) [OF assms(1,2) free refl, of core'] by (simp add: look_def assms(1) free)
qed

text \<open>
  (C19) \<^verbatim>\<open>create_board\<close> is atomic on the files of the checkout: a run that fails has changed nothing,
  and a run that returns has created its four files, which did not exist, has edited
  \<^verbatim>\<open>corejack.core\<close> and has left every other file as it was.
\<close>

theorem create_board_atomic:
  assumes "create_board a r = (r', res)" "plain_path (root r)"
  shows "(\<exists>e. res = Inl e \<and> r' = r) \<or>
    (\<exists>out version core. res = Inr out \<and> board_spec_of r a = Inr version \<and>
       (\<forall>(path, content)\<in>set (board_files r version a). lookup_file r path = None \<and>
          lookup_file r' path = Some (universal_newlines content)) \<and>
       bindr (read_text r (CORE_FILE r)) (replace_in_fpga_target version a) = Inr core \<and>
       lookup_file r' (CORE_FILE r) = Some (universal_newlines core) \<and>
       (\<forall>q. plain_path q \<longrightarrow> q \<notin> set (board_written r version a) \<longrightarrow> lookup_file r' q = lookup_file r q))"
proof (cases res)
  case (Inl e)
  have "r' = r"
  proof (rule ccontr)
    assume "r' \<noteq> r"
    with assms(1) Inl obtain version r1 where v: "board_spec_of r a = Inr version"
      and free: "refuse_all (board_files r version a) r = Inr ()"
      and w: "board_update_corejack_core version a r = (r1, Inr ())" "write_new_all (board_files r1 version a) r1 = (r', Inl e)"
      by (auto simp: create_board_def then_do_fails look_eq board_update_corejack_core_def dest: edit_file_fails)
    from w(1) obtain core' where "r1 = write_text r (CORE_FILE r) core'"
      by (auto simp: board_update_corejack_core_def edit_file_ok)
    from board_files_written(2) [OF v assms(2) free this] w(2) show False by simp
  qed
  with Inl show ?thesis by blast
next
  case (Inr out)
  with assms(1) have run: "create_board a r = (r', Inr out)" by simp
  from create_board_run [OF this assms(2)] obtain version core core' where v: "board_spec_of r a = Inr version"
    and c: "lookup_file r (CORE_FILE r) = Some core" "replace_in_fpga_target version a core = Inr core'"
    and free: "\<forall>pc\<in>set (board_files r version a). \<not> path_exists r (fst pc)"
    and r': "r' = checkout.put_all r (board_edits r version a core')" .
  let ?es = "board_edits r version a core'"
  have ap: "apart (board_written r version a)" by (rule board_written_apart [OF v assms(2)])
  then have pl: "list_all plain_path (map fst ?es)" and d: "distinct (map fst ?es)"
    by (simp add: apart_def, simp add: apart_distinct)
  have new: "lookup_file r p = None \<and> lookup_file r' p = Some (universal_newlines t)" if "(p, t) \<in> set (board_files r version a)" for p t
  proof -
    have "p \<in> set (board_written r version a)" using that by (force simp: board_written_def)
    then have "plain_path p" using ap by (simp add: apart_def list_all_iff)
    with free that have "lookup_file r p = None" by (force simp: path_exists_plain)
    then show ?thesis using checkout.get_put_all [OF d pl, of p t r] that r' by (simp add: board_edits_def)
  qed
  have "lookup_file r' (CORE_FILE r) = Some (universal_newlines core')"
    unfolding r' by (rule checkout.get_put_all [OF d pl]) (simp add: board_edits_def)
  moreover have "\<forall>q. plain_path q \<longrightarrow> q \<notin> set (board_written r version a) \<longrightarrow> lookup_file r' q = lookup_file r q"
    unfolding r' using checkout.get_put_all_other [OF _ pl, of _ r] by simp
  ultimately show ?thesis using Inr v c new by (auto simp: read_text_def)
qed


section \<open>The edit of the FPGA target\<close>

text \<open>What a pass may do to a line: nothing, or add the choice of the new board at its end.\<close>

definition extends_line :: "board_args \<Rightarrow> string \<Rightarrow> string \<Rightarrow> bool" where
  "extends_line a l o' = (o' = l \<or> prefix ''      part: '' l \<and> o' = l @ part_choice a \<or>
     prefix ''    toplevel: '' l \<and> o' = l @ top_choice a)"

lemma fpga_section_keeps [simp]: "changed_filesets (fpga_section l st) = changed_filesets st"
  by (simp add: fpga_section_def Let_def)

lemma fpga_line_shape:
  assumes "fpga_line a l st = (out, st')"
  shows "(\<exists>o'. out = [o'] \<and> extends_line a l o' \<and> changed_filesets st' = changed_filesets st) \<or>
    (out = [fileset_choice a, l @ top_choice a] \<and> prefix ''    toplevel: '' l \<and> \<not> changed_filesets st \<and> changed_filesets st')"
proof -
  have "\<not> prefix ''    toplevel: '' (l @ t)" if "prefix ''      part: '' l" for t using that by (auto simp: prefix_def)
  with assms show ?thesis by (auto simp: fpga_line_def Let_def extends_line_def split: if_splits)
qed

lemma fpga_lines_shape:
  "fpga_lines a ls st = (out, st') \<Longrightarrow>
     list_all2 (extends_line a) ls out \<and> changed_filesets st' = changed_filesets st \<or>
     (\<exists>os l os'. out = os @ fileset_choice a # (l @ top_choice a) # os' \<and> prefix ''    toplevel: '' l \<and>
        list_all2 (extends_line a) ls (os @ (l @ top_choice a) # os') \<and> \<not> changed_filesets st \<and> changed_filesets st')"
proof (induction ls arbitrary: st out)
  case (Cons l ls)
  obtain o1 st1 o2 where e: "fpga_line a l st = (o1, st1)" "fpga_lines a ls st1 = (o2, st')" "out = o1 @ o2"
    using Cons.prems by (auto split: prod.splits)
  note IH = Cons.IH [OF e(2)]
  from fpga_line_shape [OF e(1)] show ?case
  proof
    assume "\<exists>o'. o1 = [o'] \<and> extends_line a l o' \<and> changed_filesets st1 = changed_filesets st"
    then obtain o' where o': "o1 = [o']" "extends_line a l o'" "changed_filesets st1 = changed_filesets st" by blast
    from IH show ?thesis
    proof
      assume "\<exists>os k os'. o2 = os @ fileset_choice a # (k @ top_choice a) # os' \<and> prefix ''    toplevel: '' k \<and>
        list_all2 (extends_line a) ls (os @ (k @ top_choice a) # os') \<and> \<not> changed_filesets st1 \<and> changed_filesets st'"
      then obtain os k os' where "o2 = os @ fileset_choice a # (k @ top_choice a) # os'" "prefix ''    toplevel: '' k"
        "list_all2 (extends_line a) ls (os @ (k @ top_choice a) # os')" "\<not> changed_filesets st1" "changed_filesets st'" by blast
      with o' e(3) show ?thesis by (intro disjI2 exI [of _ "o' # os"] exI [of _ k] exI [of _ os']) simp
    qed (use o' e(3) in simp)
  next
    assume o1: "o1 = [fileset_choice a, l @ top_choice a] \<and> prefix ''    toplevel: '' l \<and> \<not> changed_filesets st \<and> changed_filesets st1"
    with IH have "list_all2 (extends_line a) ls o2" "changed_filesets st'" by auto
    moreover have "extends_line a l (l @ top_choice a)" using o1 by (simp add: extends_line_def)
    ultimately show ?thesis using o1 e(3)
      by - (rule disjI2, rule exI [of _ "[]"], rule exI [of _ l], rule exI [of _ o2], simp)
  qed
qed simp

lemma extends_one_line:
  assumes "one_line l" "extends_line a l o'" "one_line (ba_part a)" "list_all ident_char (ba_board a)"
  shows "one_line o'"
  using assms by (auto simp: extends_line_def part_choice_def top_choice_def board_flag_def board_top_def one_line_ident is_linebreak_bits)

text \<open>
  (C22) The edit of the shared FPGA target is conservative. It inserts the fileset of the board
  before the fileset \<^verbatim>\<open>rtl\<close> and one choice line in front of the line \<^verbatim>\<open>toplevel\<close>; every other
  line is kept, in order, or has the choice of the new board added at its end: to a line
  \<^verbatim>\<open>part\<close> or \<^verbatim>\<open>toplevel\<close> only.
\<close>

theorem fpga_edit_conservative:
  assumes "replace_in_fpga_target version a text = Inr text'" "one_line (ba_part a)" "list_all ident_char (ba_board a)"
  shows "\<exists>pre post os l os'. text = pre @ rtl_marker @ post \<and>
    splitlines text' = os @ fileset_choice a # (l @ top_choice a) # os' \<and> prefix ''    toplevel: '' l \<and>
    list_all2 (extends_line a) (splitlines (pre @ fileset_block version a @ rtl_marker @ post)) (os @ (l @ top_choice a) # os')"
proof -
  let ?t = "replace_first rtl_marker (fileset_block version a @ rtl_marker) text"
  from assms(1) obtain out st where ok: "contains rtl_marker text" "fpga_lines a (splitlines ?t) fpga_start = (out, st)"
      "changed_filesets st" "text' = join [NL] out @ [NL]"
    by (auto simp: replace_in_fpga_target_def Let_def res_simps split: prod.splits)
  obtain pre post where t: "text = pre @ rtl_marker @ post" "?t = pre @ (fileset_block version a @ rtl_marker) @ post"
    using replace_first_present [OF ok(1)] by blast
  from fpga_lines_shape [OF ok(2)] ok(3) obtain os l os' where sh: "out = os @ fileset_choice a # (l @ top_choice a) # os'"
    "prefix ''    toplevel: '' l" "list_all2 (extends_line a) (splitlines ?t) (os @ (l @ top_choice a) # os')"
    by (auto simp: fpga_start_def)
  have "one_line o'" if "o' \<in> set (os @ (l @ top_choice a) # os')" for o'
  proof -
    from that sh(3) obtain k where "k \<in> set (splitlines ?t)" "extends_line a k o'"
      by (metis in_set_conv_nth list_all2_conv_all_nth)
    then show ?thesis using extends_one_line splitlines_one_line assms(2,3) by blast
  qed
  then have "list_all one_line out" using sh(1) assms(3)
    by (auto simp: list_all_iff fileset_choice_def board_flag_def one_line_ident is_linebreak_bits)
  moreover have "text' = unlines out" unfolding ok(4) by (rule join_NL_unlines) (simp add: sh(1))
  ultimately have "splitlines text' = out" by (simp add: splitlines_unlines)
  then show ?thesis using t sh by (intro exI [of _ pre] exI [of _ post] exI [of _ os] exI [of _ l] exI [of _ os']) simp
qed


section \<open>The generated descriptor\<close>

definition board_tree :: "board_args \<Rightarrow> ytree" where
  "board_tree a =
    [(''name'', YScalar (ba_board a)), (''display_name'', YScalar (ba_display_name a)),
     (''fpga'', YMap [(''part'', YScalar (ba_part a)), (''top_template'', YScalar ''corejack_{board}_wrap''),
        (''target'', YScalar ''fpga''), (''work_root'', YScalar ''build/fpga/{board}/{core}/fusesoc-fpga'')]),
     (''fusesoc'', YMap [(''board_flag'', YScalar (''board_'' @ ba_board a))]),
     (''clock'', YMap [(''input_hz'', YScalar (py_str (ba_input_hz a))), (''soc_hz'', YScalar (py_str (ba_soc_hz a))),
        (''constraints_ports'', YMap [(''p'', YScalar (ba_clock_p a)), (''n'', YScalar (ba_clock_n a))])]),
     (''reset'', YMap [(''polarity'', YScalar (ba_reset_polarity a)), (''constraints_port'', YScalar (ba_reset_port a))]),
     (''uart'', YMap [(''baud'', YScalar (py_str (ba_uart_baud a))), (''tx_port'', YScalar (ba_uart_tx a)),
        (''rx_port'', YScalar (ba_uart_rx a))]),
     (''debug'', YMap [(''transport'', YScalar ''jtag''), (''jtag_adapter'', YScalar ''tigard'')]),
     (''constraints'', YMap [(''xdc'', YScalar (''rtl/platform/fpga/boards/'' @ ba_board a @ ''/'' @ ba_board a @ ''.xdc''))]),
     (''programming'', YMap [(''flow'', YScalar ''vivado''), (''bitstream_target'', YScalar ''fpga-bit''),
        (''program_target'', YScalar ''fpga-pgm'')]),
     (''validation'', YMap [(''smoke_app'', YScalar ''hello_world'')])]"

lemma board_descriptor_printed:
  "filter nonblank (board_descriptor_lines a) = ydoc 0 (board_tree a @ (''compatible_cores'', YList [''ibex'']) # [])"
  by (simp add: board_descriptor_lines_def board_tree_def blanks_def nonblank_Cons is_space_bits)

text \<open>Free-form arguments that the readers return as given, and clocks that are positive.\<close>

definition board_args_ok :: "board_args \<Rightarrow> bool" where
  "board_args_ok a = (list_all plain_scalar [ba_display_name a, ba_part a, ba_clock_p a, ba_clock_n a, ba_reset_port a,
      ba_uart_tx a, ba_uart_rx a] \<and> 0 < ba_input_hz a \<and> 0 < ba_soc_hz a \<and> 0 < ba_uart_baud a)"

lemma board_tree_wf:
  assumes "board_spec_of r a = Inr version" "board_args_ok a"
  shows "ywf (\<lambda>v. unquote_ends v = v) (board_tree a @ (''compatible_cores'', YList [''ibex'']) # [])"
proof -
  note ok = board_spec_ok [OF assms(1)]
  have keys: "list_all is_key (ba_board a)" using ok by (simp add: ident_keys)
  have lits: "plain_scalar ''corejack_{board}_wrap''" "plain_scalar ''fpga''" "plain_scalar ''jtag''" "plain_scalar ''tigard''"
    "plain_scalar ''build/fpga/{board}/{core}/fusesoc-fpga''" "plain_scalar ''vivado''" "plain_scalar ''fpga-bit''"
    "plain_scalar ''fpga-pgm''" "plain_scalar ''hello_world''" "plain_scalar ''active_low''" "plain_scalar ''ibex''"
    by code_simp+
  have "plain_scalar (''rtl/platform/fpga/boards/'' @ ba_board a @ ''/'' @ ba_board a @ ''.xdc'')"
    using keys by (intro plain_scalar_ends)
      (auto simp: is_key_def is_alnum_def is_lower_bits is_linebreak_bits one_line_keys)
  moreover have "plain_scalar (ba_board a)" "plain_scalar (''board_'' @ ba_board a)" "plain_scalar (py_str (ba_input_hz a))"
    "plain_scalar (py_str (ba_soc_hz a))" "plain_scalar (py_str (ba_uart_baud a))"
    using ok keys assms(2)
    by (auto intro!: plain_scalar_keys plain_scalar_str simp: board_args_ok_def is_key_def is_alnum_def is_lower_bits)
  ultimately show ?thesis using assms(2) lits ok(4)
    by (simp add: board_tree_def board_args_ok_def plain_scalar_def key_text_def is_key_def is_alnum_def is_lower_bits)
qed

lemma board_descriptor_read:
  assumes "board_spec_of r a = Inr version" "board_args_ok a"
  shows "yaml_path_scalar (board_descriptor a) path = ylookup (board_tree a @ (''compatible_cores'', YList [''ibex'']) # []) path"
    and "yaml_top_list (board_descriptor a) ''compatible_cores'' = [''ibex'']"
    and "universal_newlines (board_descriptor a) = board_descriptor a"
proof -
  note wf = board_tree_wf [OF assms]
  have "one_line l" if "l \<in> set (filter nonblank (board_descriptor_lines a))" for l
    using that ydoc_lines [OF wf] by (simp only: board_descriptor_printed)
  moreover have "one_line l" if "l \<in> set (board_descriptor_lines a)" "\<not> nonblank l" for l
    using that by (auto simp: board_descriptor_lines_def nonblank_Cons is_space_bits)
  ultimately have ol: "list_all one_line (board_descriptor_lines a)" by (auto simp: list_all_iff)
  show "yaml_path_scalar (board_descriptor a) path = ylookup (board_tree a @ (''compatible_cores'', YList [''ibex'']) # []) path"
    unfolding board_descriptor_def by (rule validate_reader.read_printed [OF wf ol board_descriptor_printed])
  have "quote_free ''ibex''" "''compatible_cores'' \<notin> set (ykeys (board_tree a))" by code_simp (simp add: board_tree_def)
  then show "yaml_top_list (board_descriptor a) ''compatible_cores'' = [''ibex'']"
    using top_list_printed [OF wf _ _ _ board_descriptor_printed] ol
    by (simp add: yaml_top_list_def board_descriptor_def splitlines_unlines)
  show "universal_newlines (board_descriptor a) = board_descriptor a"
    using unlines_no_cr [OF ol] by (simp add: board_descriptor_def universal_newlines_id)
qed

text \<open>
  (C21) The generated board descriptor is complete: whatever the checkout, \<^verbatim>\<open>board_check\<close> finds
  every field it requires in it, with the values of the arguments, and its own rules hold.
\<close>

theorem board_descriptor_accepted:
  assumes "board_spec_of r a = Inr version" "board_args_ok a"
  shows "\<exists>bi. board_fields r' (ba_board a) (board_descriptor a) = Inr bi \<and> board_rules bi = Inr () \<and>
    bi_display_name bi = ba_display_name a \<and> bi_part bi = ba_part a \<and> bi_board_flag bi = board_flag a \<and>
    bi_input_hz bi = ba_input_hz a \<and> bi_soc_hz bi = ba_soc_hz a \<and> bi_clk_p bi = ba_clock_p a \<and>
    bi_clk_n bi = ba_clock_n a \<and> bi_reset_port bi = ba_reset_port a \<and> bi_uart_baud bi = ba_uart_baud a \<and>
    bi_uart_tx bi = ba_uart_tx a \<and> bi_uart_rx bi = ba_uart_rx a \<and> bi_cores bi = [''ibex'']"
proof -
  note read = board_descriptor_read [OF assms] and ok = board_spec_ok [OF assms(1)]
  have pos: "0 < ba_input_hz a" "0 < ba_soc_hz a" "0 < ba_uart_baud a" "ba_clock_n a \<noteq> []"
    using assms(2) by (auto simp: board_args_ok_def plain_scalar_def plain_text_def)
  have "list_all is_key ''board_''" by code_simp
  then have flag: "re_fullmatch flag_rx (''board_'' @ ba_board a)" using ok by (simp add: flag_rx_def re_fullmatch_plus ident_keys)
  have "contains ''{board}'' ''build/fpga/{board}/{core}/fusesoc-fpga''" "contains ''{core}'' ''build/fpga/{board}/{core}/fusesoc-fpga''"
    by code_simp+
  then show ?thesis using flag pos ok(4)
    by (simp add: board_fields_def require_scalar_def require_int_def fusesoc_board_flag_def ram_bytes_check_def read(1,2)
      ylookup_def board_tree_def parse_positive_int_def py_int0_str board_rules_def board_flag_def)
qed

text \<open>
  (C25) The scaffold of a board does not pass the check that the script tells its user to run. It
  lists \<^verbatim>\<open>ibex\<close> as a compatible core but never adds the board to the descriptor of that core, and
  \<^verbatim>\<open>board_check\<close> rejects a board that a listed core does not list.
\<close>

theorem create_board_check_fails:
  assumes "create_board a r = (r', Inr out)" "plain_path (root r)" "board_args_ok a"
    and "lookup_file r (descriptor_path (CORE_DIR r) ''ibex'') = Some core_text"
    and "yaml_top_list core_text ''compatible_boards'' \<noteq> []" "ba_board a \<notin> set (yaml_top_list core_text ''compatible_boards'')"
  shows "snd (board_check r' (ba_board a) verbose) \<noteq> Inr ()"
proof
  assume pass: "snd (board_check r' (ba_board a) verbose) = Inr ()"
  from create_board_run [OF assms(1,2)] obtain version core core' where v: "board_spec_of r a = Inr version"
    and r': "r' = checkout.put_all r (board_edits r version a core')" .
  let ?es = "board_edits r version a core'" and ?B = "descriptor_path (BOARD_DIR r) (ba_board a)"
  let ?I = "descriptor_path (CORE_DIR r) ''ibex''"
  note read = board_descriptor_read [OF v assms(3)]
  have ap: "apart (board_written r version a)" by (rule board_written_apart [OF v assms(2)])
  then have pl: "list_all plain_path (map fst ?es)" and d: "distinct (map fst ?es)"
    by (simp add: apart_def, simp add: apart_distinct)
  have dirs: "BOARD_DIR r' = BOARD_DIR r" "CORE_DIR r' = CORE_DIR r" by (simp_all add: r' BOARD_DIR_def CORE_DIR_def)
  have B: "lookup_file r' ?B = Some (board_descriptor a)"
    using checkout.get_put_all [OF d pl, of ?B "board_descriptor a" r] read(3) r' by (simp add: board_edits_def board_files_def)
  have I: "?I = root r @ [''cfg'', ''cores'', ''ibex.yaml'']"
    by (simp add: descriptor_path_def CORE_DIR_def path_join_name file_name_def)
  have "lookup_file r' ?I = lookup_file r ?I"
    unfolding r' by (rule checkout.get_put_all_other [OF _ pl])
      (use assms(2) in \<open>auto simp: I plain_path_def board_written_def board_paths [OF v] CORE_FILE_def\<close>)
  moreover from pass obtain x where "board_checked r' (ba_board a) = Inr x"
    by (cases "board_checked r' (ba_board a)") (auto simp: board_check_def)
  ultimately show False
    using board_checked_cores [of r' "ba_board a" x "board_descriptor a" "''ibex''" core_text] B read(2) assms(4-6) dirs by simp
qed

end
