(* ===== verification/Scaffold_Sample.thy ===== *)
theory Scaffold_Sample
  imports Core_Accepted Create_Board
begin

text \<open>
  A small checkout on which the two scaffold scripts run to their end, and the witnesses of their
  properties.
\<close>

definition demo_core_lines :: "string list" where
  "demo_core_lines = [''name: corejack:corejack:platform:0.2.0'', ''filesets:'', ''  core_region_rtl:'', [], ''  rtl:'',
     ''targets:'', ''  sw-sim:'', ''        - core_cvw ? (-DCOREJACK_CORE_CVW)'', ''      - core_cvw ? (core_cvw_rtl)'',
     ''      - core_region ? (core_region_rtl)'', ''  fpga:'', ''    flow_options:'', ''      part: board_axku5 ? (xcku5p)'',
     ''    filesets_append:'', ''      - core_cvw ? (core_cvw_rtl)'', ''      - core_region ? (core_region_rtl)'',
     ''      - board_axku5 ? (board_axku5_rtl)'', ''    toplevel: board_axku5 ? (corejack_axku5_wrap)'']"

definition demo_members :: "member list" where
  "demo_members = [([NL] @ ''  '', ''CoreIbex'', 0)]"

definition demo_pkg :: string where
  "demo_pkg = enum_text (''package platform_pkg;'' @ [NL]) demo_members [NL] [NL]"

definition demo_board :: string where
  "demo_board = unlines [''name: axku5'', ''compatible_cores:'', ''  - ibex'']"

definition demo_ibex :: string where
  "demo_ibex = unlines [''name: ibex'', ''platform:'', ''  core_type: 0'', ''compatible_boards:'', ''  - axku5'']"

definition demo :: repo where
  "demo = \<lparr>root = [''repo''], files =
     [([''repo'', ''corejack.core''], unlines demo_core_lines),
      ([''repo'', ''rtl'', ''pkg'', ''platform_pkg.sv''], demo_pkg),
      ([''repo'', ''cfg'', ''boards'', ''axku5.yaml''], demo_board),
      ([''repo'', ''cfg'', ''cores'', ''ibex.yaml''], demo_ibex)]\<rparr>"

definition demo_args :: core_args where
  "demo_args = \<lparr>ca_core = ''demo'', ca_display_name = None, ca_board = ''axku5'', ca_xlen = 32, ca_march = ''rv32imc'',
     ca_mabi = ''ilp32'', ca_instruction_bus = ''obi'', ca_data_bus = ''obi'', ca_platform_integration = ''socket_region'',
     ca_integration_suffix = ''socket'', ca_core_type = None\<rparr>"

definition demo_spec :: core_spec where
  "demo_spec = \<lparr>sp_core = ''demo'', sp_display_name = ''DEMO'', sp_board = ''axku5'', sp_xlen = 32, sp_march = ''rv32imc'',
     sp_mabi = ''ilp32'', sp_instruction_bus = ''obi'', sp_data_bus = ''obi'', sp_platform_integration = ''socket_region'',
     sp_integration_suffix = ''socket'', sp_core_type = 1, sp_version = ''0.2.0''\<rparr>"

lemma demo_version: "platform_version demo = Inr ''0.2.0''"
  by code_simp

lemma demo_next: "next_core_type demo = Inr 1"
  by code_simp

lemma demo_spec: "core_spec_of demo demo_args = Inr demo_spec"
  by code_simp

lemma demo_pkg_edit: "\<not> isl (edit_platform_pkg demo_spec demo_pkg)"
  by code_simp

lemma demo_core_edit: "\<not> isl (edit_corejack_core demo_spec (unlines demo_core_lines))"
  by code_simp

lemma demo_board_edit: "append_yaml_top_list_item demo_board ''compatible_cores'' ''demo'' =
    Inr (unlines [''name: axku5'', ''compatible_cores:'', ''  - ibex'', ''  - demo''])"
  by code_simp

definition demo_board_args :: board_args where
  "demo_board_args = \<lparr>ba_board = ''myboard'', ba_part = ''xc7a35t'', ba_display_name = ''My Board'',
     ba_input_hz = 100, ba_soc_hz = 25, ba_clock_p = ''sys_clk_p'', ba_clock_n = ''sys_clk_n'',
     ba_reset_port = ''sys_rst_n'', ba_reset_polarity = ''active_low'', ba_uart_baud = 96,
     ba_uart_tx = ''uart_tx'', ba_uart_rx = ''uart_rx''\<rparr>"

lemma demo_target_edit: "\<not> isl (replace_in_fpga_target ''0.2.0'' demo_board_args (unlines demo_core_lines))"
  by code_simp

lemma demo_board_spec: "board_spec_of demo demo_board_args = Inr ''0.2.0''"
  by code_simp


section \<open>The runs\<close>

lemma demo_files: "plain_path (root demo)" "wf_repo demo"
  "lookup_file demo (PLATFORM_PKG demo) = Some demo_pkg"
  "lookup_file demo (CORE_FILE demo) = Some (unlines demo_core_lines)"
  "lookup_file demo (descriptor_path (BOARD_DIR demo) ''axku5'') = Some demo_board"
  "lookup_file demo (descriptor_path (CORE_DIR demo) ''ibex'') = Some demo_ibex"
  by code_simp+

lemma demo_free: "list_all (\<lambda>pc. \<not> path_exists demo (fst pc)) (core_files demo demo_spec)"
  "list_all (\<lambda>pc. \<not> path_exists demo (fst pc)) (board_files demo ''0.2.0'' demo_board_args)"
  by code_simp+

lemma not_isl_Inr: "\<not> isl x \<Longrightarrow> \<exists>y. x = Inr y"
  by (cases x) auto

lemma demo_core_run: "\<exists>r' out. create_core demo_args demo = (r', Inr out)"
proof -
  obtain pkg' where pkg: "edit_platform_pkg demo_spec demo_pkg = Inr pkg'" using not_isl_Inr [OF demo_pkg_edit] ..
  obtain core' where core: "edit_corejack_core demo_spec (unlines demo_core_lines) = Inr core'" using not_isl_Inr [OF demo_core_edit] ..
  have names: "sp_board demo_spec = ''axku5''" "sp_core demo_spec = ''demo''" by (simp_all add: demo_spec_def)
  from create_core_returns [OF demo_spec demo_files(1) _ demo_files(3) pkg demo_files(4) core, unfolded names,
      OF _ demo_files(5) demo_board_edit] demo_free(1)
  show ?thesis by (auto simp: list_all_iff)
qed

lemma demo_board_run: "\<exists>r' out. create_board demo_board_args demo = (r', Inr out)"
proof -
  obtain core' where core: "replace_in_fpga_target ''0.2.0'' demo_board_args (unlines demo_core_lines) = Inr core'"
    using not_isl_Inr [OF demo_target_edit] ..
  from create_board_returns [OF demo_board_spec demo_files(1) _ demo_files(4) core] demo_free(2)
  show ?thesis by (auto simp: list_all_iff)
qed

lemma demo_enum: "demo_pkg = enum_text (''package platform_pkg;'' @ [NL]) demo_members [NL] [NL]"
  "enum_ok (''package platform_pkg;'' @ [NL]) demo_members [NL]" "CHR 0x0D \<notin> set demo_pkg"
  by (simp add: demo_pkg_def) code_simp+


section \<open>Witnesses\<close>

theorem create_core_creates_witness:
  "\<exists>r' out. create_core demo_args demo = (r', Inr out) \<and>
    lookup_file r' (descriptor_path (CORE_DIR demo) ''demo'') = Some (universal_newlines (core_descriptor demo_spec))"
proof -
  obtain r' out where run: "create_core demo_args demo = (r', Inr out)" using demo_core_run by blast
  from create_core_creates [OF run demo_files(1)] obtain a where a: "core_spec_of demo demo_args = Inr a"
    "\<forall>(path, content)\<in>set (core_files demo a). lookup_file r' path = Some (universal_newlines content)" by blast
  have "(descriptor_path (CORE_DIR demo) ''demo'', core_descriptor demo_spec) \<in> set (core_files demo demo_spec)"
    by (simp add: core_files_def demo_spec_def)
  with a run show ?thesis by (auto simp: demo_spec)
qed

theorem create_core_failure_witness:
  "\<exists>e. create_core (demo_args\<lparr>ca_xlen := 16\<rparr>) demo = (demo, Inl e) \<and>
    lookup_file (fst (create_core (demo_args\<lparr>ca_xlen := 16\<rparr>) demo)) (CORE_FILE demo) = Some (unlines demo_core_lines)"
proof -
  have "core_spec_of demo (demo_args\<lparr>ca_xlen := 16\<rparr>) = Inl (Exit ''--xlen must be 32 or 64'')" by code_simp
  then obtain e where run: "create_core (demo_args\<lparr>ca_xlen := 16\<rparr>) demo = (demo, Inl e)"
    by (simp add: create_core_def look_def)
  from create_core_failure [OF run demo_files(1)] run show ?thesis by (simp add: demo_files)
qed

theorem update_platform_pkg_refines_witness:
  "\<exists>r' vals vals'. update_platform_pkg demo_spec demo = (r', Inr ()) \<and>
    platform_core_type_values demo = Inr vals \<and> platform_core_type_values r' = Inr vals' \<and>
    map_of vals' = (map_of vals)(''CoreDemo'' \<mapsto> 1)"
proof -
  obtain pkg' where "edit_platform_pkg demo_spec demo_pkg = Inr pkg'" using not_isl_Inr [OF demo_pkg_edit] ..
  then have run: "update_platform_pkg demo_spec demo = (write_text demo (PLATFORM_PKG demo) pkg', Inr ())"
    using demo_files(3) by (auto simp: update_platform_pkg_def edit_file_ok)
  have spec: "0 \<le> sp_core_type demo_spec" "core_enum_name (sp_core demo_spec) = ''CoreDemo''" "sp_core_type demo_spec = 1" by code_simp+
  from update_platform_pkg_refines [OF run demo_spec spec(1) _ demo_enum(2) _ demo_files(1), of "[NL]"] run
  show ?thesis unfolding demo_enum(1) [symmetric] spec(2,3) using demo_files(3) demo_enum(3) by blast
qed

theorem next_core_type_fresh_witness:
  "next_core_type demo = Inr 1 \<and> (\<exists>vals. platform_core_type_values demo = Inr vals \<and> map_of vals ''CoreDemo'' \<noteq> Some 1)"
  using next_core_type_fresh [OF demo_next] demo_next by fastforce

theorem create_core_passes_check_witness:
  "\<exists>r' out. create_core demo_args demo = (r', Inr out) \<and> snd (core_check r' ''demo'' True) = Inr ()"
proof -
  obtain r' out where run: "create_core demo_args demo = (r', Inr out)" using demo_core_run by blast
  have sp: "plain_scalar (sp_display_name demo_spec)" "plain_scalar (sp_march demo_spec)" "plain_scalar (sp_mabi demo_spec)"
    "0 \<le> sp_core_type demo_spec" "sp_core_type demo_spec = 1" "sp_board demo_spec = ''axku5''" "sp_core demo_spec = ''demo''"
    "core_type_usage demo = Inr [(0, [''ibex''])]" "block_only ''compatible_cores'' (splitlines demo_board)"
    "\<not> yaml_top_list_contains demo_board ''compatible_cores'' ''demo''" by code_simp+
  have "snd (core_check r' (sp_core demo_spec) True) = Inr ()"
    by (rule create_core_passes_check [where board = demo_board, OF run demo_files(2) demo_spec sp(1-4) demo_files(3) [unfolded demo_enum(1)] demo_enum(2) sp(8)])
      (simp_all add: sp(5-7,9,10) demo_files(5))
  with run sp(7) show ?thesis by auto
qed

theorem create_board_atomic_witness:
  "\<exists>r' out. create_board demo_board_args demo = (r', Inr out) \<and>
    lookup_file r' (descriptor_path (BOARD_DIR demo) ''myboard'') = Some (universal_newlines (board_descriptor demo_board_args))"
proof -
  obtain r' out where run: "create_board demo_board_args demo = (r', Inr out)" using demo_board_run by blast
  from create_board_atomic [OF run demo_files(1)] obtain v where v: "board_spec_of demo demo_board_args = Inr v"
    "\<forall>(path, content)\<in>set (board_files demo v demo_board_args). lookup_file r' path = Some (universal_newlines content)" by blast
  have "(descriptor_path (BOARD_DIR demo) ''myboard'', board_descriptor demo_board_args) \<in> set (board_files demo ''0.2.0'' demo_board_args)"
    by (simp add: board_files_def demo_board_args_def)
  with v run show ?thesis by (auto simp: demo_board_spec)
qed

theorem fpga_edit_conservative_witness:
  "\<exists>text' os l os'. replace_in_fpga_target ''0.2.0'' demo_board_args (unlines demo_core_lines) = Inr text' \<and>
    splitlines text' = os @ ''      - board_myboard ? (board_myboard_rtl)'' # (l @ '' board_myboard ? (corejack_myboard_wrap)'') # os'"
proof -
  obtain t where t: "replace_in_fpga_target ''0.2.0'' demo_board_args (unlines demo_core_lines) = Inr t"
    using not_isl_Inr [OF demo_target_edit] ..
  have "one_line (ba_part demo_board_args)" "list_all ident_char (ba_board demo_board_args)"
    "fileset_choice demo_board_args = ''      - board_myboard ? (board_myboard_rtl)''"
    "top_choice demo_board_args = '' board_myboard ? (corejack_myboard_wrap)''" by code_simp+
  with fpga_edit_conservative [OF t] t show ?thesis by metis
qed

theorem board_descriptor_accepted_witness:
  "\<exists>bi. board_fields demo ''myboard'' (board_descriptor demo_board_args) = Inr bi \<and> bi_cores bi = [''ibex'']"
proof -
  have ok: "board_args_ok demo_board_args" "ba_board demo_board_args = ''myboard''" by code_simp+
  from board_descriptor_accepted [OF demo_board_spec ok(1), of demo] ok(2) show ?thesis by auto
qed

theorem create_board_check_fails_witness:
  "\<exists>r' out. create_board demo_board_args demo = (r', Inr out) \<and> snd (board_check r' ''myboard'' True) \<noteq> Inr ()"
proof -
  obtain r' out where run: "create_board demo_board_args demo = (r', Inr out)" using demo_board_run by blast
  have ok: "board_args_ok demo_board_args" "ba_board demo_board_args = ''myboard''"
    "yaml_top_list demo_ibex ''compatible_boards'' \<noteq> []" "ba_board demo_board_args \<notin> set (yaml_top_list demo_ibex ''compatible_boards'')"
    by code_simp+
  have "snd (board_check r' (ba_board demo_board_args) True) \<noteq> Inr ()"
    by (rule create_board_check_fails [OF run demo_files(1) ok(1) demo_files(6) ok(3,4)])
  with run ok(2) show ?thesis by auto
qed

end
