(* ===== verification/Support_Matrix.thy ===== *)
theory Support_Matrix
  imports Scaffold
begin

text \<open>
  \<^verbatim>\<open>bin/render_support_matrix.py\<close>: the support matrix of the documentation, rendered from the core
  and board descriptors, and its \<^verbatim>\<open>--check\<close> mode. The matrix is related to the checks of
  \<^verbatim>\<open>validate_target.py\<close>, which read the same descriptors.
\<close>

section \<open>Records\<close>

definition display_path :: "repo \<Rightarrow> fpath \<Rightarrow> string" where
  "display_path r path = (case relative_to_root r path of Inl _ \<Rightarrow> path_str path | Inr rel \<Rightarrow> rel)"

definition render_require_scalar :: "repo \<Rightarrow> string \<Rightarrow> string list \<Rightarrow> fpath \<Rightarrow> string res" where
  "render_require_scalar r text path descriptor =
     (case render_yaml_path_scalar text path of
        None \<Rightarrow> bindr (relative_to_root r descriptor) (\<lambda>rel. Inl (Exit (''missing '' @ join ''.'' path @ '' in '' @ rel)))
      | Some v \<Rightarrow> Inr v)"

record core_entry =
  cr_name :: string
  cr_display :: string
  cr_xlen :: string
  cr_march :: string
  cr_mabi :: string
  cr_sim :: string
  cr_fpga :: string
  cr_debug :: string
  cr_zephyr :: string
  cr_debug_supported :: string
  cr_compatible_boards :: "string list"

definition core_record :: "repo \<Rightarrow> string \<Rightarrow> core_entry res" where
  "core_record r core =
     (let path = descriptor_path (CORE_DIR r) core
      in bindr (read_text r path) (\<lambda>text.
         let get = (\<lambda>p. render_require_scalar r text p path) in
         bindr (get [''display_name'']) (\<lambda>display.
         bindr (get [''isa'', ''xlen'']) (\<lambda>xlen.
         bindr (get [''isa'', ''march'']) (\<lambda>march.
         bindr (get [''isa'', ''mabi'']) (\<lambda>mabi.
         bindr (get [''integration'', ''sim'']) (\<lambda>sim.
         bindr (get [''integration'', ''fpga'']) (\<lambda>fpga.
         bindr (get [''integration'', ''debug'']) (\<lambda>debug.
         let zephyr = opt_or (render_yaml_path_scalar text [''software'', ''zephyr'', ''status'']) ''planned'' in
         bindr (get [''debug'', ''supported'']) (\<lambda>debug_supported.
         Inr \<lparr>cr_name = core, cr_display = display, cr_xlen = xlen, cr_march = march, cr_mabi = mabi,
              cr_sim = sim, cr_fpga = fpga, cr_debug = debug, cr_zephyr = zephyr,
              cr_debug_supported = debug_supported,
              cr_compatible_boards = render_yaml_top_list text ''compatible_boards''\<rparr>))))))))))"

record board_entry =
  br_name :: string
  br_display :: string
  br_part :: string
  br_soc_hz :: string
  br_uart_baud :: string
  br_compatible_cores :: "string list"

definition board_record :: "repo \<Rightarrow> string \<Rightarrow> board_entry res" where
  "board_record r board =
     (let path = descriptor_path (BOARD_DIR r) board
      in bindr (read_text r path) (\<lambda>text.
         let get = (\<lambda>p. render_require_scalar r text p path) in
         bindr (get [''display_name'']) (\<lambda>display.
         bindr (get [''fpga'', ''part'']) (\<lambda>part.
         bindr (get [''clock'', ''soc_hz'']) (\<lambda>soc_hz.
         bindr (get [''uart'', ''baud'']) (\<lambda>uart_baud.
         Inr \<lparr>br_name = board, br_display = display, br_part = part, br_soc_hz = soc_hz,
              br_uart_baud = uart_baud, br_compatible_cores = render_yaml_top_list text ''compatible_cores''\<rparr>))))))"

section \<open>Rendering\<close>

definition load_run_path :: "core_entry \<Rightarrow> string" where
  "load_run_path core =
     (if cr_debug core = ''supported'' then ''OpenOCD/GDB''
      else if cr_fpga core = ''supported'' then ''UART loader'' else ''none'')"

definition default_fpga_acceptance :: "core_entry \<Rightarrow> string" where
  "default_fpga_acceptance core = (if cr_fpga core = ''supported'' then ''yes'' else ''no'')"

definition heading :: "string \<Rightarrow> char \<Rightarrow> string list" where
  "heading text c = [text, replicate (length text) c]"

text \<open>An empty row has no first cell.\<close>

fun table_row :: "string list \<Rightarrow> string list res" where
  "table_row [] = Inl (Raise IndexError)"
| "table_row (cell # cells) = Inr ((''   * - '' @ cell) # map (\<lambda>c. ''     - '' @ c) cells)"

definition table :: "string list \<Rightarrow> string list list \<Rightarrow> string res" where
  "table headers rows =
     bindr (mapr table_row (headers # rows)) (\<lambda>out.
     Inr (join [NL] ([''.. list-table::'', ''   :header-rows: 1'', []] @ concat out)))"

definition literal :: "string \<Rightarrow> string" where
  "literal s = ''``'' @ s @ ''``''"

text \<open>One row of the table of a board; \<^verbatim>\<open>cores[name]\<close> raises for a name without a descriptor.\<close>

definition board_row :: "(string \<times> core_entry) list \<Rightarrow> string \<Rightarrow> string list res" where
  "board_row cores core_name =
     (case map_of cores core_name of
        None \<Rightarrow> Inl (Raise (KeyError core_name))
      | Some core \<Rightarrow> Inr [literal core_name, cr_display core, cr_sim core, cr_fpga core, load_run_path core,
          cr_debug core, default_fpga_acceptance core])"

definition render_board_matrix :: "board_entry \<Rightarrow> (string \<times> core_entry) list \<Rightarrow> string res" where
  "render_board_matrix board cores =
     bindr (mapr (board_row cores) (br_compatible_cores board)) (\<lambda>rows.
     bindr (table [''Core'', ''Display name'', ''Sim ``hello_world``'', ''FPGA ``hello_world``'', ''Load/run path'',
         ''OpenOCD/GDB step'', ''Default FPGA acceptance''] rows) (\<lambda>t.
     Inr (join [NL] (heading (br_display board @ '' ('' @ literal (br_name board) @ '')'') CHR ''-'' @
       [[],
        ''- FPGA part: '' @ literal (br_part board),
        ''- SoC clock: '' @ literal (br_soc_hz board) @ '' Hz'',
        ''- UART baud: '' @ literal (br_uart_baud board),
        [],
        t]))))"

definition core_row :: "string \<times> core_entry \<Rightarrow> string list" where
  "core_row nc = (case nc of (name, core) \<Rightarrow>
     [literal name, cr_display core, literal (''rv'' @ cr_xlen core), literal (cr_march core), literal (cr_mabi core),
      cr_zephyr core, comma_list (map literal (cr_compatible_boards core))])"

definition render_core_matrix :: "(string \<times> core_entry) list \<Rightarrow> string res" where
  "render_core_matrix cores =
     table [''Core'', ''Display name'', ''XLEN'', ''MARCH'', ''MABI'', ''Zephyr console/timer smoke'', ''Compatible boards'']
       (map core_row cores)"

text \<open>A dictionary comprehension over sorted names: a repeated name has one entry.\<close>

definition by_name :: "(string \<Rightarrow> 'a res) \<Rightarrow> string list \<Rightarrow> (string \<times> 'a) list res" where
  "by_name f names = mapr (\<lambda>n. bindr (f n) (\<lambda>x. Inr (n, x))) (remdups names)"

definition preamble :: "string list" where
  "preamble =
     [''.. Generated by bin/render_support_matrix.py - do not edit by hand.'', []] @
     heading ''CoreJack Support Matrix'' CHR ''='' @
     [[],
      ''This page is generated from ``cfg/cores/*.yaml`` and ``cfg/boards/*.yaml``.'',
      ''Regenerate it with:'',
      [],
      ''.. code-block:: bash'',
      [],
      ''   make support-matrix'',
      [],
      ''Support status values come from core descriptors. ``supported`` means the'',
      ''corresponding acceptance criteria have been validated for that flow.'',
      ''``planned`` means integration work is expected but not yet accepted.'',
      ''``unsupported`` means the flow is intentionally not claimed.'',
      []]"

definition render :: "repo \<Rightarrow> string res" where
  "render r =
     bindr (by_name (core_record r) (descriptor_names r (CORE_DIR r))) (\<lambda>cores.
     bindr (by_name (board_record r) (descriptor_names r (BOARD_DIR r))) (\<lambda>boards.
     bindr (mapr (\<lambda>(_, board). bindr (render_board_matrix board cores) (\<lambda>t. Inr [t, []])) boards) (\<lambda>parts.
     bindr (render_core_matrix cores) (\<lambda>core_table.
     Inr (join [NL] (preamble @ concat parts @ heading ''Core ISA Summary'' CHR ''-'' @ [[], core_table, []]))))))"

definition OUT_PATH :: "repo \<Rightarrow> fpath" where
  "OUT_PATH r = root r @ [''docs'', ''source'', ''support_matrix.rst'']"

text \<open>\<^verbatim>\<open>main\<close>, with the output path given as an absolute one; the printed lines are returned.\<close>

definition render_main :: "bool \<Rightarrow> fpath \<Rightarrow> repo \<Rightarrow> repo \<times> string list res" where
  "render_main check out r =
     then_do (look render r) (\<lambda>rendered r.
     if check
     then look (\<lambda>r. bindr (if is_file r out then read_text r out else Inr []) (\<lambda>existing.
            fail_if (existing \<noteq> rendered) (display_path r out @ '' is stale; run make support-matrix'') (Inr []))) r
     else (write_text r out rendered, Inr [''Wrote '' @ display_path r out]))"

section \<open>Values are single lines\<close>

lemma one_line_sub: "set t \<subseteq> set s \<Longrightarrow> one_line s \<Longrightarrow> one_line t"
  by (auto simp: one_line_def list_all_iff)

lemma one_line_strip_by: "one_line s \<Longrightarrow> one_line (strip_by P s)"
  using set_strip_by by (rule one_line_sub)

lemmas one_line_parts = one_line_strip_by one_line_dropWhile one_line_tl

lemma scan_one_line:
  "list_all one_line ls \<Longrightarrow> scan_scalar id path cur ls = Some v \<Longrightarrow> one_line v"
proof (induction ls arbitrary: cur)
  case (Cons l ls)
  then show ?case
    by (auto simp: Let_def key_line_match group_def one_line_parts split: if_splits option.splits)
qed simp

lemma render_scalar_one_line: "render_yaml_path_scalar text path = Some v \<Longrightarrow> one_line v"
proof -
  assume "render_yaml_path_scalar text path = Some v"
  then obtain raw where raw: "scan_scalar id path [] (splitlines text) = Some raw" "v = unquote_all raw"
    by (auto simp: render_yaml_path_scalar_def scan_unquote [of unquote_all])
  have "one_line raw" by (rule scan_one_line [OF _ raw(1)]) (simp add: list_all_iff splitlines_one_line)
  then show ?thesis using raw(2) by (simp add: unquote_all_def one_line_strip_by)
qed

lemma split_by_sub: "t \<in> set (split_by P s) \<Longrightarrow> set t \<subseteq> set s"
  by (induction s arbitrary: t) (fastforce split: if_splits list.splits)+

lemma inline_one_line: "one_line s \<Longrightarrow> list_all one_line (inline_items s)"
proof -
  assume s: "one_line s"
  have "one_line (butlast (tl s))"
    using s by (rule one_line_sub [rotated]) (auto dest: in_set_butlastD list.set_sel(2) intro: list.set_sel(2))
  then have "one_line t" if "t \<in> set (split_by P (strip (butlast (tl s))))" for t P
    using one_line_sub [OF split_by_sub [OF that]] by (simp add: one_line_strip_by)
  then show ?thesis using s by (auto simp: inline_items_def Let_def list_all_iff split_on_def one_line_strip_by)
qed

lemma top_list_one_line:
  "key \<noteq> [] \<Longrightarrow> \<not> is_space (hd key) \<Longrightarrow> list_all one_line ls \<Longrightarrow> list_all one_line vals \<Longrightarrow>
     list_all one_line (top_list_scan key base vals ls)"
proof (induction ls arbitrary: base vals)
  case (Cons line lines)
  let ?r = "dropWhile is_space line"
  have l: "one_line line" using Cons.prems by simp
  then have "one_line ?r" "one_line (drop n ?r)" for n
    by (auto intro: one_line_dropWhile one_line_sub [OF set_drop_subset])
  then have i: "list_all one_line (inline_items (strip (drop n ?r)))"
    "list_all one_line (inline_items (strip (dropWhile is_space (drop n ?r))))" for n
    by (simp_all add: inline_one_line one_line_parts)
  have it: "one_line (strip_quotes (strip (if strip (tl ?r) = [] then [last ?r] else strip (tl ?r))))" if "tl ?r \<noteq> []"
  proof -
    have "last ?r \<in> set ?r" using that by (cases ?r) auto
    then have "one_line [last ?r]" using \<open>one_line ?r\<close> by (simp add: one_line_def list_all_iff)
    then show ?thesis using \<open>one_line ?r\<close> by (auto intro!: one_line_parts)
  qed
  show ?case using Cons.prems Cons.IH it i l
    by (cases base) (auto simp: Let_def list_key_match item_match group_def)
qed simp

section \<open>The page has no carriage return\<close>

abbreviation cr_free :: "string \<Rightarrow> bool" where
  "cr_free s \<equiv> CHR 0x0D \<notin> set s"

lemma one_line_cr_free: "one_line s \<Longrightarrow> cr_free s"
  by (auto simp: one_line_def list_all_iff is_linebreak_bits)

lemma cr_free_join: "cr_free sep \<Longrightarrow> list_all cr_free xs \<Longrightarrow> cr_free (join sep xs)"
  by (induction sep xs rule: join.induct) auto

lemma cr_free_literal [simp]: "CHR 0x0D \<in> set (literal s) \<longleftrightarrow> CHR 0x0D \<in> set s"
  by (simp add: literal_def)

definition core_ok :: "core_entry \<Rightarrow> bool" where
  "core_ok c = (list_all one_line [cr_display c, cr_xlen c, cr_march c, cr_mabi c, cr_sim c, cr_fpga c, cr_debug c, cr_zephyr c]
     \<and> list_all one_line (cr_compatible_boards c))"

definition board_ok :: "board_entry \<Rightarrow> bool" where
  "board_ok b = (list_all one_line [br_display b, br_part b, br_soc_hz b, br_uart_baud b] \<and> list_all one_line (br_compatible_cores b))"

lemma render_require_scalar_ok [res_simps]:
  "render_require_scalar r text path d = Inr v \<longleftrightarrow> render_yaml_path_scalar text path = Some v"
  by (auto simp: render_require_scalar_def res_simps split: option.splits)

lemma render_top_list_one_line:
  "list_all one_line (render_yaml_top_list text ''compatible_boards'')"
  "list_all one_line (render_yaml_top_list text ''compatible_cores'')"
  unfolding render_yaml_top_list_def
  by (rule top_list_one_line; simp add: list_all_iff splitlines_one_line is_space_bits)+

lemma core_record_ok: "core_record r n = Inr c \<Longrightarrow> core_ok c"
proof -
  assume a: "core_record r n = Inr c"
  have "one_line (opt_or (render_yaml_path_scalar t path) ''planned'')" for t path
    by (cases "render_yaml_path_scalar t path") (auto simp: render_scalar_one_line is_linebreak_bits)
  with a show ?thesis
    by (auto simp: core_record_def Let_def res_simps core_ok_def render_top_list_one_line intro: render_scalar_one_line)
qed

lemma board_record_ok: "board_record r n = Inr b \<Longrightarrow> board_ok b \<and> br_name b = n"
  by (auto simp: board_record_def Let_def res_simps board_ok_def render_top_list_one_line intro: render_scalar_one_line)

lemma by_name_eq:
  "by_name f names = Inr xs \<Longrightarrow> map fst xs = remdups names \<and> (\<forall>(n, x)\<in>set xs. f n = Inr x)"
proof -
  have "map fst xs = ns \<and> (\<forall>(n, x)\<in>set xs. f n = Inr x)"
    if "mapr (\<lambda>n. bindr (f n) (\<lambda>x. Inr (n, x))) ns = Inr xs" for ns
    using that by (induction ns arbitrary: xs) (auto simp: res_simps)
  then show "by_name f names = Inr xs \<Longrightarrow> map fst xs = remdups names \<and> (\<forall>(n, x)\<in>set xs. f n = Inr x)"
    by (simp add: by_name_def)
qed

lemma by_name_names: "by_name f names = Inr xs \<Longrightarrow> \<forall>(n, x)\<in>set xs. n \<in> set names \<and> f n = Inr x"
  using by_name_eq [of f names xs] by (metis (mono_tags, lifting) case_prodI2 fst_conv in_set_zipE set_remdups set_zip_leftD zip_map_fst_snd case_prod_unfold)

lemma table_cr_free:
  assumes "table headers rows = Inr t" "list_all cr_free headers" "list_all (list_all cr_free) rows"
  shows "cr_free t"
proof -
  have "list_all (list_all cr_free) out" if "mapr table_row rs = Inr out" "list_all (list_all cr_free) rs" for rs out
    using that
  proof (induction rs arbitrary: out)
    case (Cons row rs)
    then show ?case by (cases row) (auto simp: res_simps list_all_iff)
  qed simp
  note rows = this
  from assms(1) obtain out where out: "mapr table_row (headers # rows) = Inr out"
    "t = join [NL] ([''.. list-table::'', ''   :header-rows: 1'', []] @ concat out)"
    unfolding table_def bindr_eq_Inr by auto
  have "list_all cr_free (concat out)" using rows [OF out(1)] assms(2,3) by (auto simp: list_all_iff)
  then show ?thesis unfolding out(2) by (intro cr_free_join) simp_all
qed

lemma board_matrix_cr_free:
  assumes "render_board_matrix b cores = Inr t" "board_ok b" "cr_free (br_name b)" "\<forall>(n, c)\<in>set cores. core_ok c"
  shows "cr_free t"
proof -
  from assms(1) obtain rows tb where rows: "mapr (board_row cores) (br_compatible_cores b) = Inr rows"
    and tb: "table [''Core'', ''Display name'', ''Sim ``hello_world``'', ''FPGA ``hello_world``'', ''Load/run path'',
         ''OpenOCD/GDB step'', ''Default FPGA acceptance''] rows = Inr tb"
    and t: "t = join [NL] (heading (br_display b @ '' ('' @ literal (br_name b) @ '')'') CHR ''-'' @
       [[], ''- FPGA part: '' @ literal (br_part b), ''- SoC clock: '' @ literal (br_soc_hz b) @ '' Hz'',
        ''- UART baud: '' @ literal (br_uart_baud b), [], tb])"
    unfolding render_board_matrix_def bindr_eq_Inr by auto
  have "list_all cr_free row" if "board_row cores n = Inr row" "one_line n" for n row
    using that assms(4) one_line_cr_free
    by (auto simp: board_row_def core_ok_def load_run_path_def default_fpga_acceptance_def split: option.splits dest!: map_of_SomeD)
  moreover have "list_all one_line (br_compatible_cores b)" using assms(2) by (simp add: board_ok_def)
  ultimately have "list_all (list_all cr_free) rows"
    by (intro mapr_all [OF rows]) (simp add: list_all_iff)
  then have "cr_free tb" by (intro table_cr_free [OF tb]) simp_all
  with assms(2,3) show ?thesis unfolding t
    by (intro cr_free_join) (auto simp: heading_def board_ok_def one_line_cr_free)
qed

lemma render_cr_free:
  assumes "render r = Inr page"
    and "\<forall>n \<in> set (descriptor_names r (CORE_DIR r)) \<union> set (descriptor_names r (BOARD_DIR r)). cr_free n"
  shows "cr_free page"
proof -
  from assms(1) obtain cores boards parts ct where
    c: "by_name (core_record r) (descriptor_names r (CORE_DIR r)) = Inr cores"
    and b: "by_name (board_record r) (descriptor_names r (BOARD_DIR r)) = Inr boards"
    and p: "mapr (\<lambda>(_, board). bindr (render_board_matrix board cores) (\<lambda>t. Inr [t, []])) boards = Inr parts"
    and ct: "render_core_matrix cores = Inr ct"
    and page: "page = join [NL] (preamble @ concat parts @ heading ''Core ISA Summary'' CHR ''-'' @ [[], ct, []])"
    unfolding render_def bindr_eq_Inr by auto
  have cores: "\<forall>(n, x)\<in>set cores. core_ok x \<and> cr_free n"
    using by_name_names [OF c] core_record_ok assms(2) by blast
  have boards: "\<forall>(n, x)\<in>set boards. board_ok x \<and> cr_free (br_name x)"
    using by_name_names [OF b] board_record_ok assms(2) by blast
  have "list_all (list_all cr_free) parts"
  proof (rule mapr_all [OF p], goal_cases)
    case (1 nb y)
    then obtain t where "render_board_matrix (snd nb) cores = Inr t" "y = [t, []]" by (auto simp: res_simps split: prod.splits)
    moreover have "board_ok (snd nb)" "cr_free (br_name (snd nb))" "\<forall>(n, c)\<in>set cores. core_ok c"
      using 1 boards cores by auto
    ultimately show ?case using board_matrix_cr_free [of "snd nb" cores t] by simp
  qed
  moreover have "cr_free ct"
  proof (rule table_cr_free [OF ct [unfolded render_core_matrix_def]])
    have "cr_free (comma_list (map literal xs))" if "list_all one_line xs" for xs
      using that by (intro cr_free_join) (auto simp: list_all_iff one_line_cr_free)
    then show "list_all (list_all cr_free) (map core_row cores)"
      using cores one_line_cr_free by (auto simp: core_row_def core_ok_def list_all_iff)
  qed simp
  ultimately show ?thesis unfolding page
    by (intro cr_free_join) (auto simp: preamble_def heading_def list_all_iff)
qed

section \<open>Writing and checking\<close>

lemma entries_write: "\<not> strict_prefix d out \<Longrightarrow> entries (write_text r out t) d = entries r d"
  by (simp add: entries_keys write_text_def keys_update)

lemma descriptor_names_write: "\<not> prefix d out \<Longrightarrow> descriptor_names (write_text r out t) d = descriptor_names r d"
  by (simp add: descriptor_names_def glob_ext_def entries_write strict_prefix_def)

lemma by_name_cong: "(\<And>n. n \<in> set names \<Longrightarrow> f n = g n) \<Longrightarrow> by_name f names = by_name g names"
  by (auto simp: by_name_def intro!: mapr_cong)

lemma read_descriptor_write:
  assumes "wf_repo r" "plain_path out" "n \<in> set (descriptor_names r d)" "\<not> prefix d out" "plain_path d"
  shows "read_text (write_text r out t) (descriptor_path d n) = read_text r (descriptor_path d n)"
proof -
  from listed_path [OF assms(1,3)] have p: "descriptor_path d n = d @ [n @ ''.yaml'']" "plain_path (descriptor_path d n)"
    using assms(5) by (auto simp: plain_path_def file_name_def)
  then have "descriptor_path d n \<noteq> out" using assms(4) by auto
  then show ?thesis using p(2) assms(2) by (simp add: read_text_def lookup_write plain_path_def)
qed

lemma render_write:
  assumes "wf_repo r" "plain_path out" "\<not> prefix (CORE_DIR r) out" "\<not> prefix (BOARD_DIR r) out"
  shows "render (write_text r out t) = render r"
proof -
  let ?r = "write_text r out t"
  have d: "CORE_DIR ?r = CORE_DIR r" "BOARD_DIR ?r = BOARD_DIR r" by (simp_all add: CORE_DIR_def BOARD_DIR_def)
  have pl: "plain_path (CORE_DIR r)" "plain_path (BOARD_DIR r)"
    using wf_repo_plain [OF assms(1)] by (simp_all add: CORE_DIR_def BOARD_DIR_def plain_path_def)
  have rel: "render_require_scalar ?r = render_require_scalar r"
    by (simp add: fun_eq_iff render_require_scalar_def relative_to_root_def split: option.split)
  have "core_record ?r n = core_record r n" if "n \<in> set (descriptor_names r (CORE_DIR r))" for n
    using read_descriptor_write [OF assms(1,2) that assms(3) pl(1)] by (simp add: core_record_def d rel)
  moreover have "board_record ?r n = board_record r n" if "n \<in> set (descriptor_names r (BOARD_DIR r))" for n
    using read_descriptor_write [OF assms(1,2) that assms(4) pl(2)] by (simp add: board_record_def d rel)
  ultimately show ?thesis
    using by_name_cong [of _ "core_record ?r" "core_record r"] by_name_cong [of _ "board_record ?r" "board_record r"]
    by (simp add: render_def d descriptor_names_write assms(3,4))
qed

text \<open>
  (C31) The check accepts what the script has written: after a run that writes the page, a run with
  \<^verbatim>\<open>--check\<close> passes and changes nothing, on a well-formed checkout whose descriptor names hold no
  carriage return, for an output path outside the descriptor directories.
\<close>

theorem matrix_check_after_write:
  assumes "render_main False out r = (r', Inr msgs)" "wf_repo r" "plain_path out"
    and "\<not> prefix (CORE_DIR r) out" "\<not> prefix (BOARD_DIR r) out"
    and "\<forall>n \<in> set (descriptor_names r (CORE_DIR r)) \<union> set (descriptor_names r (BOARD_DIR r)). CHR 0x0D \<notin> set n"
  shows "render_main True out r' = (r', Inr [])"
proof -
  from assms(1) obtain page where page: "render r = Inr page" "r' = write_text r out page"
    by (auto simp: render_main_def then_do_ok look_eq)
  have "render r' = Inr page" using render_write [OF assms(2-5)] page by simp
  moreover have "lookup_file r' out = Some page"
    using render_cr_free [OF page(1) assms(6)] assms(3) page(2) by (simp add: checkout.get_put universal_newlines_id)
  ultimately show ?thesis by (simp add: render_main_def look_def is_file_def read_text_def)
qed

section \<open>The matrix and the checks\<close>

text \<open>A field one reader finds is found by the other, which may only drop more quotes.\<close>

lemma render_reads: "yaml_path_scalar text path = Some v \<Longrightarrow> \<exists>w. render_yaml_path_scalar text path = Some w"
  by (auto simp: yaml_path_scalar_def render_yaml_path_scalar_def scan_unquote [of unquote_ends] scan_unquote [of unquote_all])

lemma core_record_total:
  assumes "snd (core_check r core verbose) = Inr ()"
  shows "\<exists>c. core_record r core = Inr c"
proof -
  from assms obtain ct ci where c: "core_checked r core = Inr (ct, ci)"
    by (cases "core_checked r core") (auto simp: core_check_end)
  note parts = core_checked_parts [OF c]
  from parts(4) obtain ident adapter ctype where
    p: "core_identity core ct = Inr ident" "core_fields core ct ident adapter ctype = Inr ci" by blast
  have d: "\<exists>v. yaml_path_scalar ct [''debug'', ''supported''] = Some v"
    using c parts(1) by (auto simp: core_checked_def core_debug_check_def Let_def res_simps read_text_ok)
  have "\<exists>v. yaml_path_scalar ct [''display_name''] = Some v" "\<exists>v. yaml_path_scalar ct [''integration'', ''sim''] = Some v"
    "\<exists>v. yaml_path_scalar ct [''integration'', ''fpga''] = Some v" "\<exists>v. yaml_path_scalar ct [''integration'', ''debug''] = Some v"
    using p(1) by (auto simp: core_identity_def FLOWS_def res_simps)
  moreover have "\<exists>v. yaml_path_scalar ct [''isa'', ''xlen''] = Some v" "\<exists>v. yaml_path_scalar ct [''isa'', ''march''] = Some v"
    "\<exists>v. yaml_path_scalar ct [''isa'', ''mabi''] = Some v"
    using p(2) by (auto simp: core_fields_def Let_def res_simps)
  ultimately show ?thesis using d parts(1)
    by (auto simp: core_record_def Let_def read_text_def render_require_scalar_def dest!: render_reads)
qed

lemma board_record_total:
  assumes "board_checked r board = Inr x"
  shows "\<exists>b. board_record r board = Inr b \<and> set (br_compatible_cores b) \<subseteq> set (descriptor_names r (CORE_DIR r))"
proof -
  from assms obtain bt bi where b: "lookup_file r (descriptor_path (BOARD_DIR r) board) = Some bt"
    "board_fields r board bt = Inr bi" "board_cores_check r board (bi_cores bi) = Inr ()"
    by (auto simp: board_checked_def Let_def res_simps read_text_ok)
  have f: "bi_cores bi = yaml_top_list bt ''compatible_cores''" "\<exists>v. yaml_path_scalar bt [''display_name''] = Some v"
    "\<exists>v. yaml_path_scalar bt [''fpga'', ''part''] = Some v" "\<exists>v. yaml_path_scalar bt [''clock'', ''soc_hz''] = Some v"
    "\<exists>v. yaml_path_scalar bt [''uart'', ''baud''] = Some v"
    using b(2) by (auto simp: board_fields_def Let_def res_simps)
  then have "set (yaml_top_list bt ''compatible_cores'') \<subseteq> set (descriptor_names r (CORE_DIR r))"
    using b(3) by (auto simp: board_cores_check_def Let_def res_simps filter_empty_conv)
  then show ?thesis using b(1) f(2-5)
    by (auto simp: board_record_def Let_def read_text_def render_require_scalar_def yaml_top_list_def render_yaml_top_list_def
      dest!: render_reads)
qed

lemma by_name_returns: "(\<And>n. n \<in> set names \<Longrightarrow> \<exists>x. f n = Inr x) \<Longrightarrow> \<exists>xs. by_name f names = Inr xs"
  unfolding by_name_def by (rule mapr_returns) (auto simp: bindr_eq_Inr)

lemma table_returns: "headers \<noteq> [] \<Longrightarrow> [] \<notin> set rows \<Longrightarrow> \<exists>t. table headers rows = Inr t"
proof -
  assume a: "headers \<noteq> []" "[] \<notin> set rows"
  have "\<exists>out. mapr table_row (headers # rows) = Inr out"
  proof (rule mapr_returns)
    fix row assume "row \<in> set (headers # rows)"
    with a show "\<exists>y. table_row row = Inr y" by (cases row) auto
  qed
  then show ?thesis by (auto simp: table_def bindr_def split: sum.splits)
qed

lemma board_row_nonempty: "board_row cores n = Inr row \<Longrightarrow> row \<noteq> []"
  by (auto simp: board_row_def split: option.splits)

lemma core_row_nonempty: "core_row nc \<noteq> []"
  by (simp add: core_row_def split: prod.split)

lemma render_returns:
  assumes "\<forall>c\<in>set (descriptor_names r (CORE_DIR r)). snd (core_check r c verbose) = Inr ()"
    and "\<forall>b\<in>set (descriptor_names r (BOARD_DIR r)). snd (board_check r b verbose) = Inr ()"
  shows "\<exists>page. render r = Inr page"
proof -
  obtain cores where c: "by_name (core_record r) (descriptor_names r (CORE_DIR r)) = Inr cores"
    using by_name_returns [of _ "core_record r"] core_record_total assms(1) by blast
  have br: "\<exists>b. board_record r n = Inr b \<and> set (br_compatible_cores b) \<subseteq> set (descriptor_names r (CORE_DIR r))"
    if "n \<in> set (descriptor_names r (BOARD_DIR r))" for n
    using assms(2) that board_record_total [of r n] by (cases "board_checked r n") (auto simp: board_check_def)
  then obtain boards where b: "by_name (board_record r) (descriptor_names r (BOARD_DIR r)) = Inr boards"
    using by_name_returns [of _ "board_record r"] by blast
  have names: "fst ` set cores = set (descriptor_names r (CORE_DIR r))"
    using by_name_eq [OF c] by (metis list.set_map set_remdups)
  have row: "\<exists>row. board_row cores n = Inr row \<and> row \<noteq> []" if "n \<in> fst ` set cores" for n
    using that by (auto simp: board_row_def map_of_eq_None_iff split: option.split)
  have bm: "\<exists>t. render_board_matrix (snd nb) cores = Inr t" if "nb \<in> set boards" for nb
  proof -
    have "set (br_compatible_cores (snd nb)) \<subseteq> fst ` set cores"
      using by_name_names [OF b] br that unfolding names by fastforce
    then obtain rows where rows: "mapr (board_row cores) (br_compatible_cores (snd nb)) = Inr rows"
      using mapr_returns [of "br_compatible_cores (snd nb)" "board_row cores"] row by (meson subsetD)
    then have "[] \<notin> set rows"
      using mapr_all [OF rows, of "\<lambda>r. r \<noteq> []"] board_row_nonempty unfolding list_all_iff by blast
    then show ?thesis unfolding render_board_matrix_def rows bindr_Inr bindr_eq_Inr
      using table_returns [OF list.distinct(2), of rows] by blast
  qed
  then obtain parts where p: "mapr (\<lambda>(_, board). bindr (render_board_matrix board cores) (\<lambda>t. Inr [t, []])) boards = Inr parts"
    using mapr_returns [of boards "\<lambda>(_, board). bindr (render_board_matrix board cores) (\<lambda>t. Inr [t, []])"]
    unfolding case_prod_beta bindr_eq_Inr by blast
  have "[] \<notin> set (map core_row cores)" using core_row_nonempty by (metis ex_map_conv)
  then obtain ct where "render_core_matrix cores = Inr ct"
    unfolding render_core_matrix_def using table_returns [OF list.distinct(2)] by blast
  with c b p show ?thesis by (simp add: render_def)
qed

text \<open>
  (C30) Rendering is total on a checked tree: when every core passes \<^verbatim>\<open>core_check\<close> and every board
  passes \<^verbatim>\<open>board_check\<close>, the page is rendered; no field is missing and no board lists a core
  without a descriptor.
\<close>

theorem matrix_total:
  assumes "\<forall>c\<in>set (descriptor_names r (CORE_DIR r)). snd (core_check r c verbose) = Inr ()"
    and "\<forall>b\<in>set (descriptor_names r (BOARD_DIR r)). snd (board_check r b verbose) = Inr ()"
  shows "\<exists>page. render r = Inr page"
  by (rule render_returns [OF assms])

text \<open>
  (C8) The column \<^emph>\<open>Default FPGA acceptance\<close> tells the truth. When \<^verbatim>\<open>target_check\<close> passes for a
  board, the row of each of its cores says \<^verbatim>\<open>yes\<close> exactly when \<^verbatim>\<open>validate_target.py\<close> accepts
  the core with the board for the FPGA flow, in every output mode.
\<close>

theorem matrix_agrees_with_validate:
  assumes "snd (target_check r board) = Inr ()"
    and "lookup_file r (descriptor_path (BOARD_DIR r) board) = Some board_text"
    and "core \<in> set (yaml_top_list board_text ''compatible_cores'')"
    and "by_name (core_record r) (descriptor_names r (CORE_DIR r)) = Inr cores"
  shows "\<exists>row. board_row cores core = Inr row \<and>
    (last row = ''yes'' \<longleftrightarrow> snd (validate r core board quiet as_make False ''fpga'') = Inr ())"
proof -
  from target_checked [OF assms(1-3)] obtain ct cfg x where t: "lookup_file r (descriptor_path (CORE_DIR r) core) = Some ct"
    "load_descriptors r core board = Inr (ct, board_text)" "target_config r core board ct board_text = Inr cfg"
    "snd (core_check r core False) = Inr ()" "board_checked r board = Inr x" .
  obtain ct' ci where c: "core_checked r core = Inr (ct', ci)" using t(4) by (cases "core_checked r core") (auto simp: core_check_end)
  then have "ct' = ct" using core_checked_parts(1) [OF c] t(1) by simp
  with core_checked_parts(4) [OF c] obtain ident where "core_identity core ct = Inr ident" by blast
  then obtain st where st: "yaml_path_scalar ct [''integration'', ''fpga''] = Some st" "st \<in> {''supported'', ''planned'', ''unsupported''}"
    by (auto simp: core_identity_def FLOWS_def require_status_def res_simps)
  have status: "integration_status ct ''fpga'' = st" using st by (auto simp: integration_status_def)
  have rd: "render_yaml_path_scalar ct [''integration'', ''fpga''] = Some st"
    using unquoted_scalar [OF st(1)] st(2) unfolding render_yaml_path_scalar_def by (auto simp: is_quote_def)
  have "core \<in> set (descriptor_names r (CORE_DIR r))"
    using board_record_total [OF t(5)] assms(2,3)
    by (auto simp: board_record_def Let_def res_simps read_text_def yaml_top_list_def render_yaml_top_list_def)
  then have "core \<in> fst ` set cores" using by_name_eq [OF assms(4)] by (metis list.set_map set_remdups)
  then obtain e where e: "map_of cores core = Some e" by (metis map_of_eq_None_iff not_Some_eq)
  then have "core_record r core = Inr e" using by_name_names [OF assms(4)] by (auto dest: map_of_SomeD)
  then have "cr_fpga e = st" using t(1) rd by (auto simp: core_record_def Let_def res_simps read_text_def)
  moreover have "snd (validate r core board quiet as_make False ''fpga'') = Inr () \<longleftrightarrow> st = ''supported''"
  proof (cases "st = ''supported''")
    case True
    with checked_compatible [OF t(5) assms(2,3) t(1), of "''fpga''" False] status t(2,3) show ?thesis by (simp add: validate_end)
  next
    case False
    then have "\<not> fst (is_compatible core board ct board_text ''fpga'' False)"
      by (simp add: is_compatible_def status SUPPORTED_STATUS_def Let_def)
    with False t(2) show ?thesis by (auto simp: validate_end res_simps split: prod.splits)
  qed
  ultimately show ?thesis using e by (simp add: board_row_def default_fpga_acceptance_def)
qed

end
