(* ===== verification/Support_Sample.thy ===== *)
theory Support_Sample
  imports Sample Support_Matrix
begin

text \<open>Witnesses of the properties of the support matrix, on the sample checkout.\<close>

lemma sample_checks: "\<forall>c\<in>set (descriptor_names sample (CORE_DIR sample)). snd (core_check sample c False) = Inr ()"
  "\<forall>b\<in>set (descriptor_names sample (BOARD_DIR sample)). snd (board_check sample b False) = Inr ()"
  by (simp_all add: core_names board_names sample_core_check sample_board_check)

lemma doc_no_cr: "ywf ok t \<Longrightarrow> CHR 0x0D \<notin> set (unlines (ydoc 0 t))"
  using ydoc_lines by (intro unlines_no_cr) (auto simp: list_all_iff)

lemma sample_wf: "wf_repo sample"
  using doc_no_cr [OF ibex_wf] doc_no_cr [OF axku5_wf] doc_no_cr [OF banner_wf]
  by (simp add: wf_repo_def sample_def core_text_def board_text_def file_name_def unlines_def)

theorem matrix_total_witness: "\<exists>page. render sample = Inr page"
  by (rule matrix_total [OF sample_checks])

theorem matrix_check_after_write_witness:
  "\<exists>r' msgs. render_main False (OUT_PATH sample) sample = (r', Inr msgs) \<and> render_main True (OUT_PATH sample) r' = (r', Inr [])"
proof -
  obtain page where "render sample = Inr page" using render_returns [OF sample_checks] by blast
  then obtain r' msgs where run: "render_main False (OUT_PATH sample) sample = (r', Inr msgs)"
    by (simp add: render_main_def look_def)
  have "render_main True (OUT_PATH sample) r' = (r', Inr [])"
    by (rule matrix_check_after_write [OF run sample_wf])
      (simp_all add: OUT_PATH_def plain_path_def CORE_DIR_def BOARD_DIR_def
        core_names [unfolded CORE_DIR_def, simplified] board_names [unfolded BOARD_DIR_def, simplified])
  with run show ?thesis by blast
qed

theorem matrix_agrees_with_validate_witness:
  "\<exists>cores row. by_name (core_record sample) (descriptor_names sample (CORE_DIR sample)) = Inr cores \<and>
    board_row cores ''ibex'' = Inr row \<and>
    (last row = ''yes'' \<longleftrightarrow> snd (validate sample ''ibex'' ''axku5'' True False False ''fpga'') = Inr ())"
proof -
  obtain page where "render sample = Inr page" using render_returns [OF sample_checks] by blast
  then obtain cores where cores: "by_name (core_record sample) (descriptor_names sample (CORE_DIR sample)) = Inr cores"
    unfolding render_def bindr_eq_Inr by blast
  have "''ibex'' \<in> set (yaml_top_list board_text ''compatible_cores'')" by (simp add: board_cores)
  from matrix_agrees_with_validate [OF sample_target board_file this cores, of True False] cores show ?thesis by blast
qed

end
