(* ===== verification/Bump_Version.thy ===== *)
theory Bump_Version
  imports Scaffold
begin

text \<open>
  \<^verbatim>\<open>bin/bump_version.py\<close>: the check that all FuseSoC files name one CoreJack version, and the sweep
  that rewrites it everywhere. The pattern for a versioned name is shown to have at most one match
  at a position, up to the digits at its end; with this a text is a list of versioned names with
  text between them, and the sweep changes their versions and nothing else.
\<close>

section \<open>The script\<close>

definition CORE_FILES :: "repo \<Rightarrow> fpath list" where
  "CORE_FILES r = map (\<lambda>n. root r @ [n]) (sort (glob_ext r (root r) ''.core''))"

definition semver :: rx where
  "semver = rseq [plus1 is_digit, RChr ((=) CHR ''.''), plus1 is_digit, RChr ((=) CHR ''.''), plus1 is_digit]"

definition vlnv_name :: rx where
  "vlnv_name = RSeq (rlit ''corejack'') (rplus True (RSeq (RChr ((=) CHR '':'')) (plus1 is_key)))"

definition VLNV_RE :: rx where
  "VLNV_RE = RSeq (RGrp ''1'' vlnv_name) (RSeq (RChr ((=) CHR '':'')) (RGrp ''2'' semver))"

definition SEMVER_RE :: rx where
  "SEMVER_RE = rseq [RBol False, semver, REol False]"

definition collect_files :: "repo \<Rightarrow> fpath list" where
  "collect_files r = filter (is_file r) (CORE_FILES r)"

text \<open>\<^verbatim>\<open>setdefault(version, []).append(path)\<close> on a dictionary in order of insertion.\<close>

definition add_version :: "fpath \<Rightarrow> string \<Rightarrow> (string \<times> fpath list) list \<Rightarrow> (string \<times> fpath list) list" where
  "add_version path v d = AList.update v ((case map_of d v of None \<Rightarrow> [] | Some ps \<Rightarrow> ps) @ [path]) d"

definition versions_in :: "string \<Rightarrow> string list" where
  "versions_in text = map (\<lambda>m. group ''2'' (snd m)) (re_finditer VLNV_RE text)"

fun find_versions :: "repo \<Rightarrow> fpath list \<Rightarrow> (string \<times> fpath list) list \<Rightarrow> (string \<times> fpath list) list res" where
  "find_versions r [] d = Inr d"
| "find_versions r (path # paths) d =
     bindr (read_text r path) (\<lambda>text. find_versions r paths (foldl (\<lambda>d v. add_version path v d) d (versions_in text)))"

definition version_line :: "repo \<Rightarrow> string \<times> fpath list \<Rightarrow> string res" where
  "version_line r vp =
     bindr (mapr (relative_to_root r) (sort (remdups (snd vp)))) (\<lambda>rels.
     Inr (''  '' @ fst vp @ '': '' @ comma_list rels))"

definition detect_current_version :: "repo \<Rightarrow> fpath list \<Rightarrow> string res" where
  "detect_current_version r paths =
     bindr (find_versions r paths []) (\<lambda>by_version.
     case by_version of
       [] \<Rightarrow> Inl (Exit ''error: no CoreJack VLNV versions found'')
     | [(version, _)] \<Rightarrow> Inr version
     | _ \<Rightarrow> bindr (mapr (version_line r) (sort_key fst by_version)) (\<lambda>lines.
            Inl (Exit (unlines (''error: multiple CoreJack VLNV versions present:'' # lines)))))"

definition new_vlnv :: "string \<Rightarrow> string \<Rightarrow> groups \<Rightarrow> string" where
  "new_vlnv new_version m g = group ''1'' g @ '':'' @ new_version"

definition rewrite :: "fpath \<Rightarrow> string \<Rightarrow> repo \<Rightarrow> repo \<times> nat res" where
  "rewrite path new_version r =
     then_do (look (\<lambda>r. read_text r path) r) (\<lambda>text r.
     case re_subn VLNV_RE (new_vlnv new_version) text of
       (new_text, n) \<Rightarrow> (if 0 < n \<and> new_text \<noteq> text then write_text r path new_text else r, Inr n))"

text \<open>The loop of \<^verbatim>\<open>main\<close>, with the lines it prints and the total so far.\<close>

fun rewrite_all :: "string \<Rightarrow> fpath list \<Rightarrow> nat \<Rightarrow> repo \<Rightarrow> repo \<times> string list \<times> nat res" where
  "rewrite_all v [] sofar r = (r, [], Inr sofar)"
| "rewrite_all v (path # paths) sofar r =
     (case then_do (rewrite path v r) (\<lambda>n. look (\<lambda>r.
             if n = 0 then Inr (n, [])
             else bindr (relative_to_root r path) (\<lambda>rel.
                  Inr (n, [''  '' @ rel @ '': '' @ py_str (int n) @ '' VLNV reference(s) updated''])))) of
        (r1, Inl e) \<Rightarrow> (r1, [], Inl e)
      | (r1, Inr (n, out)) \<Rightarrow>
          (case rewrite_all v paths (sofar + n) r1 of (r2, outs, res) \<Rightarrow> (r2, out @ outs, res)))"

definition bump_main :: "bool \<Rightarrow> string option \<Rightarrow> repo \<Rightarrow> repo \<times> run" where
  "bump_main check to r =
     (let paths = collect_files r
      in if paths = [] then (r, [], Inl (Exit ''error: no .core files found''))
         else case detect_current_version r paths of
           Inl e \<Rightarrow> (r, [], Inl e)
         | Inr current \<Rightarrow>
             (let out = [''Current CoreJack VLNV version: '' @ current]
              in if check then (r, out @ [''OK (all .core files agree)''], Inr ())
                 else case to of
                   None \<Rightarrow> (r, out, Inl (Exit ''error: --to <VERSION> is required (or pass --check)''))
                 | Some v \<Rightarrow>
                     if v = [] then (r, out, Inl (Exit ''error: --to <VERSION> is required (or pass --check)''))
                     else if re_match SEMVER_RE v = None
                     then (r, out, Inl (Exit (''error: --to must be SemVer X.Y.Z; got '' @ quoted v)))
                     else if v = current then (r, out @ [''Already at '' @ v @ ''; nothing to do.''], Inr ())
                     else case rewrite_all v paths 0 r of
                            (r', lines, Inl e) \<Rightarrow> (r', out @ [''Bumping to: '' @ v] @ lines, Inl e)
                          | (r', lines, Inr cnt) \<Rightarrow>
                              (r', out @ [''Bumping to: '' @ v] @ lines @
                                 [''Done: '' @ py_str (int cnt) @ '' VLNV references rewritten across '' @
                                    py_str (int (length paths)) @ '' file(s).'',
                                  ''Review with `git diff`, commit, then tag (e.g. '' @
                                    ''`git tag -a v'' @ v @ '' -m '' @ quoted (''CoreJack v'' @ v) @ ''`).''], Inr ())))"

section \<open>Matches of the pattern\<close>

text \<open>A versioned name: segments of a name, then a version of three numbers.\<close>

definition segs_text :: "string list \<Rightarrow> string" where
  "segs_text ws = concat (map ((#) CHR '':'') ws)"

definition name_ok :: "string \<Rightarrow> bool" where
  "name_ok n = (\<exists>ws. ws \<noteq> [] \<and> (\<forall>w\<in>set ws. w \<noteq> [] \<and> list_all is_key w) \<and> n = ''corejack'' @ segs_text ws)"

definition ver_ok :: "string \<Rightarrow> bool" where
  "ver_ok v = (\<exists>a b c. v = a @ ''.'' @ b @ ''.'' @ c \<and> a \<noteq> [] \<and> b \<noteq> [] \<and> c \<noteq> [] \<and>
     list_all is_digit a \<and> list_all is_digit b \<and> list_all is_digit c)"

definition digit_free :: "string \<Rightarrow> bool" where
  "digit_free s = (s = [] \<or> \<not> is_digit (hd s))"

lemma mem_segs:
  "st \<in> set (rmatch (RStar True (RSeq (RChr ((=) CHR '':'')) (plus1 is_key))) (pre, s, g)) \<longleftrightarrow>
     (\<exists>ws t. (\<forall>w\<in>set ws. w \<noteq> [] \<and> list_all is_key w) \<and> s = segs_text ws @ t \<and> st = (rev (segs_text ws) @ pre, t, g))"
proof (induction "length s" arbitrary: s pre rule: less_induct)
  case less
  let ?seg = "RSeq (RChr ((=) CHR '':'')) (plus1 is_key)" and ?star = "RStar True (RSeq (RChr ((=) CHR '':'')) (plus1 is_key))"
  have one: "st1 \<in> set (rmatch ?seg (pre, s, g)) \<longleftrightarrow>
      (\<exists>w t. w \<noteq> [] \<and> list_all is_key w \<and> s = CHR '':'' # w @ t \<and> st1 = (rev w @ CHR '':'' # pre, t, g))" for st1
    by (auto simp: mem_RSeq mem_RChr mem_plus)
  have "st \<in> set (rmatch ?star (pre, s, g)) \<longleftrightarrow> st = (pre, s, g) \<or>
      (\<exists>st1. st1 \<in> set (rmatch ?seg (pre, s, g)) \<and> length (fst (snd st1)) < length s \<and> st \<in> set (rmatch ?star st1))"
    by (subst rmatch.simps(5)) (fastforce simp: Let_def simp del: rmatch.simps split: if_splits)
  also have "\<dots> \<longleftrightarrow> st = (pre, s, g) \<or>
      (\<exists>w t. w \<noteq> [] \<and> list_all is_key w \<and> s = CHR '':'' # w @ t \<and> st \<in> set (rmatch ?star (rev w @ CHR '':'' # pre, t, g)))"
    (is "_ \<or> ?A \<longleftrightarrow> _ \<or> ?B")
  proof -
    have "?A = ?B"
    proof
      show "?A \<Longrightarrow> ?B" unfolding one by auto
      assume ?B
      then obtain w t where "w \<noteq> []" "list_all is_key w" "s = CHR '':'' # w @ t" "st \<in> set (rmatch ?star (rev w @ CHR '':'' # pre, t, g))"
        by blast
      then show ?A unfolding one by (intro exI [of _ "(rev w @ CHR '':'' # pre, t, g)"]) auto
    qed
    then show ?thesis by blast
  qed
  also have "\<dots> \<longleftrightarrow> (\<exists>ws t. (\<forall>w\<in>set ws. w \<noteq> [] \<and> list_all is_key w) \<and> s = segs_text ws @ t \<and> st = (rev (segs_text ws) @ pre, t, g))"
    (is "?L = ?R")
  proof
    assume ?L
    then consider "st = (pre, s, g)"
      | w t where "w \<noteq> []" "list_all is_key w" "s = CHR '':'' # w @ t" "st \<in> set (rmatch ?star (rev w @ CHR '':'' # pre, t, g))"
      by blast
    then show ?R
    proof cases
      case 1
      then show ?thesis by - (rule exI [of _ "[]"], rule exI [of _ s], simp add: segs_text_def)
    next
      case (2 w t)
      then obtain ws u where "\<forall>w\<in>set ws. w \<noteq> [] \<and> list_all is_key w" "t = segs_text ws @ u"
        "st = (rev (segs_text ws) @ rev w @ CHR '':'' # pre, u, g)" using less [of t] by auto
      with 2 show ?thesis by - (rule exI [of _ "w # ws"], rule exI [of _ u], simp add: segs_text_def)
    qed
  next
    assume ?R
    then obtain ws t where R: "\<forall>w\<in>set ws. w \<noteq> [] \<and> list_all is_key w" "s = segs_text ws @ t" "st = (rev (segs_text ws) @ pre, t, g)"
      by blast
    show ?L
    proof (cases ws)
      case (Cons w ws')
      have "st \<in> set (rmatch ?star (rev w @ CHR '':'' # pre, segs_text ws' @ t, g))"
        using less [of "segs_text ws' @ t" "rev w @ CHR '':'' # pre"] R Cons by (auto simp: segs_text_def)
      with R Cons show ?thesis by (auto simp: segs_text_def)
    next
      case Nil
      with R show ?thesis by (simp add: segs_text_def)
    qed
  qed
  finally show ?case .
qed

lemma segs_text_simps [simp]: "segs_text [] = []" "segs_text (w # ws) = CHR '':'' # w @ segs_text ws"
  by (simp_all add: segs_text_def)

lemma mem_name:
  "st \<in> set (rmatch vlnv_name (pre, s, g)) \<longleftrightarrow> (\<exists>n t. name_ok n \<and> s = n @ t \<and> st = (rev n @ pre, t, g))" (is "?L = ?R")
proof
  assume ?L
  then obtain w ws t where "w \<noteq> []" "list_all is_key w" "\<forall>w\<in>set ws. w \<noteq> [] \<and> list_all is_key w"
    "s = ''corejack'' @ CHR '':'' # w @ segs_text ws @ t"
    "st = (rev (segs_text ws) @ rev w @ CHR '':'' # rev ''corejack'' @ pre, t, g)"
    unfolding vlnv_name_def mem_RSeq mem_rlit rplus_def [of True "RSeq (RChr ((=) CHR '':'')) (plus1 is_key)"]
    by (auto simp: mem_RChr mem_plus mem_segs simp del: rmatch.simps)
  then show ?R
    by - (rule exI [of _ "''corejack'' @ segs_text (w # ws)"], rule exI [of _ t], auto simp: name_ok_def intro!: exI [of _ "w # ws"])
next
  assume ?R
  then obtain ws0 t where R0: "ws0 \<noteq> []" "\<forall>w\<in>set ws0. w \<noteq> [] \<and> list_all is_key w" "s = (''corejack'' @ segs_text ws0) @ t"
    "st = (rev (''corejack'' @ segs_text ws0) @ pre, t, g)"
    unfolding name_ok_def by blast
  then obtain w ws where ws: "ws0 = w # ws" by (cases ws0) auto
  have R: "w \<noteq> []" "list_all is_key w" "\<forall>w\<in>set ws. w \<noteq> [] \<and> list_all is_key w"
    "s = ''corejack'' @ CHR '':'' # w @ segs_text ws @ t"
    "st = (rev (segs_text ws) @ rev w @ CHR '':'' # rev ''corejack'' @ pre, t, g)"
    using R0 ws by simp_all
  have "(rev w @ CHR '':'' # rev ''corejack'' @ pre, segs_text ws @ t, g) \<in>
      set (rmatch (RSeq (RChr ((=) CHR '':'')) (plus1 is_key)) (rev ''corejack'' @ pre, [CHR '':''] @ w @ segs_text ws @ t, g))"
    using R(1,2) by (rule_tac mem_intros(1)) (rule mem_intros | assumption | simp)+
  moreover have "st \<in> set (rmatch (RStar True (RSeq (RChr ((=) CHR '':'')) (plus1 is_key)))
      (rev w @ CHR '':'' # rev ''corejack'' @ pre, segs_text ws @ t, g))"
    unfolding mem_segs using R(3,5) by blast
  ultimately show ?L unfolding vlnv_name_def rplus_def [of True "RSeq (RChr ((=) CHR '':'')) (plus1 is_key)"] R(4)
    by (intro mem_intros(1) [OF mem_intros(6)] mem_intros(1)) simp_all
qed

lemma mem_semver:
  "st \<in> set (rmatch semver (pre, s, g)) \<longleftrightarrow> (\<exists>v t. ver_ok v \<and> s = v @ t \<and> st = (rev v @ pre, t, g))" (is "?L = ?R")
proof
  assume ?L
  then obtain a b c t where abc: "a \<noteq> []" "list_all is_digit a" "b \<noteq> []" "list_all is_digit b" "c \<noteq> []" "list_all is_digit c"
    "s = a @ CHR ''.'' # b @ CHR ''.'' # c @ t" "st = (rev c @ CHR ''.'' # rev b @ CHR ''.'' # rev a @ pre, t, g)"
    by (auto simp: semver_def mem_RSeq mem_RChr mem_plus simp del: rmatch.simps)
  then show ?R by - (rule exI [of _ "a @ ''.'' @ b @ ''.'' @ c"], rule exI [of _ t], auto simp: ver_ok_def)
next
  assume ?R
  then obtain a b c t where abc: "a \<noteq> []" "list_all is_digit a" "b \<noteq> []" "list_all is_digit b" "c \<noteq> []" "list_all is_digit c"
    "s = a @ CHR ''.'' # b @ CHR ''.'' # c @ t" "st = (rev c @ CHR ''.'' # rev b @ CHR ''.'' # rev a @ pre, t, g)"
    by (auto simp: ver_ok_def)
  have "(rev c @ CHR ''.'' # rev b @ CHR ''.'' # rev a @ pre, t, g) \<in>
      set (rmatch semver (pre, a @ [CHR ''.''] @ b @ [CHR ''.''] @ c @ t, g))"
    using abc(1-6) unfolding semver_def rseq.simps by - (rule mem_intros | assumption | simp)+
  then show ?L using abc(7,8) by simp
qed

lemma mem_vlnv:
  "st \<in> set (rmatch VLNV_RE (pre, s, [])) \<longleftrightarrow>
     (\<exists>n v t. name_ok n \<and> ver_ok v \<and> s = n @ '':'' @ v @ t \<and> st = (rev (n @ '':'' @ v) @ pre, t, [(''2'', v), (''1'', n)]))"
  (is "?L = ?R")
proof
  assume ?L
  then obtain n v t where "name_ok n" "ver_ok v" "s = n @ CHR '':'' # v @ t"
    "st = (rev v @ CHR '':'' # rev n @ pre, t, [(''2'', v), (''1'', n)])"
    unfolding VLNV_RE_def by (auto simp: mem_RSeq mem_RGrp mem_RChr mem_name mem_semver simp del: rmatch.simps)
  then show ?R by - (rule exI [of _ n], rule exI [of _ v], rule exI [of _ t], simp)
next
  assume ?R
  then obtain n v t where R: "name_ok n" "ver_ok v" "s = n @ '':'' @ v @ t"
    "st = (rev (n @ '':'' @ v) @ pre, t, [(''2'', v), (''1'', n)])" by blast
  have "(rev n @ pre, '':'' @ v @ t, []) \<in> set (rmatch vlnv_name (pre, s, []))" unfolding mem_name using R(1,3) by blast
  then have 1: "(rev n @ pre, '':'' @ v @ t, [(''1'', n)]) \<in> set (rmatch (RGrp ''1'' vlnv_name) (pre, s, []))"
    using R(3) by (force simp: mem_RGrp)
  have "(rev v @ CHR '':'' # rev n @ pre, t, [(''1'', n)]) \<in> set (rmatch semver (CHR '':'' # rev n @ pre, v @ t, [(''1'', n)]))"
    unfolding mem_semver using R(2) by blast
  then have "(rev v @ CHR '':'' # rev n @ pre, t, [(''2'', v), (''1'', n)]) \<in>
      set (rmatch (RGrp ''2'' semver) (CHR '':'' # rev n @ pre, v @ t, [(''1'', n)]))"
    by (force simp: mem_RGrp)
  then have "st \<in> set (rmatch (RSeq (RChr ((=) CHR '':'')) (RGrp ''2'' semver)) (rev n @ pre, '':'' @ v @ t, [(''1'', n)]))"
    using R(4) by (auto simp: mem_RSeq mem_RChr simp del: rmatch.simps)
  with 1 show ?L unfolding VLNV_RE_def by (rule mem_intros(1))
qed

definition name_char :: "char \<Rightarrow> bool" where
  "name_char c = (is_key c \<or> c = CHR '':'')"

lemma name_chars: "name_ok n \<Longrightarrow> \<exists>m. n = ''corejack'' @ m \<and> list_all name_char m"
proof -
  assume "name_ok n"
  then obtain ws where ws: "\<forall>w\<in>set ws. list_all is_key w" "n = ''corejack'' @ segs_text ws" by (auto simp: name_ok_def)
  have "list_all name_char (segs_text ws)" using ws(1) by (induction ws) (auto simp: name_char_def list_all_iff)
  with ws(2) show ?thesis by blast
qed

lemma ver_parts: "ver_ok v \<Longrightarrow> \<exists>a r. v = a @ CHR ''.'' # r \<and> list_all is_digit a \<and> a \<noteq> []"
  by (auto simp: ver_ok_def)

lemma dot_no_name: "\<not> name_char CHR ''.''" "\<not> is_digit CHR '':''" "\<not> is_digit CHR ''.''"
  by (simp_all add: name_char_def is_key_def is_alnum_def is_lower_bits is_digit_def is_upper_def is_lower_def code_def)

lemma digit_name: "is_digit c \<Longrightarrow> name_char c \<and> c \<noteq> CHR '':''"
  using dot_no_name(2) by (auto simp: name_char_def is_key_def is_alnum_def)

text \<open>The name and the first number end at the first dot, and the number starts at the last colon.\<close>

lemma name_unique:
  assumes "m @ CHR '':'' # a @ CHR ''.'' # r = m' @ CHR '':'' # a' @ CHR ''.'' # r'"
    and "list_all name_char m" "list_all name_char m'" "list_all is_digit a" "list_all is_digit a'"
  shows "m = m' \<and> a = a' \<and> r = r'"
proof -
  have cut: "takeWhile name_char (x @ CHR '':'' # b @ CHR ''.'' # q) = x @ CHR '':'' # b"
    "dropWhile name_char (x @ CHR '':'' # b @ CHR ''.'' # q) = CHR ''.'' # q"
    if "list_all name_char x" "list_all is_digit b" for x b q
  proof -
    have c: "name_char c" if "c \<in> set (x @ CHR '':'' # b)" for c
      using that \<open>list_all name_char x\<close> \<open>list_all is_digit b\<close> digit_name by (auto simp: list_all_iff name_char_def)
    have "takeWhile name_char ((x @ CHR '':'' # b) @ CHR ''.'' # q) = x @ CHR '':'' # b"
      by (rule takeWhile_append_stop) (use c dot_no_name(1) in auto)
    then show "takeWhile name_char (x @ CHR '':'' # b @ CHR ''.'' # q) = x @ CHR '':'' # b" by (simp only: append_assoc append_Cons)
    have "dropWhile name_char ((x @ CHR '':'' # b) @ CHR ''.'' # q) = CHR ''.'' # q"
      by (rule dropWhile_append_stop) (use c dot_no_name(1) in auto)
    then show "dropWhile name_char (x @ CHR '':'' # b @ CHR ''.'' # q) = CHR ''.'' # q" by (simp only: append_assoc append_Cons)
  qed
  have e: "m @ CHR '':'' # a = m' @ CHR '':'' # a'" "r = r'"
    using arg_cong [OF assms(1), of "takeWhile name_char"] arg_cong [OF assms(1), of "dropWhile name_char"] cut assms(2-5) by simp_all
  have "takeWhile ((\<noteq>) CHR '':'') (rev (x @ CHR '':'' # b)) = rev b" if "list_all is_digit b" for x b
    using takeWhile_append_stop [of "rev b" "(\<noteq>) CHR '':''" "CHR '':'' # rev x"] that digit_name by (auto simp: list_all_iff)
  from this [OF assms(4), of m] this [OF assms(5), of m'] e show ?thesis by simp
qed

lemma vlnv_name_unique:
  assumes "n @ '':'' @ v @ t = n' @ '':'' @ v' @ t'" "name_ok n" "name_ok n'" "ver_ok v" "ver_ok v'"
  shows "n = n'"
proof -
  obtain m m' where m: "n = ''corejack'' @ m" "list_all name_char m" "n' = ''corejack'' @ m'" "list_all name_char m'"
    using assms(2,3) name_chars by metis
  obtain a r a' r' where a: "v = a @ CHR ''.'' # r" "list_all is_digit a" "v' = a' @ CHR ''.'' # r'" "list_all is_digit a'"
    using assms(4,5) ver_parts by metis
  have "m @ CHR '':'' # a @ CHR ''.'' # (r @ t) = m' @ CHR '':'' # a' @ CHR ''.'' # (r' @ t')" using assms(1) m a by simp
  from name_unique [OF this m(2,4) a(2,4)] m show ?thesis by simp
qed

lemma first_concat_only:
  "x \<in> set xs \<Longrightarrow> f x \<noteq> [] \<Longrightarrow> (\<And>y. y \<in> set xs \<Longrightarrow> f y \<noteq> [] \<Longrightarrow> y = x) \<Longrightarrow> first (concat (map f xs)) = first (f x)"
proof (induction xs)
  case (Cons z xs)
  show ?case
  proof (cases "f z = []")
    case True
    then have "x \<in> set xs" using Cons.prems(1,2) by auto
    then have "first (concat (map f xs)) = first (f x)"
      by (rule Cons.IH [OF _ Cons.prems(2)]) (meson Cons.prems(3) list.set_intros(2))
    with True show ?thesis by simp
  next
    case False
    then have "z = x" by (rule Cons.prems(3) [OF list.set_intros(1)])
    with False show ?thesis by (cases "f z") (auto simp: first_append)
  qed
qed simp

lemma first_semver:
  assumes "ver_ok v" "digit_free t"
  shows "first (rmatch semver (pre, v @ t, g)) = Some (rev v @ pre, t, g)"
proof -
  from assms(1) obtain a b c where v: "v = a @ ''.'' @ b @ ''.'' @ c" "a \<noteq> []" "b \<noteq> []" "c \<noteq> []"
    "list_all is_digit a" "list_all is_digit b" "list_all is_digit c" unfolding ver_ok_def by blast
  have "first (rmatch semver (pre, v @ t, g)) = Some (rev c @ CHR ''.'' # rev b @ CHR ''.'' # rev a @ pre, t, g)"
    unfolding semver_def rseq.simps
    by (rule first_seq [OF first_plus [of _ a "''.'' @ b @ ''.'' @ c @ t"] first_seq [OF first_chr first_seq [OF
        first_plus [of _ b "''.'' @ c @ t"] first_seq [OF first_chr first_plus [of _ c t]]]]])
      (use v assms(2) dot_no_name(3) in \<open>auto simp: digit_free_def\<close>)
  then show ?thesis by (simp add: v(1))
qed

lemma first_vlnv:
  assumes "name_ok n" "ver_ok v" "digit_free t"
  shows "first (rmatch VLNV_RE (pre, n @ '':'' @ v @ t, [])) = Some (rev (n @ '':'' @ v) @ pre, t, [(''2'', v), (''1'', n)])"
proof -
  let ?q = "RSeq (RChr ((=) CHR '':'')) (RGrp ''2'' semver)" and ?s = "n @ '':'' @ v @ t"
  let ?st = "(rev n @ pre, '':'' @ v @ t, [(''1'', n)])"
  have q: "first (rmatch ?q ?st) = Some (rev v @ CHR '':'' # rev n @ pre, t, [(''2'', v), (''1'', n)])"
    by (rule first_seq [OF first_chr first_grp [OF first_semver [OF assms(2,3)]]]) simp_all
  have "(rev n @ pre, '':'' @ v @ t, []) \<in> set (rmatch vlnv_name (pre, ?s, []))" unfolding mem_name using assms(1) by blast
  then have st: "?st \<in> set (rmatch (RGrp ''1'' vlnv_name) (pre, ?s, []))" by (force simp: mem_RGrp)
  have only: "x = ?st" if x: "x \<in> set (rmatch (RGrp ''1'' vlnv_name) (pre, ?s, []))" "rmatch ?q x \<noteq> []" for x
  proof -
    from x(2) obtain y where "y \<in> set (rmatch ?q x)" by (metis list.set_intros(1) neq_Nil_conv)
    from x(1) obtain p' s' g' where "(p', s', g') \<in> set (rmatch vlnv_name (pre, ?s, []))"
      "x = (p', s', (''1'', take (length ?s - length s') ?s) # g')" unfolding mem_RGrp by blast
    moreover from this(1) obtain n' where "name_ok n'" "?s = n' @ s'" "p' = rev n' @ pre" "g' = []" unfolding mem_name by blast
    moreover from this(2) have "take (length ?s - length s') ?s = n'" by simp
    ultimately obtain n' t' where n': "name_ok n'" "?s = n' @ t'" "x = (rev n' @ pre, t', [(''1'', n')])" by metis
    moreover from \<open>y \<in> set (rmatch ?q x)\<close> n'(3) obtain v' u' where "t' = '':'' @ v' @ u'" "ver_ok v'"
      by (auto simp: mem_RSeq mem_RChr mem_RGrp mem_semver simp del: rmatch.simps)
    ultimately show ?thesis using vlnv_name_unique [of n v t n' v' u'] assms(1,2) by simp
  qed
  have "first (rmatch VLNV_RE (pre, ?s, [])) = first (rmatch ?q ?st)"
    unfolding VLNV_RE_def rmatch.simps(3) by (rule first_concat_only [OF st _ only]) (use q in auto)
  with q show ?thesis by simp
qed

section \<open>Texts as versioned names with text between them\<close>

definition vlnv_here :: "string \<Rightarrow> bool" where
  "vlnv_here s = (\<exists>n v t. name_ok n \<and> ver_ok v \<and> s = n @ '':'' @ v @ t)"

lemma vlnv_none: "\<not> vlnv_here s \<Longrightarrow> rmatch VLNV_RE (pre, s, []) = []"
  using mem_vlnv [of _ pre s] by (metis list.set_intros(1) neq_Nil_conv vlnv_here_def)

lemma vlnv_some: "vlnv_here s \<Longrightarrow> rmatch VLNV_RE (pre, s, []) \<noteq> []"
  unfolding vlnv_here_def using mem_vlnv [of _ pre s] by fastforce

text \<open>The text in front of each name, the name and its version; and the text after the last one.\<close>

fun vt :: "(string \<times> string \<times> string) list \<Rightarrow> string \<Rightarrow> string" where
  "vt [] rest = rest"
| "vt ((k, n, v) # segs) rest = k @ n @ '':'' @ v @ vt segs rest"

fun wf_vt :: "(string \<times> string \<times> string) list \<Rightarrow> string \<Rightarrow> bool" where
  "wf_vt [] rest = (\<forall>x y. rest = x @ y \<longrightarrow> \<not> vlnv_here y)"
| "wf_vt ((k, n, v) # segs) rest =
     (name_ok n \<and> ver_ok v \<and> digit_free (vt segs rest) \<and>
      (\<forall>x y. k = x @ y \<longrightarrow> y \<noteq> [] \<longrightarrow> \<not> vlnv_here (y @ n @ '':'' @ v @ vt segs rest)) \<and> wf_vt segs rest)"

lemma segments_vt:
  "wf_vt segs rest \<Longrightarrow> segments VLNV_RE pre (vt segs rest) =
     (map (\<lambda>(k, n, v). (k, n @ '':'' @ v, [(''2'', v), (''1'', n)])) segs, rest)"
proof (induction segs rest arbitrary: pre rule: vt.induct)
  case (1 rest)
  have "re_search_from VLNV_RE pre rest = None"
  proof (cases "re_search_from VLNV_RE pre rest")
    case (Some x)
    then obtain pre' t st where x: "re_search_from VLNV_RE pre rest = Some (pre', t, st)" by (cases x) auto
    from re_search_Some [OF x] obtain u where "rest = u @ t" "rmatch VLNV_RE (pre', t, []) \<noteq> []" by fastforce
    with 1 vlnv_none [of t pre'] show ?thesis by auto
  qed simp
  then show ?case by (simp add: segments.simps)
next
  case (2 k n v segs rest)
  let ?s = "n @ '':'' @ v @ vt segs rest"
  have f: "first (rmatch VLNV_RE (rev k @ pre, ?s, [])) = Some (rev (n @ '':'' @ v) @ rev k @ pre, vt segs rest, [(''2'', v), (''1'', n)])"
    using "2.prems" by (intro first_vlnv) simp_all
  then have "re_search_from VLNV_RE (rev k @ pre) ?s =
      Some (rev k @ pre, ?s, (rev (n @ '':'' @ v) @ rev k @ pre, vt segs rest, [(''2'', v), (''1'', n)]))"
    using re_search_here [of VLNV_RE "rev k @ pre" ?s] by (cases "rmatch VLNV_RE (rev k @ pre, ?s, [])") auto
  moreover have "re_search_from VLNV_RE pre (k @ ?s) = re_search_from VLNV_RE (rev k @ pre) ?s"
    using "2.prems" by (intro re_search_skip vlnv_none) simp
  ultimately show ?case using "2.IH" [of "rev (n @ '':'' @ v) @ rev k @ pre"] "2.prems"
    by (simp add: segments.simps [of _ _ "k @ n @ CHR '':'' # v @ vt segs rest"])
qed

lemma ver_extend: "ver_ok v \<Longrightarrow> list_all is_digit d \<Longrightarrow> ver_ok (v @ d)"
proof -
  assume "ver_ok v" and d: "list_all is_digit d"
  then obtain a b c where "v = a @ ''.'' @ b @ ''.'' @ c" "a \<noteq> []" "b \<noteq> []" "c \<noteq> []"
    "list_all is_digit a" "list_all is_digit b" "list_all is_digit c" unfolding ver_ok_def by blast
  with d show ?thesis unfolding ver_ok_def
    by - (rule exI [of _ a], rule exI [of _ b], rule exI [of _ "c @ d"], simp)
qed

lemma vlnv_longest:
  assumes "vlnv_here s"
  obtains n v t where "name_ok n" "ver_ok v" "s = n @ '':'' @ v @ t" "digit_free t"
proof -
  from assms obtain n v t where "name_ok n" "ver_ok v" "s = n @ '':'' @ v @ t" unfolding vlnv_here_def by blast
  then have "ver_ok (v @ takeWhile is_digit t)" "s = n @ '':'' @ (v @ takeWhile is_digit t) @ dropWhile is_digit t"
    by (auto intro!: ver_extend simp: list_all_iff dest: set_takeWhileD)
  moreover have "digit_free (dropWhile is_digit t)" 
    using takeWhile_dropWhile_hd [of is_digit t] by (cases "dropWhile is_digit t") (auto simp: digit_free_def)
  ultimately show thesis using \<open>name_ok n\<close> that by blast
qed

lemma vt_exists: "\<exists>segs rest. t = vt segs rest \<and> wf_vt segs rest"
proof (induction "length t" arbitrary: t rule: less_induct)
  case less
  let ?P = "\<lambda>m. \<exists>x y. t = x @ y \<and> vlnv_here y \<and> length x = m"
  show ?case
  proof (cases "\<exists>m. ?P m")
    case False
    then show ?thesis by (intro exI [of _ "[]"] exI [of _ t]) auto
  next
    case True
    define m where "m = (LEAST m. ?P m)"
    have "?P m" unfolding m_def using True by (rule LeastI_ex)
    then obtain x y where xy: "t = x @ y" "vlnv_here y" "length x = m" by blast
    from vlnv_longest [OF xy(2)] obtain n v u where y: "name_ok n" "ver_ok v" "y = n @ '':'' @ v @ u" "digit_free u" .
    have "length u < length t" using xy(1) y(3) by simp
    from less [OF this] obtain segs rest where u: "u = vt segs rest" "wf_vt segs rest" by blast
    have "\<not> vlnv_here (b @ y)" if "x = a @ b" "b \<noteq> []" for a b
    proof
      assume "vlnv_here (b @ y)"
      then have "?P (length a)" using xy(1) that(1) by auto
      then have "m \<le> length a" unfolding m_def by (rule Least_le)
      then show False using xy(3) that by (cases b) auto
    qed
    then have "wf_vt ((x, n, v) # segs) rest" using y u by simp
    moreover have "t = vt ((x, n, v) # segs) rest" using xy(1) y(3) u(1) by simp
    ultimately show ?thesis by blast
  qed
qed

text \<open>
  A match that starts in front of a versioned name and reaches into it has that name and its first
  number at its end; so it is there whatever the version is.
\<close>

lemma append_cut:
  assumes "x @ a = b @ c"
  obtains (inside) w where "x = b @ w" "c = w @ a" | (across) w where "w \<noteq> []" "b = x @ w" "a = w @ c"
  using assms unfolding append_eq_append_conv2 by (metis append_Nil2 self_append_conv2)

lemma corejack_no_overlap:
  assumes "''corejack'' = x @ z" "x \<noteq> []" "z \<noteq> []" "z @ r = ''corejack'' @ r'"
  shows False
proof -
  have "length x + length z = 8" using arg_cong [OF assms(1), of length] by simp
  then have "length x < 8" "0 < length x" using assms(2,3) by (cases z, simp, simp, cases x, simp, simp)
  moreover have "z = drop (length x) ''corejack''" using assms(1) by (metis append_eq_conv_conj)
  moreover have "k < 8 \<Longrightarrow> 0 < k \<Longrightarrow> k \<in> {1, 2, 3, 4, 5, 6, 7 :: nat}" for k by auto
  ultimately show False using assms(4) by fastforce
qed

lemma vlnv_reaches:
  assumes "x \<noteq> []" "name_ok n" "ver_ok v'" "vlnv_here (x @ n @ '':'' @ v' @ t')" "ver_ok v"
  shows "vlnv_here (x @ n @ '':'' @ v @ t)"
proof -
  obtain n1 v1 t1 where h: "name_ok n1" "ver_ok v1" "x @ n @ '':'' @ v' @ t' = n1 @ '':'' @ v1 @ t1"
    using assms(4) unfolding vlnv_here_def by blast
  obtain m where m: "n = ''corejack'' @ m" "list_all name_char m" using name_chars [OF assms(2)] by blast
  obtain m1 where m1: "n1 = ''corejack'' @ m1" "list_all name_char m1" using name_chars [OF h(1)] by blast
  have "x @ (n @ '':'' @ v' @ t') = (n1 @ '':'' @ v1) @ t1" using h(3) by simp
  then show ?thesis
  proof (cases rule: append_cut)
    case (inside x2)
    from inside(1) have "x @ n @ '':'' @ v @ t = n1 @ '':'' @ v1 @ (x2 @ n @ '':'' @ v @ t)" by simp
    with h(1,2) show ?thesis unfolding vlnv_here_def by blast
  next
    case (across y)
    have hd: "hd y = CHR ''c''" using across(1,3) m(1) by (cases y) auto
    obtain z where z: "n1 = x @ z" "z \<noteq> []"
    proof -
      have "set ('':'' @ v1) \<subseteq> {c. is_digit c \<or> c = CHR ''.'' \<or> c = CHR '':''}"
        using h(2) by (auto simp: ver_ok_def list_all_iff)
      moreover have "\<not> is_digit CHR ''c''" by code_simp
      ultimately have "CHR ''c'' \<notin> set ('':'' @ v1)" by auto
      moreover have "hd y \<in> set y" using across(1) by simp
      ultimately have "\<not> suffix y ('':'' @ v1)" using hd by (metis set_mono_suffix subsetD)
      then have ns: "\<not> suffix y ('':'' @ v1)" .
      have "x @ y = n1 @ '':'' @ v1" using across(2) by simp
      then show thesis
      proof (cases rule: append_cut)
        case (inside w)
        with ns show ?thesis by (auto simp: suffix_def)
      qed (rule that)
    qed
    have eq: "z @ '':'' @ v1 @ t1 = n @ '':'' @ v' @ t'" using h(3) z(1) by simp
    show ?thesis
    proof (cases "length x < 8")
      case True
      have "x @ z = ''corejack'' @ m1" using z(1) m1(1) by simp
      then obtain w where "''corejack'' = x @ w" "w \<noteq> []" "z = w @ m1"
      proof (cases rule: append_cut)
        case (inside w)
        with True show ?thesis by simp
      qed (rule that)
      with corejack_no_overlap [of x w "m1 @ '':'' @ v1 @ t1" "m @ '':'' @ v' @ t'"] assms(1) eq m(1) show ?thesis by simp
    next
      case False
      have "x @ z = ''corejack'' @ m1" using z(1) m1(1) by simp
      then obtain m2 where "m1 = m2 @ z"
      proof (cases rule: append_cut)
        case (across w)
        then have "length ''corejack'' = length x + length w" by (metis length_append)
        with False across(1) show ?thesis by (cases w) auto
      qed (rule that)
      then have zc: "list_all name_char z" using m1(2) by simp
      obtain a r a' r' where a: "v1 = a @ CHR ''.'' # r" "list_all is_digit a" "v' = a' @ CHR ''.'' # r'" "list_all is_digit a'"
        using h(2) assms(3) ver_parts by metis
      have "list_all name_char n" using m by (auto simp: name_char_def is_key_def is_alnum_def is_lower_bits)
      then have "z = n" using name_unique [OF _ zc _ a(2,4), of "r @ t1" n "r' @ t'"] eq a(1,3) by simp
      then have "name_ok (x @ n)" using z(1) h(1) by simp
      then show ?thesis unfolding vlnv_here_def using assms(5) by (metis append_assoc)
    qed
  qed
qed

lemma wf_vt_version:
  "wf_vt segs rest \<Longrightarrow> ver_ok v' \<Longrightarrow> wf_vt (map (\<lambda>(k, n, _). (k, n, v')) segs) rest"
proof (induction segs rest rule: vt.induct)
  case (2 k n v segs rest)
  have "digit_free (vt (map (\<lambda>(k, n, _). (k, n, v')) segs) rest)"
  proof (cases segs)
    case (Cons s segs')
    obtain k2 n2 v2 where "s = (k2, n2, v2)" by (cases s)
    moreover have "digit_free (k2 @ n2 @ t) \<Longrightarrow> n2 \<noteq> [] \<Longrightarrow> digit_free (k2 @ n2 @ t')" for t t'
      by (cases k2) (auto simp: digit_free_def)
    moreover have "name_ok n2 \<Longrightarrow> n2 \<noteq> []" using name_chars by blast
    ultimately show ?thesis using "2.prems"(1) Cons by (auto simp del: append_assoc simp: append_assoc)
  qed (use "2.prems" in simp)
  moreover have "\<not> vlnv_here (y @ n @ '':'' @ v' @ t')" if "k = x @ y" "y \<noteq> []" for x y t'
    using vlnv_reaches [OF that(2) _ "2.prems"(2)] "2.prems"(1) that by (metis wf_vt.simps(2))
  ultimately show ?case using 2 by simp
qed simp

section \<open>Checking and rewriting\<close>

definition set_versions :: "string \<Rightarrow> (string \<times> string \<times> string) list \<Rightarrow> (string \<times> string \<times> string) list" where
  "set_versions v segs = map (\<lambda>(k, n, _). (k, n, v)) segs"

lemma subn_vt:
  assumes "wf_vt segs rest"
  shows "re_subn VLNV_RE (new_vlnv v) (vt segs rest) = (vt (set_versions v segs) rest, length segs)"
proof -
  have "concat (map (\<lambda>(skip, m, g). skip @ new_vlnv v m g) (map (\<lambda>(k, n, v). (k, n @ '':'' @ v, [(''2'', v), (''1'', n)])) segs)) @ rest =
      vt (set_versions v segs) rest"
    by (induction segs) (auto simp: set_versions_def new_vlnv_def group_def)
  then show ?thesis unfolding re_subn_def segments_vt [OF assms] prod.case by (simp del: map_map)
qed

lemma versions_vt: "wf_vt segs rest \<Longrightarrow> versions_in (vt segs rest) = map (snd \<circ> snd) segs"
  by (auto simp: versions_in_def re_finditer_def segments_vt group_def)

lemma set_versions_same: "set (map (snd \<circ> snd) segs) \<subseteq> {v} \<Longrightarrow> set_versions v segs = segs"
  by (induction segs) (auto simp: set_versions_def)

lemma add_versions_keys:
  "fst ` set (foldl (\<lambda>d v. add_version path v d) d vs) = fst ` set d \<union> set vs"
  "distinct (map fst d) \<Longrightarrow> distinct (map fst (foldl (\<lambda>d v. add_version path v d) d vs))"
  by (induction vs arbitrary: d) (auto simp: add_version_def dom_update distinct_update)

lemma find_versions_keys:
  assumes "\<forall>p\<in>set paths. lookup_file r p = Some (f p)"
  shows "\<exists>d'. find_versions r paths d = Inr d' \<and> fst ` set d' = fst ` set d \<union> (\<Union>p\<in>set paths. set (versions_in (f p))) \<and>
    (distinct (map fst d) \<longrightarrow> distinct (map fst d'))"
  using assms
proof (induction paths arbitrary: d)
  case (Cons p paths)
  then show ?case using Cons.IH [of "foldl (\<lambda>d v. add_version p v d) d (versions_in (f p))"]
    by (auto simp: read_text_def add_versions_keys)
qed simp

lemma one_key: "distinct (map fst d) \<Longrightarrow> fst ` set d = {v} \<longleftrightarrow> (\<exists>ps. d = [(v, ps)])"
proof (cases d)
  case (Cons x d1)
  assume "distinct (map fst d)"
  then have "fst ` set d = {v} \<longleftrightarrow> fst x = v \<and> d1 = []" using Cons by (cases d1) auto
  then show ?thesis using Cons by (cases x) auto
qed simp

lemma detect_iff:
  assumes "\<forall>p\<in>set paths. lookup_file r p = Some (f p)"
  shows "detect_current_version r paths = Inr v \<longleftrightarrow> (\<Union>p\<in>set paths. set (versions_in (f p))) = {v}"
proof -
  obtain d where d: "find_versions r paths [] = Inr d" "fst ` set d = (\<Union>p\<in>set paths. set (versions_in (f p)))" "distinct (map fst d)"
    using find_versions_keys [OF assms, of "[]"] by auto
  have "detect_current_version r paths = Inr v \<longleftrightarrow> (\<exists>ps. d = [(v, ps)])"
  proof (cases d)
    case (Cons x d1)
    obtain w ps where x: "x = (w, ps)" by (cases x)
    show ?thesis
    proof (cases d1)
      case (Cons y d2)
      with \<open>d = x # d1\<close> x show ?thesis by (simp add: detect_current_version_def d(1) bindr_eq_Inr)
    qed (use \<open>d = x # d1\<close> x in \<open>simp add: detect_current_version_def d(1)\<close>)
  qed (simp add: detect_current_version_def d(1))
  then show ?thesis using one_key [OF d(3)] d(2) by simp
qed

definition bumped :: "string \<Rightarrow> string \<Rightarrow> string" where
  "bumped v t = fst (re_subn VLNV_RE (new_vlnv v) t)"

lemma bumped_cr_free: "CHR 0x0D \<notin> set t \<Longrightarrow> CHR 0x0D \<notin> set v \<Longrightarrow> CHR 0x0D \<notin> set (bumped v t)"
proof -
  obtain segs rest where t: "t = vt segs rest" "wf_vt segs rest" using vt_exists by blast
  have "CHR 0x0D \<notin> set (vt segs rest) \<Longrightarrow> CHR 0x0D \<notin> set v \<Longrightarrow> CHR 0x0D \<notin> set (vt (set_versions v segs) rest)"
    by (induction segs rest rule: vt.induct) (auto simp: set_versions_def)
  then show "CHR 0x0D \<notin> set t \<Longrightarrow> CHR 0x0D \<notin> set v \<Longrightarrow> ?thesis" using t by (simp add: bumped_def subn_vt)
qed

text \<open>A rewritten file keeps its place in the list of files, so that the directory stays as it was.\<close>

lemma rewrite_run:
  assumes "lookup_file r p = Some t" "plain_path p" "CHR 0x0D \<notin> set t" "CHR 0x0D \<notin> set v"
  shows "\<exists>r' n. rewrite p v r = (r', Inr n) \<and> lookup_file r' p = Some (bumped v t) \<and> root r' = root r \<and>
    map fst (files r') = map fst (files r) \<and> (\<forall>q. plain_path q \<longrightarrow> q \<noteq> p \<longrightarrow> lookup_file r' q = lookup_file r q)"
proof -
  obtain segs rest where t: "t = vt segs rest" "wf_vt segs rest" using vt_exists by blast
  let ?t = "vt (set_versions v segs) rest"
  have b: "bumped v t = ?t" by (simp add: bumped_def subn_vt t)
  have same: "segs = [] \<Longrightarrow> ?t = t" by (simp add: t(1) set_versions_def)
  have run: "rewrite p v r = (if 0 < length segs \<and> ?t \<noteq> t then write_text r p ?t else r, Inr (length segs))"
    using assms(1) t by (simp add: rewrite_def look_def read_text_def subn_vt)
  have "p \<in> fst ` set (files r)" using assms(1,2) by (force simp: lookup_plain plain_path_def dest: map_of_SomeD)
  then have "map fst (files (write_text r p ?t)) = map fst (files r)" by (simp add: write_text_def keys_update)
  moreover have "universal_newlines ?t = ?t" using bumped_cr_free [OF assms(3,4)] b by (simp add: universal_newlines_id)
  ultimately show ?thesis using run assms(1,2) same b by (auto simp: checkout.get_put)
qed

lemma rewrite_all_run:
  assumes "\<forall>p\<in>set paths. lookup_file r p = Some (f p) \<and> plain_path p \<and> CHR 0x0D \<notin> set (f p) \<and> prefix (root r) p"
    and "distinct paths" "CHR 0x0D \<notin> set v"
  shows "\<exists>r' out n. rewrite_all v paths k r = (r', out, Inr n) \<and> root r' = root r \<and> map fst (files r') = map fst (files r) \<and>
    (\<forall>p\<in>set paths. lookup_file r' p = Some (bumped v (f p))) \<and>
    (\<forall>q. plain_path q \<longrightarrow> q \<notin> set paths \<longrightarrow> lookup_file r' q = lookup_file r q)"
  using assms
proof (induction paths arbitrary: r k)
  case (Cons p paths)
  then obtain r1 n where 1: "rewrite p v r = (r1, Inr n)" "lookup_file r1 p = Some (bumped v (f p))" "root r1 = root r"
    "map fst (files r1) = map fst (files r)" "\<forall>q. plain_path q \<longrightarrow> q \<noteq> p \<longrightarrow> lookup_file r1 q = lookup_file r q"
    using rewrite_run [of r p "f p" v] by auto
  have "\<forall>q\<in>set paths. lookup_file r1 q = Some (f q) \<and> plain_path q \<and> CHR 0x0D \<notin> set (f q) \<and> prefix (root r1) q"
    using Cons.prems(1,2) 1(3,5) by auto
  then obtain r2 out m where 2: "rewrite_all v paths (k + n) r1 = (r2, out, Inr m)" "root r2 = root r1"
    "map fst (files r2) = map fst (files r1)" "\<forall>q\<in>set paths. lookup_file r2 q = Some (bumped v (f q))"
    "\<forall>q. plain_path q \<longrightarrow> q \<notin> set paths \<longrightarrow> lookup_file r2 q = lookup_file r1 q"
    using Cons.IH [of r1 "k + n"] Cons.prems(2,3) by auto
  have "lookup_file r2 p = Some (bumped v (f p))" using 1(2) 2(5) Cons.prems(1,2) by simp
  moreover have "prefix (root r1) p" using Cons.prems(1) 1(3) by simp
  ultimately show ?case using 1 2 by (cases n) (auto simp: look_def relative_to_root_def)
qed simp

lemma collect_distinct: "distinct (collect_files r)"
  by (auto simp: collect_files_def CORE_FILES_def glob_ext_def entries_def distinct_map inj_on_def)

lemma collect_names:
  assumes "wf_repo r" "p \<in> set (CORE_FILES r)"
  shows "list_all file_name p \<and> prefix (root r) p"
proof -
  from assms(2) obtain c q where c: "p = root r @ [c]" "q \<in> fst ` set (files r)" "strict_prefix (root r) q" "q ! length (root r) = c"
    by (auto simp: CORE_FILES_def glob_ext_def entries_iff)
  have "list_all file_name q" using assms(1) c(2) by (auto simp: wf_repo_def list_all_iff)
  moreover have "c \<in> set q" using c(3,4) prefix_length_less [OF c(3)] by auto
  ultimately have "file_name c" by (simp add: list_all_iff)
  then show ?thesis using wf_root [OF assms(1)] c(1) by simp
qed

lemma collect_plain: "wf_repo r \<Longrightarrow> p \<in> set (CORE_FILES r) \<Longrightarrow> plain_path p \<and> prefix (root r) p"
  using collect_names plain_names by blast

lemma collect_ok:
  assumes "wf_repo r" "p \<in> set (collect_files r)"
  shows "\<exists>t. lookup_file r p = Some t \<and> CHR 0x0D \<notin> set t"
  using assms wf_repo_text by (auto simp: collect_files_def is_file_def)

lemma collect_same:
  assumes "wf_repo r" "root r' = root r" "map fst (files r') = map fst (files r)"
  shows "collect_files r' = collect_files r"
proof -
  have c: "CORE_FILES r' = CORE_FILES r" by (simp add: CORE_FILES_def glob_ext_def entries_keys assms(2,3))
  have "is_file r' p = is_file r p" if "p \<in> set (CORE_FILES r)" for p
  proof -
    have "''..'' \<notin> set p" using collect_plain [OF assms(1) that] by (simp add: plain_path_def)
    moreover have "fst ` set (files r') = fst ` set (files r)" using assms(3) by (metis list.set_map)
    ultimately show ?thesis by (simp add: is_file_def lookup_plain map_of_eq_None_iff)
  qed
  then show ?thesis by (auto simp: collect_files_def c intro: filter_cong)
qed

lemma semver_shape:
  assumes "re_match SEMVER_RE v \<noteq> None"
  shows "\<exists>w t. ver_ok w \<and> v = w @ t \<and> (t = [] \<or> t = [NL])"
proof -
  from assms have "rmatch SEMVER_RE ([], v, []) \<noteq> []" by (simp add: re_match_def split: list.splits)
  then obtain st where "st \<in> set (rmatch SEMVER_RE ([], v, []))" by (metis list.set_intros(1) neq_Nil_conv)
  then show ?thesis by (auto simp: SEMVER_RE_def mem_RSeq mem_anchors mem_semver at_eol_def simp del: rmatch.simps)
qed

lemma semver_no_cr: "re_match SEMVER_RE v \<noteq> None \<Longrightarrow> CHR 0x0D \<notin> set v"
proof -
  have "\<not> is_digit (CHR 0x0D)" by code_simp
  then show "re_match SEMVER_RE v \<noteq> None \<Longrightarrow> ?thesis" using semver_shape [of v] by (auto simp: ver_ok_def list_all_iff)
qed

text \<open>
  (C9) A bump does exactly what it says. After a successful run with \<^verbatim>\<open>--to v\<close> on a well-formed
  checkout, every FuseSoC file has the version of each of its CoreJack names set to \<open>v\<close> and is
  otherwise as before, no other file has changed, and the drift check passes with the version \<open>v\<close>.
\<close>

theorem bump_then_check:
  assumes "bump_main False (Some v) r = (r', out, Inr ())" "wf_repo r" "NL \<notin> set v"
  shows "(\<forall>p\<in>set (collect_files r). \<exists>segs rest. wf_vt segs rest \<and> lookup_file r p = Some (vt segs rest) \<and>
      lookup_file r' p = Some (vt (set_versions v segs) rest)) \<and>
    (\<forall>q. plain_path q \<longrightarrow> q \<notin> set (collect_files r) \<longrightarrow> lookup_file r' q = lookup_file r q) \<and>
    bump_main True None r' = (r', [''Current CoreJack VLNV version: '' @ v, ''OK (all .core files agree)''], Inr ())"
proof -
  let ?ps = "collect_files r"
  obtain f where f: "\<forall>p\<in>set ?ps. lookup_file r p = Some (f p) \<and> CHR 0x0D \<notin> set (f p)" using collect_ok [OF assms(2)] by metis
  have fp: "\<forall>p\<in>set ?ps. lookup_file r p = Some (f p) \<and> plain_path p \<and> CHR 0x0D \<notin> set (f p) \<and> prefix (root r) p"
    using f collect_plain [OF assms(2)] by (auto simp: collect_files_def)
  have "\<forall>p. \<exists>sr. f p = vt (fst sr) (snd sr) \<and> wf_vt (fst sr) (snd sr)" using vt_exists by (metis fst_conv snd_conv)
  then obtain g where g: "\<And>p. f p = vt (fst (g p)) (snd (g p)) \<and> wf_vt (fst (g p)) (snd (g p))" by metis
  define segs rest where "segs p = fst (g p)" and "rest p = snd (g p)" for p
  have fd: "f p = vt (segs p) (rest p) \<and> wf_vt (segs p) (rest p)" for p using g by (simp add: segs_def rest_def)
  from assms(1) obtain current where cur: "?ps \<noteq> []" "detect_current_version r ?ps = Inr current" "re_match SEMVER_RE v \<noteq> None"
    and run: "v = current \<and> r' = r \<or> (\<exists>out' n. rewrite_all v ?ps 0 r = (r', out', Inr n))"
    by (auto simp: bump_main_def Let_def split: if_splits sum.splits prod.splits)
  have v: "ver_ok v" "CHR 0x0D \<notin> set v" using semver_shape [OF cur(3)] semver_no_cr [OF cur(3)] assms(3) by auto
  have cur': "(\<Union>p\<in>set ?ps. set (map (snd \<circ> snd) (segs p))) = {current}"
    using detect_iff [of ?ps r f current] f cur(2) fd versions_vt by simp
  have b: "bumped v (f p) = vt (set_versions v (segs p)) (rest p)" for p using fd by (simp add: bumped_def subn_vt)
  have after: "root r' = root r \<and> map fst (files r') = map fst (files r) \<and>
      (\<forall>p\<in>set ?ps. lookup_file r' p = Some (vt (set_versions v (segs p)) (rest p))) \<and>
      (\<forall>q. plain_path q \<longrightarrow> q \<notin> set ?ps \<longrightarrow> lookup_file r' q = lookup_file r q)"
    using run
  proof
    assume same: "v = current \<and> r' = r"
    then have "set_versions v (segs p) = segs p" if "p \<in> set ?ps" for p
      using cur' that by (intro set_versions_same) blast
    with same f fd show ?thesis by simp
  next
    assume "\<exists>out' n. rewrite_all v ?ps 0 r = (r', out', Inr n)"
    with rewrite_all_run [OF fp collect_distinct v(2), of 0] b show ?thesis by auto
  qed
  have "wf_vt (set_versions v (segs p)) (rest p)" for p using wf_vt_version [OF _ v(1)] fd by (simp add: set_versions_def)
  then have "versions_in (vt (set_versions v (segs p)) (rest p)) = map (\<lambda>_. v) (segs p)" for p
    by (auto simp: versions_vt set_versions_def)
  moreover have "\<exists>p\<in>set ?ps. segs p \<noteq> []" using cur' by (metis (no_types, lifting) SUP_bot_conv(2) insert_not_empty list.map_disc_iff set_empty)
  ultimately have "(\<Union>p\<in>set ?ps. set (versions_in (vt (set_versions v (segs p)) (rest p)))) = {v}"
    by (auto simp: image_constant_conv)
  then have "detect_current_version r' ?ps = Inr v"
    using detect_iff [of ?ps r' "\<lambda>p. vt (set_versions v (segs p)) (rest p)" v] after by blast
  moreover have "collect_files r' = ?ps" using collect_same [OF assms(2)] after by blast
  ultimately have "bump_main True None r' = (r', [''Current CoreJack VLNV version: '' @ v, ''OK (all .core files agree)''], Inr ())"
    using cur(1) by (simp add: bump_main_def)
  with after f fd show ?thesis by metis
qed

text \<open>A final line feed passes for a version.\<close>

lemma semver_newline: "re_match SEMVER_RE (''1.2.3'' @ [NL]) \<noteq> None"
  by code_simp

text \<open>
  A run that fails has changed nothing: on a well-formed checkout every error is found before
  the first file is written.
\<close>

theorem bump_failure:
  assumes "bump_main check to r = (r', out, Inl e)" "wf_repo r"
  shows "r' = r"
proof (rule ccontr)
  assume "r' \<noteq> r"
  with assms(1) obtain v out' where v: "re_match SEMVER_RE v \<noteq> None" "rewrite_all v (collect_files r) 0 r = (r', out', Inl e)"
    by (auto simp: bump_main_def Let_def split: if_splits sum.splits prod.splits option.splits)
  have "\<forall>p\<in>set (collect_files r). \<exists>t. lookup_file r p = Some t \<and> CHR 0x0D \<notin> set t" using collect_ok [OF assms(2)] by blast
  then obtain f where "\<forall>p\<in>set (collect_files r). lookup_file r p = Some (f p) \<and> CHR 0x0D \<notin> set (f p)" by metis
  then have "\<forall>p\<in>set (collect_files r). lookup_file r p = Some (f p) \<and> plain_path p \<and> CHR 0x0D \<notin> set (f p) \<and> prefix (root r) p"
    using collect_plain [OF assms(2)] by (auto simp: collect_files_def)
  from rewrite_all_run [OF this collect_distinct semver_no_cr [OF v(1)], of 0] v(2) show False by auto
qed

section \<open>Witnesses\<close>

definition bump_demo :: repo where
  "bump_demo = \<lparr>root = [''repo''], files =
     [([''repo'', ''corejack.core''], unlines [''name: corejack:corejack:platform:0.1.0'', ''depend: [corejack:ip:uart:0.1.0]'']),
      ([''repo'', ''README''], unlines [''corejack:ip:uart:0.1.0''])]\<rparr>"

lemma bump_demo_wf: "wf_repo bump_demo"
  by code_simp

lemma bump_demo_run: "snd (snd (bump_main False (Some ''0.2.0'') bump_demo)) = Inr ()"
  by code_simp

theorem bump_then_check_witness:
  "\<exists>r' out. bump_main False (Some ''0.2.0'') bump_demo = (r', out, Inr ()) \<and>
    bump_main True None r' = (r', [''Current CoreJack VLNV version: 0.2.0'', ''OK (all .core files agree)''], Inr ())"
proof -
  obtain r' out where run: "bump_main False (Some ''0.2.0'') bump_demo = (r', out, Inr ())"
    using bump_demo_run by (metis prod.collapse)
  have "NL \<notin> set ''0.2.0''" by code_simp
  from bump_then_check [OF run bump_demo_wf this] run show ?thesis by auto
qed

theorem bump_failure_witness:
  "\<exists>out e. bump_main False (Some ''0.2'') bump_demo = (bump_demo, out, Inl e)"
proof -
  have "isl (snd (snd (bump_main False (Some ''0.2'') bump_demo)))" by code_simp
  then obtain r' out e where run: "bump_main False (Some ''0.2'') bump_demo = (r', out, Inl e)"
    by (metis isl_def prod.collapse)
  with bump_failure [OF run bump_demo_wf] show ?thesis by blast
qed

end
