(* ===== verification/Vivado_Warnings.thy ===== *)
theory Vivado_Warnings
  imports Py_Regex Py_Int "HOL-Library.AList"
begin

text \<open>
  \<^verbatim>\<open>bin/check_vivado_warnings.py\<close>: the warnings of the Vivado logs, summarised by message ID and
  compared with the IDs an allowlist has reviewed. The files are given as the function from the
  paths of the command line to their texts, with line ends as Python reads them.
\<close>

section \<open>The script\<close>

text \<open>Iteration over a text file: its lines, without the line end that \<^verbatim>\<open>strip\<close> or \<^verbatim>\<open>rstrip\<close> drops.\<close>

definition file_lines :: "string \<Rightarrow> string list" where
  "file_lines t = (if t \<noteq> [] \<and> last t = NL then butlast (split_on NL t) else if t = [] then [] else split_on NL t)"

definition WARNING_RE :: rx where
  "WARNING_RE = rseq [RBol False, RGrp ''1'' (RAlt (rlit ''WARNING'') (rlit ''CRITICAL WARNING'')), rlit '': ['',
     RGrp ''2'' (plus1 ((\<noteq>) CHR '']'')), rlit ''] '', RGrp ''3'' (star not_NL), REol False]"

definition allowed_id :: "string \<Rightarrow> string" where
  "allowed_id raw_line = strip (before_first CHR ''#'' raw_line)"

definition load_allowlist :: "string \<Rightarrow> string list" where
  "load_allowlist t = filter (\<lambda>l. l \<noteq> []) (map allowed_id (file_lines t))"

record warn_entry =
  we_count :: nat
  we_severity :: string
  we_examples :: "(string \<times> nat \<times> string) list"

definition no_warning :: warn_entry where
  "no_warning = \<lparr>we_count = 0, we_severity = ''WARNING'', we_examples = []\<rparr>"

type_synonym warnings = "(string \<times> warn_entry) list"

definition warning_of :: "string \<Rightarrow> (string \<times> string \<times> string) option" where
  "warning_of line = map_option (\<lambda>g. (group ''1'' g, group ''2'' g, group ''3'' g)) (re_match WARNING_RE (rstrip_by is_space line))"

definition count_warning :: "string \<Rightarrow> nat \<Rightarrow> string \<Rightarrow> string \<Rightarrow> warn_entry \<Rightarrow> warn_entry" where
  "count_warning path lineno severity message entry =
     (let entry = entry\<lparr>we_count := we_count entry + 1\<rparr>;
          entry = (if severity = ''CRITICAL WARNING'' then entry\<lparr>we_severity := severity\<rparr> else entry)
      in if length (we_examples entry) < 2
         then entry\<lparr>we_examples := we_examples entry @ [(path, lineno, message)]\<rparr> else entry)"

definition add_warning :: "string \<Rightarrow> nat \<Rightarrow> string \<times> string \<times> string \<Rightarrow> warnings \<Rightarrow> warnings" where
  "add_warning path lineno m ws =
     (case m of (severity, msg_id, message) \<Rightarrow>
        let entry = (case map_of ws msg_id of None \<Rightarrow> no_warning | Some e \<Rightarrow> e)
        in AList.update msg_id (count_warning path lineno severity message entry) ws)"

fun parse_log :: "string \<Rightarrow> nat \<Rightarrow> string list \<Rightarrow> warnings \<Rightarrow> warnings" where
  "parse_log path lineno [] ws = ws"
| "parse_log path lineno (line # lines) ws =
     parse_log path (lineno + 1) lines
       (case warning_of line of None \<Rightarrow> ws | Some m \<Rightarrow> add_warning path lineno m ws)"

fun parse_logs :: "(string \<Rightarrow> string option) \<Rightarrow> string list \<Rightarrow> warnings \<Rightarrow> warnings" where
  "parse_logs fs [] ws = ws"
| "parse_logs fs (path # paths) ws =
     parse_logs fs paths (case fs path of None \<Rightarrow> ws | Some t \<Rightarrow> parse_log path 1 (file_lines t) ws)"

definition warning_lines :: "string list \<Rightarrow> string \<times> warn_entry \<Rightarrow> string list" where
  "warning_lines allowed we =
     (case we of (msg_id, entry) \<Rightarrow>
        (''  '' @ we_severity entry @ '' ['' @ msg_id @ '']: '' @ py_str (int (we_count entry)) @ '' ('' @
           (if msg_id \<in> set allowed then ''reviewed'' else ''UNREVIEWED'') @ '')'')
        # map (\<lambda>(path, lineno, message). ''    '' @ path @ '':'' @ py_str (int lineno) @ '': '' @ message) (we_examples entry))"

text \<open>\<^verbatim>\<open>main\<close>: the printed lines and the exit status.\<close>

definition warnings_main :: "(string \<Rightarrow> string option) \<Rightarrow> string \<Rightarrow> string list \<Rightarrow> (string list \<times> nat) res" where
  "warnings_main fs allowlist logs =
     (case fs allowlist of
        None \<Rightarrow> Inl (Raise FileNotFoundError)
      | Some a \<Rightarrow>
          let allowed = load_allowlist a;
              warnings = parse_logs fs logs [];
              unreviewed = sort (filter (\<lambda>i. i \<notin> set allowed) (map fst warnings))
          in if warnings = [] then Inr ([''Vivado warning summary:'', ''  no warnings found''], 0)
             else let out = ''Vivado warning summary:'' # concat (map (warning_lines allowed) (sort_key fst warnings))
                  in if unreviewed \<noteq> []
                     then Inr (out @ [[], ''Unreviewed Vivado warning IDs:''] @ map (\<lambda>i. ''  '' @ i) unreviewed, 1)
                     else Inr (out, 0))"

section \<open>What the summary counts\<close>

text \<open>
  All warnings of the logs that exist, in the order of the command line: the file, the number of
  the line, and the severity, ID and text of the message.
\<close>

type_synonym located = "string \<times> nat \<times> string \<times> string \<times> string"

definition warning_at :: "string \<Rightarrow> nat \<times> string \<Rightarrow> located list" where
  "warning_at path nl = (case warning_of (snd nl) of None \<Rightarrow> [] | Some m \<Rightarrow> [(path, fst nl, m)])"

definition log_warnings :: "(string \<Rightarrow> string option) \<Rightarrow> string list \<Rightarrow> located list" where
  "log_warnings fs logs =
     concat (map (\<lambda>p. case fs p of None \<Rightarrow> [] | Some t \<Rightarrow> concat (map (warning_at p) (enumerate 1 (file_lines t)))) logs)"

abbreviation loc_severity :: "located \<Rightarrow> string" where
  "loc_severity w \<equiv> fst (snd (snd w))"

abbreviation loc_id :: "located \<Rightarrow> string" where
  "loc_id w \<equiv> fst (snd (snd (snd w)))"

definition example :: "located \<Rightarrow> string \<times> nat \<times> string" where
  "example w = (case w of (path, lineno, _, _, message) \<Rightarrow> (path, lineno, message))"

text \<open>What an entry says about the messages with its ID, and a summary about all messages seen so far.\<close>

definition entry_ok :: "located list \<Rightarrow> warn_entry \<Rightarrow> bool" where
  "entry_ok mine e =
     (we_count e = length mine \<and> we_examples e = take 2 (map example mine) \<and>
      we_severity e = (if ''CRITICAL WARNING'' \<in> set (map loc_severity mine) then ''CRITICAL WARNING'' else ''WARNING''))"

definition summarises :: "located list \<Rightarrow> warnings \<Rightarrow> bool" where
  "summarises ms ws =
     (distinct (map fst ws) \<and> fst ` set ws = loc_id ` set ms \<and>
      (\<forall>i e. map_of ws i = Some e \<longrightarrow> entry_ok (filter (\<lambda>m. loc_id m = i) ms) e))"

lemma entry_count:
  assumes "entry_ok mine e"
  shows "entry_ok (mine @ [(path, n, sev, i, message)]) (count_warning path n sev message e)"
proof -
  have ex: "we_examples e = take 2 (map example mine)" using assms by (simp add: entry_ok_def)
  then have n: "length (we_examples e) = min 2 (length mine)" by simp
  have "we_examples (count_warning path n sev message e) = take 2 (map example (mine @ [(path, n, sev, i, message)]))"
    using ex n by (cases "length mine < 2") (simp_all add: count_warning_def Let_def example_def)
  moreover have "we_count (count_warning path n sev message e) = length (mine @ [(path, n, sev, i, message)])"
    "we_severity (count_warning path n sev message e) =
      (if ''CRITICAL WARNING'' \<in> set (map loc_severity (mine @ [(path, n, sev, i, message)])) then ''CRITICAL WARNING'' else ''WARNING'')"
    using assms by (simp_all add: count_warning_def Let_def entry_ok_def)
  ultimately show ?thesis by (simp add: entry_ok_def)
qed

lemma summarises_add:
  assumes "summarises ms ws"
  shows "summarises (ms @ [(path, n, m)]) (add_warning path n m ws)"
proof -
  obtain sev i message where m: "m = (sev, i, message)" by (cases m)
  let ?e = "case map_of ws i of None \<Rightarrow> no_warning | Some e \<Rightarrow> e"
  have "entry_ok (filter (\<lambda>m. loc_id m = i) ms) ?e"
  proof (cases "map_of ws i")
    case None
    then have "i \<notin> loc_id ` set ms" using assms by (auto simp: summarises_def map_of_eq_None_iff)
    then have "filter (\<lambda>m. loc_id m = i) ms = []" by (auto simp: filter_empty_conv)
    with None show ?thesis by (simp add: entry_ok_def no_warning_def)
  qed (use assms in \<open>simp add: summarises_def\<close>)
  from entry_count [OF this, of path n sev i message] assms show ?thesis
    unfolding summarises_def add_warning_def m prod.case Let_def
    by (auto simp: distinct_update dom_update update_conv split: if_splits)
qed

lemma parse_log_summarises:
  "summarises ms ws \<Longrightarrow> summarises (ms @ concat (map (warning_at path) (enumerate n lines))) (parse_log path n lines ws)"
proof (induction lines arbitrary: n ms ws)
  case (Cons l lines)
  show ?case
  proof (cases "warning_of l")
    case (Some m)
    then show ?thesis using Cons.IH [OF summarises_add [OF Cons.prems, of path n m], of "n + 1"] by (simp add: warning_at_def)
  qed (use Cons in \<open>simp add: warning_at_def\<close>)
qed simp

lemma parse_logs_summarises: "summarises ms ws \<Longrightarrow> summarises (ms @ log_warnings fs logs) (parse_logs fs logs ws)"
proof (induction logs arbitrary: ms ws)
  case (Cons p logs)
  show ?case
  proof (cases "fs p")
    case (Some t)
    then show ?thesis using Cons.IH [OF parse_log_summarises [OF Cons.prems, of p 1 "file_lines t"]]
      by (simp add: log_warnings_def)
  qed (use Cons in \<open>simp add: log_warnings_def\<close>)
qed (simp add: log_warnings_def)

text \<open>
  (C26) The check is exact. It ends with status 0 when every warning of the logs has a reviewed ID
  and with status 1 otherwise; and for each warning the summary holds the lines of an entry that
  counts all warnings with its ID, has their highest severity and shows the first two, each with
  its file and line number.
\<close>

theorem warnings_main_exact:
  assumes "fs allowlist = Some a"
  shows "\<exists>out code. warnings_main fs allowlist logs = Inr (out, code) \<and> code \<le> 1 \<and>
    (code = 0 \<longleftrightarrow> (\<forall>m\<in>set (log_warnings fs logs). loc_id m \<in> set (load_allowlist a))) \<and>
    (\<forall>m\<in>set (log_warnings fs logs). \<exists>e. set (warning_lines (load_allowlist a) (loc_id m, e)) \<subseteq> set out \<and>
       entry_ok (filter (\<lambda>m'. loc_id m' = loc_id m) (log_warnings fs logs)) e)"
proof -
  let ?ms = "log_warnings fs logs" and ?ws = "parse_logs fs logs []" and ?al = "load_allowlist a"
  have "summarises [] []" by (simp add: summarises_def)
  from parse_logs_summarises [OF this, of fs logs] have s: "summarises ?ms ?ws" by simp
  then have ids: "fst ` set ?ws = loc_id ` set ?ms" by (simp add: summarises_def)
  have found: "\<exists>e. (loc_id m, e) \<in> set ?ws \<and> entry_ok (filter (\<lambda>m'. loc_id m' = loc_id m) ?ms) e" if "m \<in> set ?ms" for m
  proof -
    have "loc_id m \<in> fst ` set ?ws" using ids that by auto
    then obtain e where "map_of ?ws (loc_id m) = Some e" by (metis map_of_eq_None_iff not_Some_eq)
    then show ?thesis using s by (auto simp: summarises_def dest: map_of_SomeD)
  qed
  have sn: "sort xs = [] \<longleftrightarrow> xs = []" for xs :: "string list" by (metis length_0_conv length_sort)
  have un: "filter (\<lambda>i. i \<notin> set ?al) (map fst ?ws) = [] \<longleftrightarrow> (\<forall>m\<in>set ?ms. loc_id m \<in> set ?al)"
    using ids by (auto simp: filter_empty_conv)
  show ?thesis
  proof (cases "?ws = []")
    case True
    then have "?ms = []" using ids by auto
    with True assms show ?thesis by (simp add: warnings_main_def)
  next
    case False
    let ?out = "''Vivado warning summary:'' # concat (map (warning_lines ?al) (sort_key fst ?ws))"
    have lines: "\<forall>m\<in>set ?ms. \<exists>e. set (warning_lines ?al (loc_id m, e)) \<subseteq> set (?out @ x) \<and>
        entry_ok (filter (\<lambda>m'. loc_id m' = loc_id m) ?ms) e" for x
      using found by fastforce
    show ?thesis using False assms un lines [of "[]"]
        lines [of "[[], ''Unreviewed Vivado warning IDs:''] @ map (\<lambda>i. ''  '' @ i) (sort (filter (\<lambda>i. i \<notin> set ?al) (map fst ?ws)))"]
      by (cases "filter (\<lambda>i. i \<notin> set ?al) (map fst ?ws) = []") (simp_all add: warnings_main_def Let_def sn)
  qed
qed

definition demo_logs :: "string \<Rightarrow> string option" where
  "demo_logs = map_of [(''allow.txt'', unlines [''Synth 8-1 # reviewed'']),
     (''vivado.log'', unlines [''WARNING: [Synth 8-1] unused'', ''INFO: done'', ''CRITICAL WARNING: [Timing 38-2] no clock''])]"

theorem warnings_main_exact_witness:
  "\<exists>out. warnings_main demo_logs ''allow.txt'' [''vivado.log'', ''absent.log''] = Inr (out, 1) \<and>
    (\<exists>e. set (warning_lines [''Synth 8-1''] (''Timing 38-2'', e)) \<subseteq> set out)"
proof -
  have a: "demo_logs ''allow.txt'' = Some (unlines [''Synth 8-1 # reviewed''])" by code_simp
  have al: "load_allowlist (unlines [''Synth 8-1 # reviewed'']) = [''Synth 8-1'']" by code_simp
  have ms: "log_warnings demo_logs [''vivado.log'', ''absent.log''] =
      [(''vivado.log'', 1, ''WARNING'', ''Synth 8-1'', ''unused''), (''vivado.log'', 3, ''CRITICAL WARNING'', ''Timing 38-2'', ''no clock'')]" by code_simp
  from warnings_main_exact [of demo_logs "''allow.txt''", OF a, of "[''vivado.log'', ''absent.log'']", unfolded al ms]
  obtain out code where "warnings_main demo_logs ''allow.txt'' [''vivado.log'', ''absent.log''] = Inr (out, code)"
    "code \<le> 1" "code \<noteq> 0" "\<exists>e. set (warning_lines [''Synth 8-1''] (''Timing 38-2'', e)) \<subseteq> set out" by auto
  then show ?thesis by (cases "code = 1") auto
qed

end
