(* ===== verification/Vivado_Cdc.thy ===== *)
theory Vivado_Cdc
  imports Vivado_Warnings "HOL-Library.Product_Lexorder"
begin

text \<open>
  \<^verbatim>\<open>bin/check_vivado_cdc.py\<close>: every clock-domain crossing of a report must be covered by an entry
  of an allowlist of globs. The library functions the script rests on are modelled here: the globs
  of \<^verbatim>\<open>fnmatch\<close> and the reader of \<^verbatim>\<open>csv\<close> for tab-separated files with quotes.
\<close>

section \<open>Globs\<close>

datatype glob_item = GOne char | GRange char char

datatype glob_tok = GStar | GAny | GSet bool "glob_item list" | GChr char

text \<open>
  The inside of a bracket: a character followed by a hyphen and another one is a range, which is
  empty when its ends are in the wrong order.
\<close>

fun set_items :: "string \<Rightarrow> glob_item list" where
  "set_items (a # h # b # cs) =
     (if h = CHR ''-'' then GRange a b # set_items cs else GOne a # set_items (h # b # cs))"
| "set_items (a # cs) = GOne a # set_items cs"
| "set_items [] = []"

text \<open>
  The part of a pattern after an opening bracket, split at the bracket that closes it: a closing
  bracket in first place, after the exclamation mark if there is one, belongs to the set.
\<close>

definition set_split :: "string \<Rightarrow> (bool \<times> string \<times> string) option" where
  "set_split cs =
     (let neg = prefix ''!'' cs;
          ds = (if neg then tl cs else cs);
          lead = (if prefix '']'' ds then '']'' else []);
          body = takeWhile ((\<noteq>) CHR '']'') (drop (length lead) ds);
          rest = dropWhile ((\<noteq>) CHR '']'') (drop (length lead) ds)
      in if rest = [] then None else Some (neg, lead @ body, tl rest))"

lemma set_split_shorter: "set_split cs = Some (neg, body, rest) \<Longrightarrow> length rest < length cs"
proof -
  assume a: "set_split cs = Some (neg, body, rest)"
  let ?ds = "if prefix ''!'' cs then tl cs else cs" and ?lead = "\<lambda>ds. if prefix '']'' ds then '']'' else []"
  let ?r = "dropWhile ((\<noteq>) CHR '']'') (drop (length (?lead ?ds)) ?ds)"
  have "rest = tl ?r" "?r \<noteq> []" using a by (auto simp: set_split_def Let_def split: if_splits)
  moreover have "length ?r \<le> length ?ds" using length_dropWhile_le [of "(\<noteq>) CHR '']''" "drop (length (?lead ?ds)) ?ds"] by simp
  moreover have "length ?ds \<le> length cs" by simp
  ultimately show ?thesis by (cases ?r) auto
qed

function glob_toks :: "string \<Rightarrow> glob_tok list" where
  "glob_toks [] = []"
| "glob_toks (c # cs) =
     (if c = CHR ''*'' then GStar # glob_toks cs
      else if c = CHR ''?'' then GAny # glob_toks cs
      else if c = CHR ''['' then
        (case set_split cs of
           None \<Rightarrow> GChr c # glob_toks cs
         | Some (neg, body, rest) \<Rightarrow> GSet neg (set_items body) # glob_toks rest)
      else GChr c # glob_toks cs)"
  by pat_completeness auto
termination
  by (relation "measure length") (auto dest: set_split_shorter)

definition in_item :: "char \<Rightarrow> glob_item \<Rightarrow> bool" where
  "in_item c i = (case i of GOne a \<Rightarrow> c = a | GRange a b \<Rightarrow> code a \<le> code c \<and> code c \<le> code b)"

fun tok_char :: "glob_tok \<Rightarrow> char \<Rightarrow> bool" where
  "tok_char GStar c = True"
| "tok_char GAny c = True"
| "tok_char (GSet neg items) c = (list_ex (in_item c) items \<noteq> neg)"
| "tok_char (GChr d) c = (c = d)"

fun gmatch :: "glob_tok list \<Rightarrow> string \<Rightarrow> bool" where
  "gmatch [] s = (s = [])"
| "gmatch (GStar # ts) [] = gmatch ts []"
| "gmatch (GStar # ts) (c # s) = (gmatch ts (c # s) \<or> gmatch (GStar # ts) s)"
| "gmatch (t # ts) [] = False"
| "gmatch (t # ts) (c # s) = (tok_char t c \<and> gmatch ts s)"

definition fnmatchcase :: "string \<Rightarrow> string \<Rightarrow> bool" where
  "fnmatchcase name pat = gmatch (glob_toks pat) name"

text \<open>A glob matches a name when the name splits into one part for each token: any text for a star, one character for the others.\<close>

definition tok_text :: "glob_tok \<Rightarrow> string \<Rightarrow> bool" where
  "tok_text t s = (t = GStar \<or> (\<exists>c. s = [c] \<and> tok_char t c))"

lemma tok_text_simps [simp]: "tok_text GStar s" "t \<noteq> GStar \<Longrightarrow> tok_text t s \<longleftrightarrow> (\<exists>c. s = [c] \<and> tok_char t c)"
  by (simp_all add: tok_text_def)

lemma parts_Cons: "(\<exists>parts. s = concat parts \<and> list_all2 tok_text (t # ts) parts) \<longleftrightarrow>
    (\<exists>p q. s = p @ q \<and> tok_text t p \<and> (\<exists>parts. q = concat parts \<and> list_all2 tok_text ts parts))"
  (is "?L = ?R")
proof
  show "?L \<Longrightarrow> ?R" unfolding list_all2_Cons1 by force
  assume ?R
  then obtain p parts where "s = concat (p # parts)" "list_all2 tok_text (t # ts) (p # parts)" by auto
  then show ?L by blast
qed

lemma gmatch_star: "gmatch (GStar # ts) s \<longleftrightarrow> (\<exists>p q. s = p @ q \<and> gmatch ts q)"
proof (induction s)
  case (Cons c s)
  have "(\<exists>p q. c # s = p @ q \<and> gmatch ts q) \<longleftrightarrow> gmatch ts (c # s) \<or> (\<exists>p q. s = p @ q \<and> gmatch ts q)"
    by (metis append_Cons append_Nil Cons_eq_append_conv)
  with Cons show ?case by simp
qed simp

lemma gmatch_tok: "t \<noteq> GStar \<Longrightarrow> gmatch (t # ts) s \<longleftrightarrow> (\<exists>c q. s = c # q \<and> tok_char t c \<and> gmatch ts q)"
  by (cases t; cases s) auto

lemma gmatch_parts: "gmatch ts s \<longleftrightarrow> (\<exists>parts. s = concat parts \<and> list_all2 tok_text ts parts)"
proof (induction ts arbitrary: s)
  case (Cons t ts)
  show ?case unfolding parts_Cons Cons.IH [symmetric]
  proof (cases "t = GStar")
    case False
    then show "gmatch (t # ts) s \<longleftrightarrow> (\<exists>p q. s = p @ q \<and> tok_text t p \<and> gmatch ts q)"
      using gmatch_tok [of t ts s] by (auto simp del: gmatch.simps) (metis append_Cons append_Nil)
  qed (simp add: gmatch_star del: gmatch.simps)
qed simp

section \<open>Tab-separated values\<close>

text \<open>
  The reader of \<^verbatim>\<open>csv\<close> with a tab as delimiter and double quotes: a state machine over the characters
  of a line and its end, which may be inside a quoted field.
\<close>

datatype csv_state = START_RECORD | START_FIELD | IN_FIELD | IN_QUOTED_FIELD | QUOTE_IN_QUOTED_FIELD | EAT_CRNL

record csv_reader =
  cs_state :: csv_state
  cs_field :: string
  cs_fields :: "string list"

definition csv_start :: csv_reader where
  "csv_start = \<lparr>cs_state = START_RECORD, cs_field = [], cs_fields = []\<rparr>"

definition save_field :: "csv_state \<Rightarrow> csv_reader \<Rightarrow> csv_reader" where
  "save_field st rd = \<lparr>cs_state = st, cs_field = [], cs_fields = cs_fields rd @ [cs_field rd]\<rparr>"

definition add_char :: "char \<Rightarrow> csv_state \<Rightarrow> csv_reader \<Rightarrow> csv_reader" where
  "add_char c st rd = rd\<lparr>cs_state := st, cs_field := cs_field rd @ [c]\<rparr>"

abbreviation TAB :: char where
  "TAB \<equiv> CHR 0x09"

definition is_crnl :: "char \<Rightarrow> bool" where
  "is_crnl c = (c = NL \<or> c = CHR 0x0D)"

text \<open>A character, or the end of the line as \<open>None\<close>.\<close>

definition csv_step :: "char option \<Rightarrow> csv_reader \<Rightarrow> csv_reader res" where
  "csv_step oc rd =
     (case oc of
        None \<Rightarrow>
          (case cs_state rd of
             START_RECORD \<Rightarrow> Inr rd
           | IN_QUOTED_FIELD \<Rightarrow> Inr rd
           | EAT_CRNL \<Rightarrow> Inr (rd\<lparr>cs_state := START_RECORD\<rparr>)
           | _ \<Rightarrow> Inr (save_field START_RECORD rd))
      | Some c \<Rightarrow>
          (case cs_state rd of
             EAT_CRNL \<Rightarrow> if is_crnl c then Inr rd else Inl (Raise (Unmodelled ''csv.Error: new-line character seen in unquoted field''))
           | START_RECORD \<Rightarrow>
               if is_crnl c then Inr (rd\<lparr>cs_state := EAT_CRNL\<rparr>)
               else if c = DQ then Inr (rd\<lparr>cs_state := IN_QUOTED_FIELD\<rparr>)
               else if c = TAB then Inr (save_field START_FIELD rd)
               else Inr (add_char c IN_FIELD rd)
           | START_FIELD \<Rightarrow>
               if is_crnl c then Inr (save_field EAT_CRNL rd)
               else if c = DQ then Inr (rd\<lparr>cs_state := IN_QUOTED_FIELD\<rparr>)
               else if c = TAB then Inr (save_field START_FIELD rd)
               else Inr (add_char c IN_FIELD rd)
           | IN_FIELD \<Rightarrow>
               if is_crnl c then Inr (save_field EAT_CRNL rd)
               else if c = TAB then Inr (save_field START_FIELD rd)
               else Inr (add_char c IN_FIELD rd)
           | IN_QUOTED_FIELD \<Rightarrow>
               if c = DQ then Inr (rd\<lparr>cs_state := QUOTE_IN_QUOTED_FIELD\<rparr>) else Inr (add_char c IN_QUOTED_FIELD rd)
           | QUOTE_IN_QUOTED_FIELD \<Rightarrow>
               if c = DQ then Inr (add_char c IN_QUOTED_FIELD rd)
               else if c = TAB then Inr (save_field START_FIELD rd)
               else if is_crnl c then Inr (save_field EAT_CRNL rd)
               else Inr (add_char c IN_FIELD rd)))"

fun csv_chars :: "char option list \<Rightarrow> csv_reader \<Rightarrow> csv_reader res" where
  "csv_chars [] rd = Inr rd"
| "csv_chars (c # cs) rd = bindr (csv_step c rd) (csv_chars cs)"

text \<open>The lines of a file opened with \<^verbatim>\<open>newline=""\<close> keep their ends: CR, LF or CR LF.\<close>

function raw_lines :: "string \<Rightarrow> string list" where
  "raw_lines [] = []"
| "raw_lines (c # s) =
     (let body = takeWhile (\<lambda>d. \<not> is_crnl d) (c # s); rest = dropWhile (\<lambda>d. \<not> is_crnl d) (c # s);
          n = (if rest = [] then 0 else if prefix [CHR 0x0D, NL] rest then 2 else 1)
      in (body @ take n rest) # raw_lines (drop n rest))"
  by pat_completeness auto
termination
proof (relation "measure length", goal_cases)
  case (2 c s body rest n)
  have "length rest \<le> length (c # s)" using length_dropWhile_le [of "\<lambda>d. \<not> is_crnl d" "c # s"] 2 by simp
  then show ?case using 2 by (cases rest) auto
qed simp

text \<open>The records of a file: each ends with a line at whose end the reader is at the start of a record again.\<close>

fun csv_rows :: "string list \<Rightarrow> csv_reader \<Rightarrow> string list list res" where
  "csv_rows [] rd =
     (if cs_field rd \<noteq> [] \<or> cs_state rd = IN_QUOTED_FIELD then Inr [cs_fields rd @ [cs_field rd]] else Inr [])"
| "csv_rows (line # lines) rd =
     bindr (csv_chars (map Some line @ [None]) rd) (\<lambda>rd'.
     if cs_state rd' = START_RECORD
     then bindr (csv_rows lines csv_start) (\<lambda>rows. Inr (cs_fields rd' # rows))
     else csv_rows lines rd')"

text \<open>
  \<^verbatim>\<open>csv.DictReader\<close>: the first record names the fields, empty records are dropped, and a short
  record has \<open>None\<close> for the fields it lacks. The fields beyond the names are stored under a key
  the script never reads.
\<close>

type_synonym csv_row = "(string \<times> string option) list"

definition dict_row :: "string list \<Rightarrow> string list \<Rightarrow> csv_row" where
  "dict_row names row = zip names (map Some row @ replicate (length names - length row) None)"

definition dict_rows :: "string \<Rightarrow> csv_row list res" where
  "dict_rows t =
     bindr (csv_rows (raw_lines t) csv_start) (\<lambda>rows.
     Inr (case rows of [] \<Rightarrow> [] | names # rows \<Rightarrow> map (dict_row names) (filter (\<lambda>r. r \<noteq> []) rows)))"

text \<open>\<^verbatim>\<open>row[key]\<close>; a repeated name keeps its last value.\<close>

definition row_get :: "csv_row \<Rightarrow> string \<Rightarrow> string option res" where
  "row_get row key = (case map_of (rev row) key of None \<Rightarrow> Inl (Raise (KeyError key)) | Some v \<Rightarrow> Inr v)"

section \<open>The script\<close>

type_synonym cdc_entry = "string \<times> string \<times> string"

definition MAX_EXAMPLES :: nat where
  "MAX_EXAMPLES = 20"

fun load_entries :: "string \<Rightarrow> nat \<Rightarrow> string list \<Rightarrow> cdc_entry list res" where
  "load_entries path lineno [] = Inr []"
| "load_entries path lineno (raw_line # lines) =
     (let line = strip (before_first CHR ''#'' raw_line)
      in if line = [] then load_entries path (lineno + 1) lines
         else case split_ws line of
           [check, start_glob, end_glob] \<Rightarrow>
             bindr (load_entries path (lineno + 1) lines) (\<lambda>es. Inr ((check, start_glob, end_glob) # es))
         | _ \<Rightarrow> Inl (Exit (path @ '':'' @ py_str (int lineno) @ '': expected '' @
                  quoted ''<CDC rule ID> <startpoint glob> <endpoint glob>'')))"

text \<open>\<^verbatim>\<open>all_match\<close>; a missing field is \<open>None\<close>, which has no \<^verbatim>\<open>split\<close>.\<close>

definition all_match :: "string option \<Rightarrow> string \<Rightarrow> bool res" where
  "all_match pins glob =
     (case pins of
        None \<Rightarrow> Inl (Raise (AttributeError ''split''))
      | Some p \<Rightarrow> Inr (split_ws p \<noteq> [] \<and> list_all (\<lambda>name. fnmatchcase name glob) (split_ws p)))"

definition andr :: "bool res \<Rightarrow> bool res \<Rightarrow> bool res" where
  "andr a b = bindr a (\<lambda>x. if x then b else Inr False)"

definition covers :: "csv_row \<Rightarrow> cdc_entry \<Rightarrow> bool res" where
  "covers row entry =
     (case entry of (check, start_glob, end_glob) \<Rightarrow>
        andr (bindr (row_get row ''check'') (\<lambda>v. Inr (v = Some check))) (
        andr (bindr (row_get row ''startpoint'') (\<lambda>v. all_match v start_glob)) (
        bindr (row_get row ''endpoint'') (\<lambda>v. all_match v end_glob))))"

fun reviewed_by :: "csv_row \<Rightarrow> cdc_entry list \<Rightarrow> cdc_entry option res" where
  "reviewed_by row [] = Inr None"
| "reviewed_by row (entry # entries) = bindr (covers row entry) (\<lambda>b. if b then Inr (Some entry) else reviewed_by row entries)"

text \<open>The loop over the rows, with the counter of the entries as an association list.\<close>

fun review_rows :: "cdc_entry list \<Rightarrow> csv_row list \<Rightarrow> (cdc_entry \<times> nat) list \<Rightarrow> ((cdc_entry \<times> nat) list \<times> csv_row list) res" where
  "review_rows entries [] covered = Inr (covered, [])"
| "review_rows entries (row # rows) covered =
     bindr (reviewed_by row entries) (\<lambda>e.
     case e of
       None \<Rightarrow> bindr (review_rows entries rows covered) (\<lambda>(c, un). Inr (c, row # un))
     | Some entry \<Rightarrow> review_rows entries rows
         (AList.update entry ((case map_of covered entry of None \<Rightarrow> 0 | Some n \<Rightarrow> n) + 1) covered))"

text \<open>A field in a printed line.\<close>

definition show_field :: "csv_row \<Rightarrow> string \<Rightarrow> string res" where
  "show_field row key = bindr (row_get row key) (\<lambda>v. Inr (case v of None \<Rightarrow> ''None'' | Some s \<Rightarrow> s))"

definition crossing_line :: "csv_row \<Rightarrow> string res" where
  "crossing_line row =
     bindr (mapr (show_field row) [''check'', ''severity'', ''startpoint_clock'', ''endpoint_clock'', ''startpoint'', ''endpoint'']) (\<lambda>fs.
     case fs of [check, severity, sc, ec, sp, ep] \<Rightarrow>
       Inr (''  '' @ check @ '' '' @ severity @ '' '' @ sc @ '' -> '' @ ec @ '': '' @ sp @ '' -> '' @ ep)
     | _ \<Rightarrow> Inr [])"

definition covered_line :: "cdc_entry \<times> nat \<Rightarrow> string" where
  "covered_line cn = (case cn of ((check, start_glob, end_glob), count) \<Rightarrow>
     ''  '' @ check @ '' '' @ start_glob @ '' -> '' @ end_glob @ '': '' @ py_str (int count) @ '' (reviewed)'')"

definition cdc_main :: "(string \<Rightarrow> string option) \<Rightarrow> string \<Rightarrow> string option \<Rightarrow> (string list \<times> nat) res" where
  "cdc_main fs allowlist crossings =
     (case crossings of
        None \<Rightarrow> Inr ([], 2)
      | Some t \<Rightarrow>
          (case fs allowlist of
             None \<Rightarrow> Inl (Raise FileNotFoundError)
           | Some a \<Rightarrow>
               bindr (load_entries allowlist 1 (file_lines a)) (\<lambda>entries.
               bindr (dict_rows t) (\<lambda>rows.
               bindr (review_rows entries rows []) (\<lambda>(covered, unreviewed).
               let out = (''Vivado CDC summary: '' @ py_str (int (length rows)) @ '' crossing endpoint(s)'')
                         # map covered_line (sort_key fst covered)
               in if unreviewed = [] then Inr (out, 0)
                  else bindr (mapr crossing_line (take MAX_EXAMPLES unreviewed)) (\<lambda>examples.
                       Inr (out @ [[], ''Unreviewed crossings ('' @ py_str (int (length unreviewed)) @ ''):''] @ examples @
                         (if MAX_EXAMPLES < length unreviewed
                          then [''  ... and '' @ py_str (int (length unreviewed - MAX_EXAMPLES)) @ '' more''] else []) @
                         [''Review them in cdc_details.rpt, then fix the RTL or add them to '' @ allowlist @ ''.''], 1)))))))"

section \<open>What the check decides\<close>

definition row_field :: "csv_row \<Rightarrow> string \<Rightarrow> string option" where
  "row_field row key = (case map_of (rev row) key of Some (Some v) \<Rightarrow> Some v | _ \<Rightarrow> None)"

definition CDC_FIELDS :: "string list" where
  "CDC_FIELDS = [''check'', ''severity'', ''startpoint_clock'', ''endpoint_clock'', ''startpoint'', ''endpoint'']"

definition complete_row :: "csv_row \<Rightarrow> bool" where
  "complete_row row = list_all (\<lambda>k. row_field row k \<noteq> None) CDC_FIELDS"

definition pins_covered :: "string \<Rightarrow> string \<Rightarrow> bool" where
  "pins_covered pins glob = (split_ws pins \<noteq> [] \<and>
     (\<forall>name\<in>set (split_ws pins). \<exists>parts. name = concat parts \<and> list_all2 tok_text (glob_toks glob) parts))"

definition crossing_reviewed :: "csv_row \<Rightarrow> cdc_entry \<Rightarrow> bool" where
  "crossing_reviewed row entry = (case entry of (check, start_glob, end_glob) \<Rightarrow>
     \<exists>sp ep. row_field row ''check'' = Some check \<and> row_field row ''startpoint'' = Some sp \<and>
       row_field row ''endpoint'' = Some ep \<and> pins_covered sp start_glob \<and> pins_covered ep end_glob)"

lemma complete_get: "complete_row row \<Longrightarrow> k \<in> set CDC_FIELDS \<Longrightarrow> \<exists>v. row_get row k = Inr (Some v) \<and> row_field row k = Some v"
  by (auto simp: complete_row_def list_all_iff row_field_def row_get_def split: option.splits)

lemma all_match_ok: "all_match (Some p) glob = Inr (pins_covered p glob)"
  by (simp add: all_match_def pins_covered_def fnmatchcase_def gmatch_parts list_all_iff)

lemma covers_ok:
  assumes "complete_row row"
  shows "covers row e = Inr (crossing_reviewed row e)"
proof -
  obtain c sp ep where "row_get row ''check'' = Inr (Some c)" "row_field row ''check'' = Some c"
    "row_get row ''startpoint'' = Inr (Some sp)" "row_field row ''startpoint'' = Some sp"
    "row_get row ''endpoint'' = Inr (Some ep)" "row_field row ''endpoint'' = Some ep"
    using complete_get [OF assms, of "''check''"] complete_get [OF assms, of "''startpoint''"] complete_get [OF assms, of "''endpoint''"]
    by (auto simp: CDC_FIELDS_def)
  then show ?thesis by (auto simp: covers_def crossing_reviewed_def andr_def all_match_ok split: prod.split)
qed

lemma reviewed_by_ok: "complete_row row \<Longrightarrow> reviewed_by row entries = Inr (List.find (crossing_reviewed row) entries)"
  by (induction entries) (simp_all add: covers_ok)

lemma sum_update:
  fixes n :: nat
  shows "distinct (map fst al) \<Longrightarrow>
    sum_list (map snd (AList.update k ((case map_of al k of None \<Rightarrow> 0 | Some n \<Rightarrow> n) + n) al)) = sum_list (map snd al) + n"
  by (induction al) auto

definition unreviewed_rows :: "cdc_entry list \<Rightarrow> csv_row list \<Rightarrow> csv_row list" where
  "unreviewed_rows entries rows = filter (\<lambda>row. \<not> (\<exists>e\<in>set entries. crossing_reviewed row e)) rows"

lemma review_rows_ok:
  "list_all complete_row rows \<Longrightarrow> distinct (map fst covered) \<Longrightarrow>
     \<exists>c. review_rows entries rows covered = Inr (c, unreviewed_rows entries rows) \<and>
       sum_list (map snd c) + length (unreviewed_rows entries rows) = sum_list (map snd covered) + length rows"
proof (induction rows arbitrary: covered)
  case (Cons row rows)
  show ?case
  proof (cases "List.find (crossing_reviewed row) entries")
    case None
    then have "\<not> (\<exists>e\<in>set entries. crossing_reviewed row e)" unfolding find_None_iff by blast
    with None Cons.IH [of covered] Cons.prems show ?thesis by (auto simp: reviewed_by_ok unreviewed_rows_def)
  next
    case (Some e)
    let ?c = "AList.update e ((case map_of covered e of None \<Rightarrow> 0 | Some n \<Rightarrow> n) + 1) covered"
    have "\<exists>e\<in>set entries. crossing_reviewed row e" using Some by (metis find_Some_iff nth_mem)
    moreover have "distinct (map fst ?c)" using Cons.prems(2) by (rule distinct_update)
    ultimately show ?thesis
      using Cons.IH [of ?c] Cons.prems sum_update [OF Cons.prems(2), of e 1] Some by (auto simp: reviewed_by_ok unreviewed_rows_def)
  qed
qed (simp add: unreviewed_rows_def)

text \<open>
  (C27) The check is exact. On a report whose rows have all their fields it ends with status 0 when
  every crossing is covered by an entry of the allowlist, that is when the entry has its rule and
  each of its pins splits along the globs, and with status 1 otherwise; and the printed counts add
  up to the crossings that are covered.
\<close>

theorem cdc_main_exact:
  assumes "fs allowlist = Some a" "load_entries allowlist 1 (file_lines a) = Inr entries"
    and "dict_rows t = Inr rows" "list_all complete_row rows"
  shows "\<exists>out code covered. cdc_main fs allowlist (Some t) = Inr (out, code) \<and> code \<le> 1 \<and>
    (code = 0 \<longleftrightarrow> (\<forall>row\<in>set rows. \<exists>entry\<in>set entries. crossing_reviewed row entry)) \<and>
    set (map covered_line covered) \<subseteq> set out \<and>
    sum_list (map snd covered) = length (filter (\<lambda>row. \<exists>entry\<in>set entries. crossing_reviewed row entry) rows)"
proof -
  obtain c where c: "review_rows entries rows [] = Inr (c, unreviewed_rows entries rows)"
    "sum_list (map snd c) + length (unreviewed_rows entries rows) = length rows"
    using review_rows_ok [OF assms(4), of "[]" entries] by auto
  have sum: "sum_list (map snd c) = length (filter (\<lambda>row. \<exists>entry\<in>set entries. crossing_reviewed row entry) rows)"
    using c(2) sum_length_filter_compl [of "\<lambda>row. \<exists>entry\<in>set entries. crossing_reviewed row entry" rows]
    by (simp add: unreviewed_rows_def)
  have un: "unreviewed_rows entries rows = [] \<longleftrightarrow> (\<forall>row\<in>set rows. \<exists>entry\<in>set entries. crossing_reviewed row entry)"
    by (simp add: unreviewed_rows_def filter_empty_conv)
  have "\<exists>l. crossing_line row = Inr l" if "complete_row row" for row
  proof -
    have "\<exists>l. show_field row k = Inr l" if "k \<in> set CDC_FIELDS" for k
      using complete_get [OF \<open>complete_row row\<close> that] by (auto simp: show_field_def)
    then obtain fs where "mapr (show_field row) CDC_FIELDS = Inr fs" using mapr_returns by blast
    then show ?thesis unfolding crossing_line_def CDC_FIELDS_def by (simp split: list.split)
  qed
  moreover have "set (take MAX_EXAMPLES (unreviewed_rows entries rows)) \<subseteq> set rows"
    using set_take_subset by (fastforce simp: unreviewed_rows_def)
  ultimately obtain examples where ex: "mapr crossing_line (take MAX_EXAMPLES (unreviewed_rows entries rows)) = Inr examples"
    using mapr_returns [of "take MAX_EXAMPLES (unreviewed_rows entries rows)" crossing_line] assms(4)
    by (meson list_all_iff subsetD)
  let ?out = "(''Vivado CDC summary: '' @ py_str (int (length rows)) @ '' crossing endpoint(s)'') # map covered_line (sort_key fst c)"
  have lines: "set (map covered_line c) \<subseteq> set (?out @ x)" for x by auto
  show ?thesis
  proof (cases "unreviewed_rows entries rows = []")
    case True
    then have "cdc_main fs allowlist (Some t) = Inr (?out, 0)" using assms(1-3) c(1) by (simp add: cdc_main_def)
    with sum un True lines [of "[]"] show ?thesis
      by - (rule exI [of _ ?out], rule exI [of _ 0], rule exI [of _ c], intro conjI, simp_all only: append_Nil2, simp_all)
  next
    case False
    then obtain x where "cdc_main fs allowlist (Some t) = Inr (?out @ x, 1)"
      using assms(1-3) c(1) ex by (simp add: cdc_main_def)
    with sum un False lines [of x] show ?thesis
      by - (rule exI [of _ "?out @ x"], rule exI [of _ 1], rule exI [of _ c], intro conjI, simp_all only:, simp_all)
  qed
qed

definition demo_tsv :: string where
  "demo_tsv = concat (map (\<lambda>fs. join [TAB] fs @ [CHR 0x0D, NL])
     [[''check'', ''severity'', ''startpoint_clock'', ''endpoint_clock'', ''startpoint'', ''endpoint''],
      [''CDC-1'', ''Info'', ''a'', ''b'', [DQ] @ ''u/x_reg[0]/C u/x_reg[1]/C'' @ [DQ], ''v/y_reg/D'']])"

definition demo_cdc :: "string \<Rightarrow> string option" where
  "demo_cdc = map_of [(''allow.txt'', unlines [''# reviewed'', ''CDC-1 u/x_reg[[]?[]]/C v/*/D''])]"

theorem cdc_main_exact_witness: "\<exists>out. cdc_main demo_cdc ''allow.txt'' (Some demo_tsv) = Inr (out, 0)"
proof -
  let ?row = "[(''check'', Some ''CDC-1''), (''severity'', Some ''Info''), (''startpoint_clock'', Some ''a''), (''endpoint_clock'', Some ''b''),
    (''startpoint'', Some ''u/x_reg[0]/C u/x_reg[1]/C''), (''endpoint'', Some ''v/y_reg/D'')]"
  let ?e = "(''CDC-1'', ''u/x_reg[[]?[]]/C'', ''v/*/D'')"
  have a: "demo_cdc ''allow.txt'' = Some (unlines [''# reviewed'', ''CDC-1 u/x_reg[[]?[]]/C v/*/D''])" by code_simp
  have e: "load_entries ''allow.txt'' 1 (file_lines (unlines [''# reviewed'', ''CDC-1 u/x_reg[[]?[]]/C v/*/D''])) = Inr [?e]" by code_simp
  have rows: "dict_rows demo_tsv = Inr [?row]" by code_simp
  have ok: "complete_row ?row" by code_simp
  have "covers ?row ?e = Inr True" by code_simp
  then have "crossing_reviewed ?row ?e" using covers_ok [OF ok] by simp
  with cdc_main_exact [of demo_cdc "''allow.txt''", OF a e rows] ok show ?thesis by auto
qed

end
