(* ===== verification/Drawio_Svg.thy ===== *)
theory Drawio_Svg
  imports Py_Regex Repo
begin

text \<open>
  \<^verbatim>\<open>bin/postprocess_drawio_svg.py\<close>: the rewriting of an exported diagram. The scan for
  \<^verbatim>\<open>light-dark(A, B)\<close> with its depth counter is related to a grammar: a text is a list of calls with
  text between them, where the first argument of a call ends at the first comma outside parentheses.
\<close>

section \<open>The script\<close>

definition needle :: string where
  "needle = ''light-dark(''"

text \<open>
  The inner loop from the position after the opening parenthesis: the positions of the first comma
  at depth 1 and of the closing parenthesis.
\<close>

fun ld_scan :: "nat \<Rightarrow> nat \<Rightarrow> nat option \<Rightarrow> string \<Rightarrow> nat option \<times> nat option" where
  "ld_scan j depth comma_at [] = (comma_at, None)"
| "ld_scan j depth comma_at (c # s) =
     (if c = CHR ''('' then ld_scan (j + 1) (depth + 1) comma_at s
      else if c = CHR '')'' then (if depth - 1 = 0 then (comma_at, Some j) else ld_scan (j + 1) (depth - 1) comma_at s)
      else if c = CHR '','' \<and> depth = 1 \<and> comma_at = None then ld_scan (j + 1) depth (Some j) s
      else ld_scan (j + 1) depth comma_at s)"

function flatten_light_dark :: "string \<Rightarrow> string" where
  "flatten_light_dark t =
     (case find_sub needle t of
        None \<Rightarrow> t
      | Some idx \<Rightarrow>
          let s = drop (idx + length needle) t
          in take idx t @
             (case ld_scan 0 1 None s of
                (_, None) \<Rightarrow> needle @ s
              | (None, Some e) \<Rightarrow> needle @ take (e + 1) s @ flatten_light_dark (drop (e + 1) s)
              | (Some comma, Some e) \<Rightarrow> strip (take comma s) @ flatten_light_dark (drop (e + 1) s)))"
  by pat_completeness auto
termination
proof (relation "measure length", goal_cases)
  case (2 t idx s x comma e)
  then have "idx + length needle \<le> length t" using find_sub_Some by blast
  with 2 show ?case by (simp add: needle_def)
next
  case (3 t idx s x comma c e)
  then have "idx + length needle \<le> length t" using find_sub_Some by blast
  with 3 show ?case by (simp add: needle_def)
qed simp

declare flatten_light_dark.simps [simp del]

definition SVG_OPEN_RE :: rx where
  "SVG_OPEN_RE = RGrp ''1'' (rseq [rlit (''<svg xmlns='' @ [DQ] @ ''http://www.w3.org/2000/svg'' @ [DQ]),
     star ((\<noteq>) CHR ''>''), RChr ((=) CHR ''>'')])"

definition BACKGROUND_RECT :: string where
  "BACKGROUND_RECT = ''<rect width='' @ [DQ] @ ''100%'' @ [DQ] @ '' height='' @ [DQ] @ ''100%'' @ [DQ] @
     '' fill='' @ [DQ] @ ''#ffffff'' @ [DQ] @ ''/>''"

definition postprocess :: "string \<Rightarrow> string res" where
  "postprocess svg =
     (let svg = flatten_light_dark svg;
          svg = replace_all ''background: transparent'' ''background: #ffffff'' svg;
          svg = replace_all ''background-color: transparent'' ''background-color: #ffffff'' svg
      in case re_search_from SVG_OPEN_RE [] svg of
           None \<Rightarrow> Inl (Exit ''postprocess_drawio_svg: did not find a recognizable <svg> root'')
         | Some (pre, t, (pre', rest, g)) \<Rightarrow> Inr (rev pre @ group ''1'' g @ BACKGROUND_RECT @ rest))"

text \<open>\<^verbatim>\<open>main\<close> on the files as a map from paths to texts: the exit status and the files afterwards.\<close>

definition svg_main :: "string list \<Rightarrow> (string \<Rightarrow> string option) \<Rightarrow> (string \<Rightarrow> string option) \<times> nat res" where
  "svg_main argv fs =
     (case argv of
        [_, path] \<Rightarrow>
          (case fs path of
             None \<Rightarrow> (fs, Inl (Raise FileNotFoundError))
           | Some svg \<Rightarrow>
               (case postprocess svg of Inl e \<Rightarrow> (fs, Inl e) | Inr out \<Rightarrow> (fs(path \<mapsto> universal_newlines out), Inr 0)))
      | _ \<Rightarrow> (fs, Inr 1))"

section \<open>Arguments of a call\<close>

text \<open>Balanced parentheses, and an argument: balanced, with commas only inside parentheses. The number is the depth at the start.\<close>

fun bal :: "nat \<Rightarrow> string \<Rightarrow> bool" where
  "bal d [] = (d = 0)"
| "bal d (c # s) =
     (if c = CHR ''('' then bal (d + 1) s else if c = CHR '')'' then 0 < d \<and> bal (d - 1) s else bal d s)"

fun arg :: "nat \<Rightarrow> string \<Rightarrow> bool" where
  "arg d [] = (d = 0)"
| "arg d (c # s) =
     (if c = CHR ''('' then arg (d + 1) s else if c = CHR '')'' then 0 < d \<and> arg (d - 1) s
      else (c \<noteq> CHR '','' \<or> 0 < d) \<and> arg d s)"

lemma scan_bal: "bal d b \<Longrightarrow> ld_scan j (Suc d) (Some k) (b @ s) = ld_scan (j + length b) 1 (Some k) s"
proof (induction b arbitrary: j d)
  case (Cons c b)
  then show ?case by (cases d) (auto split: if_splits)
qed simp

lemma scan_arg: "arg d a \<Longrightarrow> ld_scan j (Suc d) None (a @ s) = ld_scan (j + length a) 1 None s"
proof (induction a arbitrary: j d)
  case (Cons c a)
  then show ?case by (cases d) (auto split: if_splits)
qed simp

lemma scan_pair: "arg 0 a \<Longrightarrow> bal 0 b \<Longrightarrow>
    ld_scan 0 1 None (a @ CHR '','' # b @ CHR '')'' # r) = (Some (length a), Some (length a + 1 + length b))"
  using scan_arg [of 0 a 0 "CHR '','' # b @ CHR '')'' # r"] scan_bal [of 0 b "length a + 1" "length a" "CHR '')'' # r"] by simp

lemma scan_single: "arg 0 a \<Longrightarrow> ld_scan 0 1 None (a @ CHR '')'' # r) = (None, Some (length a))"
  using scan_arg [of 0 a 0 "CHR '')'' # r"] by simp

text \<open>What a scan has found.\<close>

lemma scan_found:
  "ld_scan j (Suc d) c s = (c', Some e) \<Longrightarrow> \<exists>x r. s = x @ CHR '')'' # r \<and> e = j + length x \<and> bal d x \<and>
     (case c of Some k \<Rightarrow> c' = Some k
      | None \<Rightarrow> c' = None \<and> arg d x \<or> (\<exists>a b. x = a @ CHR '','' # b \<and> c' = Some (j + length a) \<and> arg d a \<and> bal 0 b))"
proof (induction s arbitrary: j d c)
  case (Cons ch s)
  have step: ?case if run: "ld_scan (Suc j) (Suc d') c0 s = (c', Some e)"
    and b: "\<And>x. bal d' x \<Longrightarrow> bal d (ch # x)"
    and c: "c0 = c \<and> (c = None \<longrightarrow> (\<forall>x. arg d' x \<longrightarrow> arg d (ch # x))) \<or> c = None \<and> c0 = Some j \<and> ch = CHR '','' \<and> d = 0 \<and> d' = 0" for d' c0
  proof -
    from Cons.IH [OF run] obtain x r where x: "s = x @ CHR '')'' # r" "e = Suc j + length x" "bal d' x"
      "case c0 of Some k \<Rightarrow> c' = Some k
        | None \<Rightarrow> c' = None \<and> arg d' x \<or> (\<exists>a b. x = a @ CHR '','' # b \<and> c' = Some (Suc j + length a) \<and> arg d' a \<and> bal 0 b)" by blast
    have "case c of Some k \<Rightarrow> c' = Some k
        | None \<Rightarrow> c' = None \<and> arg d (ch # x) \<or> (\<exists>a b. ch # x = a @ CHR '','' # b \<and> c' = Some (j + length a) \<and> arg d a \<and> bal 0 b)"
      using c
    proof
      assume same: "c0 = c \<and> (c = None \<longrightarrow> (\<forall>x. arg d' x \<longrightarrow> arg d (ch # x)))"
      show ?thesis
      proof (cases c)
        case None
        with same x(4) consider "c' = None" "arg d' x"
          | a b where "x = a @ CHR '','' # b" "c' = Some (Suc j + length a)" "arg d' a" "bal 0 b" by auto
        then show ?thesis
        proof cases
          case (2 a b)
          then have "ch # x = (ch # a) @ CHR '','' # b" "c' = Some (j + length (ch # a))" "arg d (ch # a)" using same None by auto
          then show ?thesis unfolding None option.case using 2(4) by blast
        qed (use same None in auto)
      qed (use same x(4) in auto)
    next
      assume "c = None \<and> c0 = Some j \<and> ch = CHR '','' \<and> d = 0 \<and> d' = 0"
      then show ?thesis using x(3,4) by (auto intro!: exI [of _ "[]"])
    qed
    then show ?thesis using x b [OF x(3)] by (intro exI [of _ "ch # x"] exI [of _ r]) simp
  qed
  consider (up) "ch = CHR ''(''" | (shut) "ch = CHR '')''" "d = 0" | (down) d' where "ch = CHR '')''" "d = Suc d'"
    | (comma) "ch = CHR '',''" "d = 0" "c = None" | (other) "ch \<noteq> CHR ''(''" "ch \<noteq> CHR '')''" "ch \<noteq> CHR '','' \<or> 0 < d \<or> c \<noteq> None"
    by (cases d) auto
  then show ?case
  proof cases
    case up
    with Cons.prems show ?thesis by (intro step [of "Suc d" c]) auto
  next
    case shut
    with Cons.prems show ?thesis by (intro exI [of _ "[]"] exI [of _ s]) (auto split: option.split)
  next
    case (down d')
    with Cons.prems show ?thesis by (intro step [of d' c]) auto
  next
    case comma
    with Cons.prems show ?thesis by (intro step [of 0 "Some j"]) auto
  next
    case other
    with Cons.prems show ?thesis by (intro step [of d c]) (auto split: if_splits)
  qed
qed simp

section \<open>Texts as calls with text between them\<close>

datatype call = Pair string string \<comment> \<open>two arguments, the second up to the closing parenthesis\<close>
  | Single string \<comment> \<open>a call without a comma of its own\<close>

fun call_text :: "call \<Rightarrow> string" where
  "call_text (Pair a b) = needle @ a @ '','' @ b @ '')''"
| "call_text (Single a) = needle @ a @ '')''"

fun call_flat :: "call \<Rightarrow> string" where
  "call_flat (Pair a b) = strip a"
| "call_flat (Single a) = call_text (Single a)"

fun call_ok :: "call \<Rightarrow> bool" where
  "call_ok (Pair a b) = (arg 0 a \<and> bal 0 b)"
| "call_ok (Single a) = arg 0 a"

text \<open>A call that is never closed takes the rest of the text.\<close>

definition unclosed :: "string \<Rightarrow> bool" where
  "unclosed s = (\<forall>x r. s = x @ CHR '')'' # r \<longrightarrow> \<not> bal 0 x)"

definition tail_ok :: "string \<Rightarrow> bool" where
  "tail_ok t = (\<not> contains needle t \<or> (\<exists>p s. t = p @ needle @ s \<and> \<not> contains needle p \<and> unclosed s))"

type_synonym doc = "(string \<times> call) list"

definition doc_text :: "doc \<Rightarrow> string \<Rightarrow> string" where
  "doc_text d t = concat (map (\<lambda>(p, c). p @ call_text c) d) @ t"

definition doc_flat :: "doc \<Rightarrow> string \<Rightarrow> string" where
  "doc_flat d t = concat (map (\<lambda>(p, c). p @ call_flat c) d) @ t"

definition doc_ok :: "doc \<Rightarrow> string \<Rightarrow> bool" where
  "doc_ok d t = (list_all (\<lambda>(p, c). \<not> contains needle p \<and> call_ok c) d \<and> tail_ok t)"

lemma doc_simps [simp]:
  "doc_text [] t = t" "doc_text ((p, c) # d) t = p @ call_text c @ doc_text d t"
  "doc_flat [] t = t" "doc_flat ((p, c) # d) t = p @ call_flat c @ doc_flat d t"
  "doc_ok [] t = tail_ok t" "doc_ok ((p, c) # d) t \<longleftrightarrow> \<not> contains needle p \<and> call_ok c \<and> doc_ok d t"
  by (auto simp: doc_text_def doc_flat_def doc_ok_def)

text \<open>The only parenthesis of the needle is its last character, so that it does not overlap itself.\<close>

lemma needle_first: "\<not> contains needle p \<Longrightarrow> find_sub needle (p @ needle @ r) = Some (length p)"
proof (induction p)
  case Nil
  show ?case by (simp add: needle_def)
next
  case (Cons c p)
  have "\<not> prefix needle (c # p @ needle @ r)"
  proof
    assume "prefix needle (c # p @ needle @ r)"
    then obtain q where q: "(c # p) @ needle @ r = needle @ q" by (auto simp: prefix_def)
    show False
    proof (cases "CHR ''('' \<in> set (c # p)")
      case True
      then obtain x y where x: "c # p = x @ CHR ''('' # y" "CHR ''('' \<notin> set x" using split_list_first by metis
      have "takeWhile ((\<noteq>) CHR ''('') (x @ CHR ''('' # y @ needle @ r) = x"
        by (rule takeWhile_append_stop) (use x(2) in auto)
      then have "takeWhile ((\<noteq>) CHR ''('') ((c # p) @ needle @ r) = x" using x(1) by simp
      then have "x = ''light-dark''" unfolding q by (simp add: needle_def)
      then have "c # p = needle @ y" using x(1) by (simp add: needle_def)
      then show False using Cons.prems unfolding contains_iff by (metis append_Nil)
    next
      case False
      have "takeWhile ((\<noteq>) CHR ''('') ((c # p @ ''light-dark'') @ CHR ''('' # r) = c # p @ ''light-dark''"
        by (rule takeWhile_append_stop) (use False in auto)
      moreover have "(c # p @ ''light-dark'') @ CHR ''('' # r = (c # p) @ needle @ r" by (simp add: needle_def)
      ultimately have "c # p @ ''light-dark'' = takeWhile ((\<noteq>) CHR ''('') (needle @ q)" using q by metis
      also have "\<dots> = ''light-dark''" by (simp add: needle_def)
      finally have "length (c # p) + length ''light-dark'' = length ''light-dark''" by (metis append_Cons length_append)
      then show False by simp
    qed
  qed
  moreover have "\<not> contains needle p" using Cons.prems by simp
  ultimately show ?case using Cons.IH by simp
qed

lemma flatten_at:
  assumes "\<not> contains needle p"
  shows "flatten_light_dark (p @ needle @ s) = p @
     (case ld_scan 0 1 None s of
        (_, None) \<Rightarrow> needle @ s
      | (None, Some e) \<Rightarrow> needle @ take (e + 1) s @ flatten_light_dark (drop (e + 1) s)
      | (Some comma, Some e) \<Rightarrow> strip (take comma s) @ flatten_light_dark (drop (e + 1) s))"
  by (subst flatten_light_dark.simps) (simp add: needle_first [OF assms])

lemma scan_closes: "bal d x \<Longrightarrow> \<exists>c'. ld_scan j (Suc d) c (x @ CHR '')'' # r) = (c', Some (j + length x))"
proof (induction x arbitrary: j d c)
  case (Cons ch x)
  show ?case
  proof (cases "ch = CHR '')''")
    case True
    with Cons.prems obtain d' where "d = Suc d'" "bal d' x" by (cases d) auto
    with Cons.IH [of d' "Suc j" c] True show ?thesis by simp
  next
    case False
    with Cons.prems Cons.IH [of "Suc d" "Suc j" c] Cons.IH [of d "Suc j" c] Cons.IH [of d "Suc j" "Some j"] show ?thesis by auto
  qed
qed simp

lemma find_sub_first: "find_sub n s = Some i \<Longrightarrow> n \<noteq> [] \<Longrightarrow> \<not> contains n (take i s)"
proof (induction s arbitrary: i)
  case (Cons c s)
  show ?case
  proof (cases "prefix n (c # s)")
    case False
    with Cons.prems(1) obtain j where j: "find_sub n s = Some j" "i = Suc j" by auto
    have "\<not> prefix n (c # take j s)" using False take_is_prefix [of "Suc j" "c # s"] by (metis prefix_order.trans take_Suc_Cons)
    with Cons.IH [OF j(1) Cons.prems(2)] j(2) show ?thesis by simp
  qed (use Cons in auto)
qed simp

lemma scan_unclosed: "snd (ld_scan 0 (Suc 0) None s) = None \<longleftrightarrow> unclosed s"
proof
  assume n: "snd (ld_scan 0 (Suc 0) None s) = None"
  show "unclosed s" unfolding unclosed_def
  proof (intro allI impI notI)
    fix x r assume "s = x @ CHR '')'' # r" "bal 0 x"
    with scan_closes [of 0 x 0 None r] n show False by auto
  qed
next
  assume "unclosed s"
  then show "snd (ld_scan 0 (Suc 0) None s) = None"
    using scan_found [of 0 0 None s "fst (ld_scan 0 (Suc 0) None s)"]
    by (cases "ld_scan 0 (Suc 0) None s"; cases "snd (ld_scan 0 (Suc 0) None s)") (auto simp: unclosed_def)
qed

lemma flatten_doc: "doc_ok d t \<Longrightarrow> flatten_light_dark (doc_text d t) = doc_flat d t"
proof (induction d)
  case Nil
  then consider "\<not> contains needle t" | p s where "t = p @ needle @ s" "\<not> contains needle p" "unclosed s" by (auto simp: tail_ok_def)
  then show ?case
  proof cases
    case 1
    then show ?thesis by (subst flatten_light_dark.simps) (simp add: contains_find_sub split: option.split)
  next
    case (2 p s)
    then have "snd (ld_scan 0 (Suc 0) None s) = None" by (simp add: scan_unclosed)
    then show ?thesis using 2 by (cases "ld_scan 0 (Suc 0) None s") (simp add: flatten_at split: option.split)
  qed
next
  case (Cons pc d)
  obtain p c where pc: "pc = (p, c)" by (cases pc)
  show ?case
  proof (cases c)
    case (Pair a b)
    have "flatten_light_dark (p @ needle @ a @ CHR '','' # b @ CHR '')'' # doc_text d t) = p @ strip a @ flatten_light_dark (doc_text d t)"
      using Cons.prems pc Pair scan_pair [of a b "doc_text d t"] by (simp add: flatten_at)
    with Cons pc Pair show ?thesis by simp
  next
    case (Single a)
    have "flatten_light_dark (p @ needle @ a @ CHR '')'' # doc_text d t) = p @ needle @ a @ '')'' @ flatten_light_dark (doc_text d t)"
      using Cons.prems pc Single scan_single [of a "doc_text d t"] by (simp add: flatten_at)
    with Cons pc Single show ?thesis by simp
  qed
qed

lemma doc_exists: "\<exists>d t. src = doc_text d t \<and> doc_ok d t"
proof (induction "length src" arbitrary: src rule: less_induct)
  case less
  show ?case
  proof (cases "contains needle src")
    case False
    then have "src = doc_text [] src \<and> doc_ok [] src" by (simp add: tail_ok_def)
    then show ?thesis by blast
  next
    case True
    then obtain idx where i: "find_sub needle src = Some idx" by (auto simp: contains_find_sub)
    let ?p = "take idx src" and ?s = "drop (idx + length needle) src"
    have t: "src = ?p @ needle @ ?s" and p: "\<not> contains needle ?p"
      using find_sub_Some [OF i] find_sub_first [OF i] by (simp_all add: needle_def)
    show ?thesis
    proof (cases "snd (ld_scan 0 (Suc 0) None ?s)")
      case None
      then have "tail_ok src" unfolding tail_ok_def using t p scan_unclosed by blast
      then have "src = doc_text [] src \<and> doc_ok [] src" by simp
      then show ?thesis by blast
    next
      case (Some e)
      then obtain x r where x: "?s = x @ CHR '')'' # r"
        "arg 0 x \<or> (\<exists>a b. x = a @ CHR '','' # b \<and> arg 0 a \<and> bal 0 b)"
        using scan_found [of 0 0 None ?s "fst (ld_scan 0 (Suc 0) None ?s)" e] by (cases "ld_scan 0 (Suc 0) None ?s") auto
      have "length r < length src" using arg_cong [OF t, of length] x(1) by simp
      from less [OF this] obtain d u where d: "r = doc_text d u" "doc_ok d u" by blast
      from x(2) obtain c where "needle @ ?s = call_text c @ r" "call_ok c"
        using x(1) by (metis (no_types, lifting) append_Cons append_Nil append_assoc call_ok.simps call_text.simps)
      then have "src = doc_text ((?p, c) # d) u \<and> doc_ok ((?p, c) # d) u" using t p d by simp
      then show ?thesis by blast
    qed
  qed
qed

text \<open>
  (C29) What the scan does to an arbitrary text. Every text splits into calls of \<^verbatim>\<open>light-dark\<close> with
  text between them, where the last call may be unclosed; the result has each call of two
  arguments replaced by its first one, trimmed, and every other character in place.
\<close>

theorem flatten_light_dark_exact:
  "\<exists>d t. svg = doc_text d t \<and> doc_ok d t \<and> flatten_light_dark svg = doc_flat d t"
  using doc_exists flatten_doc by metis

text \<open>The first argument is not looked into: a nested call stays.\<close>

lemma flatten_nested: "flatten_light_dark ''light-dark(light-dark(a, b), c)'' = ''light-dark(a, b)''"
  by code_simp

end
