(* ===== verification/Tcl_Flist.thy ===== *)
theory Tcl_Flist
  imports Py_Regex Repo
begin

text \<open>
  \<^verbatim>\<open>bin/vivado_tcl_to_flist.py\<close>: the source files that a Vivado project script reads, one per line.
\<close>

section \<open>The script\<close>

definition READ_RE :: rx where
  "READ_RE = rseq [RBol False, star is_space, rlit ''read_'', RAlt (rlit ''verilog'') (rlit ''vhdl''), RWordb,
     lazy not_NL, RChr ((=) CHR ''{''), RGrp ''1'' (plus1 ((\<noteq>) CHR ''}'')), RChr ((=) CHR ''}'')]"

text \<open>
  An absolute path is kept, with its separators normalised as \<^verbatim>\<open>Path\<close> does (exactly two slashes at
  the start stay two); a relative one is resolved below the work root, an absolute path.
\<close>

definition resolve_path :: "string \<Rightarrow> fpath \<Rightarrow> string" where
  "resolve_path path work_root =
     (if prefix ''/'' path
      then (if prefix ''//'' path \<and> \<not> prefix ''///'' path then ''/'' else []) @ path_str (components path)
      else path_str (norm_path [] (path_join work_root path)))"

definition flist_files :: "string \<Rightarrow> fpath \<Rightarrow> string list" where
  "flist_files tcl work_root =
     concat (map (\<lambda>line. case re_match READ_RE line of None \<Rightarrow> [] | Some g \<Rightarrow> [resolve_path (group ''1'' g) work_root])
       (splitlines tcl))"

definition flist_main :: "fpath \<Rightarrow> fpath \<Rightarrow> fpath \<Rightarrow> repo \<Rightarrow> repo \<times> nat res" where
  "flist_main tcl work_root out r =
     then_do (look (\<lambda>r. read_text r tcl) r) (\<lambda>text r. (write_text r out (unlines (flist_files text work_root)), Inr 0))"

section \<open>What it lists\<close>

lemma first_lazy:
  assumes "\<And>u v. o' = u @ v \<Longrightarrow> v \<noteq> [] \<Longrightarrow> rmatch q (rev u @ pre, v @ s, g) = []" "list_all P o'"
    and "first (rmatch q (rev o' @ pre, s, g)) = Some st"
  shows "first (rmatch (RSeq (lazy P) q) (pre, o' @ s, g)) = Some st"
  using assms
proof (induction o' arbitrary: pre)
  case Nil
  then show ?case by (cases s) (auto simp: rmatch_lazy_Cons rmatch_star_Nil first_append split: list.splits option.splits)
next
  case (Cons c o')
  have "rmatch q (pre, c # o' @ s, g) = []" using Cons.prems(1) [of "[]" "c # o'"] by simp
  moreover have "first (rmatch (RSeq (lazy P) q) (c # pre, o' @ s, g)) = Some st"
    by (rule Cons.IH) (use Cons.prems(1) [of "c # _"] Cons.prems(2,3) in auto)
  ultimately show ?case using Cons.prems(2) by (simp add: rmatch_lazy_Cons)
qed

text \<open>A read command with options and a path in braces is listed with exactly that path.\<close>

lemma read_line:
  assumes "list_all is_space ws" "cmd \<in> {''verilog'', ''vhdl''}" "opts \<noteq> []" "\<not> is_word (hd opts)"
    and "list_all not_NL opts" "CHR ''{'' \<notin> set opts" "p \<noteq> []" "CHR ''}'' \<notin> set p"
  shows "re_match READ_RE (ws @ ''read_'' @ cmd @ opts @ ''{'' @ p @ ''}'' @ rest) = Some [(''1'', p)]"
proof -
  let ?name = "RSeq (RGrp ''1'' (plus1 ((\<noteq>) CHR ''}''))) (RChr ((=) CHR ''}''))" and ?t = "''{'' @ p @ ''}'' @ rest"
  let ?q = "RSeq (RChr ((=) CHR ''{'')) ?name"
  have name: "first (rmatch ?name (pre, p @ ''}'' @ rest, [])) = Some (CHR ''}'' # rev p @ pre, rest, [(''1'', p)])" for pre
  proof -
    have "first (rmatch (plus1 ((\<noteq>) CHR ''}'')) (pre, p @ ''}'' @ rest, [])) = Some (rev p @ pre, ''}'' @ rest, [])"
      by (rule first_plus [OF refl assms(7)]) (use assms(8) in \<open>auto simp: list_all_iff\<close>)
    then show ?thesis by (rule first_seq [OF first_grp [OF _ refl] first_chr]) simp_all
  qed
  have q: "first (rmatch ?q (pre, ?t, [])) = Some (CHR ''}'' # rev p @ CHR ''{'' # pre, rest, [(''1'', p)])" for pre
    by (rule first_seq [OF first_chr name]) simp_all
  have none: "rmatch ?q (pre, v @ ?t, []) = []" if "opts = u @ v" "v \<noteq> []" for u v pre
    using that assms(6) by (cases v) auto
  have lazy: "first (rmatch (RSeq (lazy not_NL) ?q) (pre, opts @ ?t, [])) =
      Some (CHR ''}'' # rev p @ CHR ''{'' # rev opts @ pre, rest, [(''1'', p)])" for pre
    by (rule first_lazy [OF none assms(5) q])
  have cmd: "first (rmatch (RAlt (rlit ''verilog'') (rlit ''vhdl'')) (pre, cmd @ opts @ ?t, [])) = Some (rev cmd @ pre, opts @ ?t, [])" for pre
    using assms(2) by (auto simp: first_append)
  have wb: "word_boundary (rev cmd @ pre) (opts @ ?t)" for pre
  proof -
    have "is_word CHR ''g''" "is_word CHR ''l''" by code_simp+
    then show ?thesis using assms(2-4) by (cases opts) (auto simp: word_boundary_def)
  qed
  have nsp: "''read_'' @ cmd @ opts @ ?t = [] \<or> \<not> is_space (hd (''read_'' @ cmd @ opts @ ?t))" by (simp add: is_space_bits)
  have "first (rmatch READ_RE ([], ws @ ''read_'' @ cmd @ opts @ ?t, [])) =
      Some (CHR ''}'' # rev p @ CHR ''{'' # rev opts @ rev cmd @ rev ''read_'' @ rev ws @ [], rest, [(''1'', p)])"
    unfolding READ_RE_def rseq.simps
    by (rule first_seq [OF _ first_seq [OF first_star [OF refl assms(1) nsp] first_seq [OF first_lit [OF refl] first_seq [OF cmd
        first_seq [OF first_wordb [OF wb] lazy]]]]]) (simp add: at_bol_def)
  then show ?thesis by (simp add: re_match_first)
qed


text \<open>The list of a project script whose lines are read commands is the list of their paths, resolved, in order.\<close>

lemma flist_exact:
  assumes "list_all (\<lambda>(ws, cmd, opts, p, rest). one_line (ws @ opts @ p @ rest) \<and> list_all is_space ws \<and> cmd \<in> {''verilog'', ''vhdl''} \<and>
      opts \<noteq> [] \<and> \<not> is_word (hd opts) \<and> CHR ''{'' \<notin> set opts \<and> p \<noteq> [] \<and> CHR ''}'' \<notin> set p) cmds"
  shows "flist_files (unlines (map (\<lambda>(ws, cmd, opts, p, rest). ws @ ''read_'' @ cmd @ opts @ ''{'' @ p @ ''}'' @ rest) cmds)) wr =
    map (\<lambda>(ws, cmd, opts, p, rest). resolve_path p wr) cmds"
proof -
  let ?line = "\<lambda>(ws, cmd, opts, p, rest). ws @ ''read_'' @ cmd @ opts @ ''{'' @ p @ ''}'' @ rest"
  have "list_all one_line (map ?line cmds)" using assms
    by (auto simp: list_all_iff is_linebreak_bits)
  moreover have "re_match READ_RE (?line c) = Some [(''1'', (\<lambda>(ws, cmd, opts, p, rest). p) c)]" if "c \<in> set cmds" for c
  proof -
    obtain ws cmd opts p rest where c: "c = (ws, cmd, opts, p, rest)" by (cases c) auto
    have "list_all not_NL opts" using assms that c one_line_no_NL [of opts] by (auto simp: list_all_iff not_NL_def)
    then show ?thesis using read_line [of ws cmd opts p rest] assms that c by (auto simp: list_all_iff)
  qed
  ultimately show ?thesis
    unfolding flist_files_def by (simp only: splitlines_unlines map_map, induction cmds) (simp_all add: group_def split: prod.splits)
qed

end
