(* ===== verification/Deps_Core.thy ===== *)
theory Deps_Core
  imports Scaffold
begin

text \<open>
  \<^verbatim>\<open>bin/deps_core.py\<close>: fetching the dependency of a core. The script drives \<^verbatim>\<open>git\<close> and
  changes directories and symbolic links, so the file system here has directories and links, and
  paths are walked as the operating system walks them. \<^verbatim>\<open>git\<close> itself is a parameter: a function
  that may change the world and returns the exit status and the captured output, or an error when
  it cannot be started.
\<close>

section \<open>Directories and links\<close>

datatype node = File | Dir | Link string

type_synonym fs = "fpath \<Rightarrow> node option"

datatype errno = ENOENT | ENOTDIR | ELOOP | EEXIST | EISDIR

fun os_error :: "errno \<Rightarrow> err" where
  "os_error ENOENT = Raise FileNotFoundError"
| "os_error ENOTDIR = Raise (OSError ''ENOTDIR'')"
| "os_error ELOOP = Raise (OSError ''ELOOP'')"
| "os_error EEXIST = Raise (OSError ''EEXIST'')"
| "os_error EISDIR = Raise (OSError ''EISDIR'')"

text \<open>
  The walk from the directory \<open>p\<close> along the components \<open>cs\<close>, with at most \<open>n\<close> links on the way. The
  last component need not exist, and is not followed when \<open>follow\<close> is false.
\<close>

fun locate :: "fs \<Rightarrow> bool \<Rightarrow> nat \<Rightarrow> fpath \<Rightarrow> string list \<Rightarrow> errno + fpath" where
  "locate fs follow n p [] = Inr p"
| "locate fs follow n p (c # cs) =
     (if c = ''..'' then locate fs follow n (butlast p) cs
      else case fs (p @ [c]) of
        None \<Rightarrow> if cs = [] then Inr (p @ [c]) else Inl ENOENT
      | Some File \<Rightarrow> if cs = [] then Inr (p @ [c]) else Inl ENOTDIR
      | Some Dir \<Rightarrow> locate fs follow n (p @ [c]) cs
      | Some (Link t) \<Rightarrow>
          if cs = [] \<and> \<not> follow then Inr (p @ [c])
          else if n = 0 then Inl ELOOP
          else locate fs follow (n - 1) (if prefix ''/'' t then [] else p) (components t @ cs))"

definition MAXSYMLINKS :: nat where
  "MAXSYMLINKS = 40"

definition node_at :: "fs \<Rightarrow> fpath \<Rightarrow> node option" where
  "node_at fs p = (if p = [] then Some Dir else fs p)"

definition stat :: "fs \<Rightarrow> fpath \<Rightarrow> node option" where
  "stat fs p = (case locate fs True MAXSYMLINKS [] p of Inl _ \<Rightarrow> None | Inr q \<Rightarrow> node_at fs q)"

definition lstat :: "fs \<Rightarrow> fpath \<Rightarrow> errno + fpath \<times> node option" where
  "lstat fs p = (case locate fs False MAXSYMLINKS [] p of Inl e \<Rightarrow> Inl e | Inr q \<Rightarrow> Inr (q, node_at fs q))"

definition os_mkdir :: "fs \<Rightarrow> fpath \<Rightarrow> errno + fs" where
  "os_mkdir fs p = (case lstat fs p of Inl e \<Rightarrow> Inl e | Inr (q, None) \<Rightarrow> Inr (fs(q \<mapsto> Dir)) | Inr (q, Some _) \<Rightarrow> Inl EEXIST)"

text \<open>\<^verbatim>\<open>Path.mkdir\<close> with \<^verbatim>\<open>exist_ok=True\<close>, alone and with \<^verbatim>\<open>parents=True\<close> on a reversed path.\<close>

definition mkdir_once :: "fpath \<Rightarrow> fs \<Rightarrow> fs \<times> unit res" where
  "mkdir_once p fs =
     (case os_mkdir fs p of
        Inr fs' \<Rightarrow> (fs', Inr ())
      | Inl e \<Rightarrow> (fs, if stat fs p = Some Dir then Inr () else Inl (os_error e)))"

fun mkdir_parents :: "string list \<Rightarrow> fs \<Rightarrow> fs \<times> unit res" where
  "mkdir_parents [] fs = mkdir_once [] fs"
| "mkdir_parents (c # rp) fs =
     (if os_mkdir fs (rev (c # rp)) = Inl ENOENT
      then then_do (mkdir_parents rp fs) (\<lambda>_. mkdir_once (rev (c # rp)))
      else mkdir_once (rev (c # rp)) fs)"

definition unlink_missing_ok :: "fpath \<Rightarrow> fs \<Rightarrow> fs \<times> unit res" where
  "unlink_missing_ok p fs =
     (case lstat fs p of
        Inl e \<Rightarrow> (fs, if e = ENOENT then Inr () else Inl (os_error e))
      | Inr (q, None) \<Rightarrow> (fs, Inr ())
      | Inr (q, Some Dir) \<Rightarrow> (fs, Inl (os_error EISDIR))
      | Inr (q, Some _) \<Rightarrow> (fs(q := None), Inr ()))"

definition symlink_to :: "fpath \<Rightarrow> string \<Rightarrow> fs \<Rightarrow> fs \<times> unit res" where
  "symlink_to p target fs =
     (case lstat fs p of
        Inl e \<Rightarrow> (fs, Inl (os_error e))
      | Inr (q, None) \<Rightarrow> (fs(q \<mapsto> Link target), Inr ())
      | Inr (q, Some _) \<Rightarrow> (fs, Inl (os_error EEXIST)))"

section \<open>The script\<close>

text \<open>
  The world: the file system, whatever else \<^verbatim>\<open>git\<close> and the network keep, the lines the script has
  printed and the seconds it has slept.
\<close>

record 'g world =
  w_fs :: fs
  w_ext :: 'g
  w_said :: "string list"
  w_slept :: nat

type_synonym 'g git = "string list \<Rightarrow> fpath option \<Rightarrow> 'g world \<Rightarrow> (fs \<times> 'g) \<times> (int \<times> string) res"

text \<open>\<^verbatim>\<open>subprocess.run(cmd, cwd=cwd)\<close>: the command sees the world and changes its part of it.\<close>

definition spawn :: "'g git \<Rightarrow> string list \<Rightarrow> fpath option \<Rightarrow> 'g world \<Rightarrow> 'g world \<times> (int \<times> string) res" where
  "spawn git cmd cwd w = (case git cmd cwd w of ((fs, g), x) \<Rightarrow> (w\<lparr>w_fs := fs, w_ext := g\<rparr>, x))"

definition on_fs :: "(fs \<Rightarrow> fs \<times> unit res) \<Rightarrow> 'g world \<Rightarrow> 'g world \<times> unit res" where
  "on_fs f w = (case f (w_fs w) of (fs, x) \<Rightarrow> (w\<lparr>w_fs := fs\<rparr>, x))"

definition say :: "string \<Rightarrow> 'g world \<Rightarrow> 'g world" where
  "say line w = w\<lparr>w_said := w_said w @ [line]\<rparr>"

definition sleep :: "nat \<Rightarrow> 'g world \<Rightarrow> 'g world" where
  "sleep s w = w\<lparr>w_slept := w_slept w + s\<rparr>"

text \<open>\<^verbatim>\<open>check=True\<close>: a non-zero status raises.\<close>

definition checked :: "'g world \<times> (int \<times> string) res \<Rightarrow> 'g world \<times> string res" where
  "checked m = then_do m (\<lambda>(rc, out) w. (w, if rc = 0 then Inr out else Inl (Raise (CalledProcessError rc))))"

definition deps_run :: "'g git \<Rightarrow> string list \<Rightarrow> fpath option \<Rightarrow> 'g world \<Rightarrow> 'g world \<times> unit res" where
  "deps_run git cmd cwd w = then_do (checked (spawn git cmd cwd w)) (\<lambda>_ w. (w, Inr ()))"

fun retry_loop :: "'g git \<Rightarrow> string list \<Rightarrow> fpath \<Rightarrow> nat \<Rightarrow> nat list \<Rightarrow> 'g world \<Rightarrow> 'g world \<times> unit res" where
  "retry_loop git cmd cwd attempts [] w = (w, Inr ())"
| "retry_loop git cmd cwd attempts (attempt # later) w =
     then_do (spawn git cmd (Some cwd) w) (\<lambda>(returncode, _) w.
       if returncode = 0 then (w, Inr ())
       else if attempt = attempts
       then (w, Inl (Exit (quoted (join '' '' cmd) @ '' failed '' @ py_str (int attempts) @ '' times (last exit '' @
               py_str returncode @ '')'')))
       else retry_loop git cmd cwd attempts later
              (sleep (2 ^ attempt) (say (quoted (join '' '' cmd) @ '' failed (exit '' @ py_str returncode @
                 ''); retrying in '' @ py_str (2 ^ attempt) @ '' s'') w)))"

definition run_with_retry :: "'g git \<Rightarrow> string list \<Rightarrow> fpath \<Rightarrow> nat \<Rightarrow> 'g world \<Rightarrow> 'g world \<times> unit res" where
  "run_with_retry git cmd cwd attempts = retry_loop git cmd cwd attempts [1..<attempts + 1]"

definition commit_exists :: "'g git \<Rightarrow> fpath \<Rightarrow> string \<Rightarrow> 'g world \<Rightarrow> 'g world \<times> bool res" where
  "commit_exists git checkout revision w =
     then_do (spawn git [''git'', ''cat-file'', ''-e'', revision @ ''^{commit}''] (Some checkout) w) (\<lambda>(returncode, _) w.
     (w, Inr (returncode = 0)))"

definition is_shallow_or_empty :: "'g git \<Rightarrow> fpath \<Rightarrow> 'g world \<Rightarrow> 'g world \<times> bool res" where
  "is_shallow_or_empty git checkout w =
     then_do (checked (spawn git [''git'', ''rev-parse'', ''--is-shallow-repository''] (Some checkout) w)) (\<lambda>out w.
     if strip out = ''true'' then (w, Inr True)
     else then_do (commit_exists git checkout ''HEAD'' w) (\<lambda>e w. (w, Inr (\<not> e))))"

definition sanitize_checkout :: "string \<Rightarrow> fpath \<Rightarrow> 'g world \<Rightarrow> 'g world \<times> unit res" where
  "sanitize_checkout package checkout w =
     (if package = ''picorv32'' then on_fs (unlink_missing_ok (checkout @ [''picorv32.core''])) w else (w, Inr ()))"

text \<open>\<^verbatim>\<open>Path(s).parts[:1] == ("deps",)\<close>.\<close>

definition under_deps :: "string \<Rightarrow> bool" where
  "under_deps s = (\<not> prefix ''/'' s \<and> take 1 (components s) = [''deps''])"

definition is_git_dir :: "'g world \<Rightarrow> fpath \<Rightarrow> bool" where
  "is_git_dir w checkout = (stat (w_fs w) (checkout @ [''.git'']) = Some Dir)"

text \<open>Fetching: the branch of \<^verbatim>\<open>checkout_dependency\<close> for a checkout that is not a plain copy.\<close>

definition fetch_revision :: "'g git \<Rightarrow> fpath \<Rightarrow> string \<Rightarrow> string \<Rightarrow> 'g world \<Rightarrow> 'g world \<times> unit res" where
  "fetch_revision git checkout upstream revision w =
     then_do (if is_git_dir w checkout then (w, Inr ())
       else then_do (deps_run git [''git'', ''init'', ''--quiet'', path_str checkout] None w) (\<lambda>_.
            deps_run git [''git'', ''remote'', ''add'', ''origin'', upstream] (Some checkout))) (\<lambda>_ w.
     then_do (commit_exists git checkout revision w) (\<lambda>present w.
     then_do (if present then (w, Inr ())
       else then_do (is_shallow_or_empty git checkout w) (\<lambda>shallow.
            if shallow then run_with_retry git [''git'', ''fetch'', ''--depth'', ''1'', ''origin'', revision] checkout 4
            else run_with_retry git [''git'', ''fetch'', ''--tags'', ''--prune'', ''origin''] checkout 4)) (\<lambda>_.
     deps_run git [''git'', ''checkout'', ''--force'', revision] (Some checkout))))"

definition link_checkout :: "string \<Rightarrow> string \<Rightarrow> fpath \<Rightarrow> fpath \<Rightarrow> 'g world \<Rightarrow> 'g world \<times> unit res" where
  "link_checkout core package checkout link w =
     then_do (sanitize_checkout package checkout w) (\<lambda>_ w.
     then_do (on_fs (unlink_missing_ok link) w) (\<lambda>_ w.
     then_do (on_fs (symlink_to link (path_str checkout)) w) (\<lambda>_ w.
     (say (''CORE='' @ core @ '': '' @ package @ '' -> '' @ path_str checkout) w, Inr ()))))"

definition make_parents :: "fpath \<Rightarrow> fpath \<Rightarrow> 'g world \<Rightarrow> 'g world \<times> unit res" where
  "make_parents checkout link w =
     then_do (on_fs (mkdir_parents (tl (rev checkout))) w) (\<lambda>_. on_fs (mkdir_parents (tl (rev link))))"

text \<open>A checkout that \<^verbatim>\<open>bender\<close> has copied is used as it is.\<close>

definition vendor_copy :: "'g world \<Rightarrow> fpath \<Rightarrow> bool" where
  "vendor_copy w checkout = (stat (w_fs w) checkout \<noteq> None \<and> \<not> is_git_dir w checkout)"

definition place_dependency ::
    "'g git \<Rightarrow> string \<Rightarrow> string \<Rightarrow> fpath \<Rightarrow> fpath \<Rightarrow> string \<Rightarrow> string \<Rightarrow> 'g world \<Rightarrow> 'g world \<times> unit res" where
  "place_dependency git core package checkout link upstream revision w =
     then_do (make_parents checkout link w) (\<lambda>_ w.
     then_do (if vendor_copy w checkout then (w, Inr ()) else fetch_revision git checkout upstream revision w) (\<lambda>_.
     link_checkout core package checkout link))"

definition checkout_path :: "repo \<Rightarrow> string \<Rightarrow> fpath" where
  "checkout_path r package = path_join (root r @ [''.bender'', ''vendor'']) package"

text \<open>What the descriptor must say, in the order of the checks.\<close>

definition dependency_fields :: "string \<Rightarrow> string \<Rightarrow> string \<Rightarrow> (string \<times> string \<times> string \<times> string) res" where
  "dependency_fields core text manager =
     (let field = (\<lambda>k. case deps_yaml_path_scalar text [''dependency'', k] of None \<Rightarrow> [] | Some v \<Rightarrow> v);
          package = field ''package''; path_text = field ''path''; upstream = field ''upstream''; revision = field ''rev''
      in fail_if (package = [] \<or> path_text = [] \<or> upstream = [] \<or> revision = [])
           (''CORE '' @ quoted core @ '' dependency requires package, path, upstream, and rev'') (
         fail_if (manager \<notin> {''bender_vendor_package'', ''project_local_git_checkout''})
           (''unsupported dependency manager for CORE '' @ quoted core @ '': '' @ manager) (
         fail_if (\<not> under_deps path_text)
           (''CORE '' @ quoted core @ '' dependency path must be under deps/: '' @ path_text) (
         Inr (package, path_text, upstream, revision)))))"

definition checkout_dependency :: "'g git \<Rightarrow> repo \<Rightarrow> string \<Rightarrow> 'g world \<Rightarrow> 'g world \<times> unit res" where
  "checkout_dependency git r core w =
     (let descriptor = descriptor_path (CORE_DIR r) core
      in then_do (w, fail_if (\<not> is_file r descriptor) (''unknown CORE '' @ quoted core) (read_text r descriptor)) (\<lambda>text w.
         case deps_yaml_path_scalar text [''dependency'', ''manager''] of
           None \<Rightarrow> (say (''CORE='' @ core @ '': no external core dependency'') w, Inr ())
         | Some manager \<Rightarrow>
             then_do (w, dependency_fields core text manager) (\<lambda>(package, path_text, upstream, revision).
             place_dependency git core package (checkout_path r package) (path_join (root r) path_text) upstream revision)))"

section \<open>Retrying\<close>

text \<open>The world when attempt \<open>Suc k\<close> starts, and the exit status of that attempt.\<close>

fun before_attempt :: "'g git \<Rightarrow> string list \<Rightarrow> fpath \<Rightarrow> nat \<Rightarrow> 'g world \<Rightarrow> 'g world" where
  "before_attempt git cmd cwd 0 w = w"
| "before_attempt git cmd cwd (Suc k) w =
     (case spawn git cmd (Some cwd) (before_attempt git cmd cwd k w) of
        (w', Inl _) \<Rightarrow> w'
      | (w', Inr (returncode, _)) \<Rightarrow>
          sleep (2 ^ Suc k) (say (quoted (join '' '' cmd) @ '' failed (exit '' @ py_str returncode @
            ''); retrying in '' @ py_str (2 ^ Suc k) @ '' s'') w'))"

definition attempt_status :: "'g git \<Rightarrow> string list \<Rightarrow> fpath \<Rightarrow> nat \<Rightarrow> 'g world \<Rightarrow> int option" where
  "attempt_status git cmd cwd k w =
     (case snd (spawn git cmd (Some cwd) (before_attempt git cmd cwd k w)) of Inl _ \<Rightarrow> None | Inr (rc, _) \<Rightarrow> Some rc)"

abbreviation attempt_fails :: "'g git \<Rightarrow> string list \<Rightarrow> fpath \<Rightarrow> nat \<Rightarrow> 'g world \<Rightarrow> bool" where
  "attempt_fails git cmd cwd k w \<equiv> \<exists>rc. attempt_status git cmd cwd k w = Some rc \<and> rc \<noteq> 0"

lemma status_spawn:
  "attempt_status git cmd cwd k w = Some rc \<longleftrightarrow>
     (\<exists>w' out. spawn git cmd (Some cwd) (before_attempt git cmd cwd k w) = (w', Inr (rc, out)))"
  by (cases "spawn git cmd (Some cwd) (before_attempt git cmd cwd k w)") (auto simp: attempt_status_def split: sum.splits)

lemma attempts_left: "k < n \<Longrightarrow> [Suc k..<Suc n] = Suc k # [Suc (Suc k)..<Suc n]"
  by (rule upt_conv_Cons) simp

lemma retry_skip:
  assumes "k < attempts" "attempt_fails git cmd cwd k w" "Suc k \<noteq> attempts"
  shows "retry_loop git cmd cwd attempts [Suc k..<attempts + 1] (before_attempt git cmd cwd k w) =
    retry_loop git cmd cwd attempts [Suc (Suc k)..<attempts + 1] (before_attempt git cmd cwd (Suc k) w)"
  using assms by (auto simp: status_spawn attempts_left simp del: upt_Suc)

lemma retry_reaches:
  "\<forall>j<k. attempt_fails git cmd cwd j w \<Longrightarrow> k < attempts \<Longrightarrow>
     run_with_retry git cmd cwd attempts w = retry_loop git cmd cwd attempts [Suc k..<attempts + 1] (before_attempt git cmd cwd k w)"
proof (induction k)
  case (Suc k)
  then show ?case using retry_skip [of k attempts git cmd cwd w] by simp
qed (simp add: run_with_retry_def)

lemma retry_succeeds:
  assumes "\<forall>j<k. attempt_fails git cmd cwd j w" "k < attempts" "attempt_status git cmd cwd k w = Some 0"
  shows "run_with_retry git cmd cwd attempts w = (fst (spawn git cmd (Some cwd) (before_attempt git cmd cwd k w)), Inr ())"
  using retry_reaches [OF assms(1,2)] assms(2,3) by (auto simp: status_spawn attempts_left simp del: upt_Suc)

lemma retry_gives_up:
  assumes "\<forall>j<attempts. attempt_fails git cmd cwd j w" "0 < attempts"
  shows "\<exists>msg. run_with_retry git cmd cwd attempts w =
    (fst (spawn git cmd (Some cwd) (before_attempt git cmd cwd (attempts - 1) w)), Inl (Exit msg))"
proof -
  obtain k where k: "attempts = Suc k" using assms(2) by (cases attempts) auto
  with assms(1) have "attempt_fails git cmd cwd k w" "\<forall>j<k. attempt_fails git cmd cwd j w" by auto
  then show ?thesis using retry_reaches [of k git cmd cwd w attempts] k by (auto simp: status_spawn attempts_left simp del: upt_Suc)
qed

lemma spawn_slept [simp]: "w_slept (fst (spawn git cmd cwd w)) = w_slept w" "w_said (fst (spawn git cmd cwd w)) = w_said w"
  by (auto simp: spawn_def split: prod.splits)

lemma attempts_slept:
  "\<forall>j<k. attempt_fails git cmd cwd j w \<Longrightarrow> w_slept (before_attempt git cmd cwd k w) + 2 = w_slept w + 2 ^ Suc k"
proof (induction k)
  case (Suc k)
  then obtain rc w' out where s: "spawn git cmd (Some cwd) (before_attempt git cmd cwd k w) = (w', Inr (rc, out))"
    by (auto simp: status_spawn dest: spec [of _ k])
  then have "w_slept w' = w_slept (before_attempt git cmd cwd k w)" using spawn_slept(1) by (metis fst_conv)
  with Suc s show ?case by (simp add: sleep_def say_def)
qed simp

section \<open>Links\<close>

lemma locate_new:
  "locate fs False n p cs = Inr q \<Longrightarrow> node_at fs q = None \<Longrightarrow> locate (fs(q \<mapsto> x)) False n p cs = Inr q"
proof (induction fs False n p cs rule: locate.induct)
  case (2 fs n p c cs)
  show ?case
  proof (cases "c \<noteq> ''..'' \<and> p @ [c] = q")
    case True
    then have "fs q = None" "q \<noteq> []" using "2.prems"(2) by (auto simp: node_at_def split: if_splits)
    with True "2.prems" show ?thesis by (cases x) (auto split: if_splits)
  next
    case False
    with 2 show ?thesis by (auto simp: fun_upd_def split: option.splits node.splits if_splits)
  qed
qed simp

definition read_link :: "fs \<Rightarrow> fpath \<Rightarrow> string option" where
  "read_link fs p = (case lstat fs p of Inr (_, Some (Link t)) \<Rightarrow> Some t | _ \<Rightarrow> None)"

lemma symlink_read: "symlink_to p t fs = (fs', Inr ()) \<Longrightarrow> read_link fs' p = Some t"
proof -
  assume "symlink_to p t fs = (fs', Inr ())"
  then obtain q where q: "locate fs False MAXSYMLINKS [] p = Inr q" "node_at fs q = None" "fs' = fs(q \<mapsto> Link t)"
    by (auto simp: symlink_to_def lstat_def split: sum.splits option.splits)
  moreover have "q \<noteq> []" using q(2) by (auto simp: node_at_def)
  ultimately show ?thesis using locate_new [OF q(1,2), of "Link t"] by (simp add: read_link_def lstat_def node_at_def)
qed

lemma on_fs_ok [res_simps]: "on_fs f w = (w', Inr x) \<longleftrightarrow> (\<exists>fs. f (w_fs w) = (fs, Inr x) \<and> w' = w\<lparr>w_fs := fs\<rparr>)"
  by (auto simp: on_fs_def split: prod.splits)

lemma link_checkout_ok:
  "link_checkout core package d link w = (w', Inr ()) \<Longrightarrow> read_link (w_fs w') link = Some (path_str d) \<and> w_ext w' = w_ext w"
  by (auto simp: link_checkout_def sanitize_checkout_def res_simps say_def dest: symlink_read split: if_splits)

lemma deps_run_ok:
  "deps_run git cmd cwd w = (w', Inr ()) \<longleftrightarrow>
     (\<exists>fs g out. git cmd cwd w = ((fs, g), Inr (0, out)) \<and> w' = w\<lparr>w_fs := fs, w_ext := g\<rparr>)"
  by (auto simp: deps_run_def checked_def spawn_def then_do_ok split: prod.splits if_splits)

lemma fetch_pins:
  assumes "fetch_revision git d upstream revision w = (w', Inr ())"
  shows "\<exists>w1. deps_run git [''git'', ''checkout'', ''--force'', revision] (Some d) w1 = (w', Inr ())"
  using assms unfolding fetch_revision_def then_do_ok by blast

text \<open>
  (C11) A dependency that has been fetched is the pinned one. When the run ends normally for a
  descriptor with a dependency, the link of the dependency points to its checkout, and the checkout
  is at the pinned revision unless it is a copy made by \<^verbatim>\<open>bender\<close>. Of \<^verbatim>\<open>git\<close> this uses that a
  successful \<^verbatim>\<open>git checkout --force\<close> leaves the repository at the revision it was given.
\<close>

theorem deps_pinned:
  assumes "checkout_dependency git r core w = (w', Inr ())"
    and "lookup_file r (descriptor_path (CORE_DIR r) core) = Some descriptor"
    and "deps_yaml_path_scalar descriptor [''dependency'', ''manager''] = Some manager"
    and "\<And>d revision w fs g out. git [''git'', ''checkout'', ''--force'', revision] (Some d) w = ((fs, g), Inr (0, out)) \<Longrightarrow>
      head g d = Some revision"
  shows "\<exists>package path_text upstream revision.
    dependency_fields core descriptor manager = Inr (package, path_text, upstream, revision) \<and>
    read_link (w_fs w') (path_join (root r) path_text) = Some (path_str (checkout_path r package)) \<and>
    (head (w_ext w') (checkout_path r package) = Some revision \<or>
     vendor_copy (fst (make_parents (checkout_path r package) (path_join (root r) path_text) w)) (checkout_path r package))"
proof -
  have "is_file r (descriptor_path (CORE_DIR r) core)" "read_text r (descriptor_path (CORE_DIR r) core) = Inr descriptor"
    using assms(2) by (simp_all add: is_file_def read_text_def)
  with assms(1,3) have "then_do (w, dependency_fields core descriptor manager) (\<lambda>(package, path_text, upstream, revision).
      place_dependency git core package (checkout_path r package) (path_join (root r) path_text) upstream revision) = (w', Inr ())"
    by (simp add: checkout_dependency_def)
  then obtain package path_text upstream revision where f: "dependency_fields core descriptor manager = Inr (package, path_text, upstream, revision)"
    and p: "place_dependency git core package (checkout_path r package) (path_join (root r) path_text) upstream revision w = (w', Inr ())"
    by (auto simp: then_do_ok)
  let ?d = "checkout_path r package" and ?l = "path_join (root r) path_text"
  from p obtain w1 w2 where w: "make_parents ?d ?l w = (w1, Inr ())"
    "(if vendor_copy w1 ?d then (w1, Inr ()) else fetch_revision git ?d upstream revision w1) = (w2, Inr ())"
    "link_checkout core package ?d ?l w2 = (w', Inr ())"
    unfolding place_dependency_def then_do_ok by auto
  note l = link_checkout_ok [OF w(3)]
  have "head (w_ext w2) ?d = Some revision" if "\<not> vendor_copy w1 ?d"
  proof -
    from that w(2) fetch_pins [of git ?d upstream revision w1 w2] obtain w3 where
      "deps_run git [''git'', ''checkout'', ''--force'', revision] (Some ?d) w3 = (w2, Inr ())" by auto
    then show ?thesis using assms(4) by (auto simp: deps_run_ok)
  qed
  with f l w(1) show ?thesis by auto
qed

section \<open>Directories without links\<close>

text \<open>
  A way is clear when everything on it is missing or a directory; making its directories then
  succeeds and gives exactly them.
\<close>

definition clear :: "fs \<Rightarrow> fpath \<Rightarrow> bool" where
  "clear fs p = (''..'' \<notin> set p \<and> (\<forall>q. q \<noteq> [] \<longrightarrow> prefix q p \<longrightarrow> fs q \<in> {None, Some Dir}))"

definition dirs :: "fs \<Rightarrow> fpath \<Rightarrow> bool" where
  "dirs fs p = (''..'' \<notin> set p \<and> (\<forall>q. q \<noteq> [] \<longrightarrow> prefix q p \<longrightarrow> fs q = Some Dir))"

definition with_dirs :: "fpath \<Rightarrow> fs \<Rightarrow> fs" where
  "with_dirs p fs = (\<lambda>q. if q \<noteq> [] \<and> prefix q p then Some Dir else fs q)"

lemma clear_snoc: "clear fs (p @ [c]) \<longleftrightarrow> clear fs p \<and> c \<noteq> ''..'' \<and> fs (p @ [c]) \<in> {None, Some Dir}"
  by (auto simp: clear_def)

lemma dirs_snoc: "dirs fs (p @ [c]) \<longleftrightarrow> dirs fs p \<and> c \<noteq> ''..'' \<and> fs (p @ [c]) = Some Dir"
  by (auto simp: dirs_def)

lemma dirs_with_dirs: "''..'' \<notin> set p \<Longrightarrow> dirs (with_dirs p fs) p"
  by (auto simp: dirs_def with_dirs_def)

lemma with_dirs_same: "dirs fs p \<Longrightarrow> with_dirs p fs = fs"
  by (auto simp: dirs_def with_dirs_def fun_eq_iff)

lemma with_dirs_snoc: "with_dirs (p @ [c]) fs = (with_dirs p fs)(p @ [c] \<mapsto> Dir)"
  by (auto simp: with_dirs_def fun_eq_iff)

lemma locate_dirs: "dirs fs p \<Longrightarrow> locate fs follow n [] (p @ cs) = locate fs follow n p cs"
proof (induction p arbitrary: cs rule: rev_induct)
  case (snoc c p)
  then show ?case by (simp add: dirs_snoc)
qed simp

lemma locate_missing: "clear fs p \<Longrightarrow> \<not> dirs fs p \<Longrightarrow> cs \<noteq> [] \<Longrightarrow> locate fs follow n [] (p @ cs) = Inl ENOENT"
proof (induction p arbitrary: cs rule: rev_induct)
  case (snoc c p)
  then show ?case by (cases "dirs fs p") (auto simp: dirs_snoc clear_snoc locate_dirs)
qed (simp add: dirs_def)

lemma lstat_dirs: "dirs fs p \<Longrightarrow> c \<noteq> ''..'' \<Longrightarrow> lstat fs (p @ [c]) = Inr (p @ [c], fs (p @ [c]))"
  by (auto simp: lstat_def locate_dirs node_at_def split: option.splits node.splits)

lemma stat_dirs: "dirs fs p \<Longrightarrow> stat fs p = Some Dir"
  using locate_dirs [of fs p True MAXSYMLINKS "[]"] by (auto simp: stat_def node_at_def dirs_def)

lemma stat_absent: "dirs fs p \<Longrightarrow> c \<noteq> ''..'' \<Longrightarrow> fs (p @ [c]) = None \<Longrightarrow> stat fs (p @ c # cs) = None"
  by (auto simp: stat_def locate_dirs node_at_def)

lemma stat_below_absent:
  "p \<noteq> [] \<Longrightarrow> dirs fs (butlast p) \<Longrightarrow> last p \<noteq> ''..'' \<Longrightarrow> fs p = None \<Longrightarrow> stat fs (p @ cs) = None"
  by (cases p rule: rev_cases) (simp_all add: stat_absent)

lemma dirs_upd: "dirs fs p \<Longrightarrow> \<not> prefix q p \<Longrightarrow> dirs (fs(q := x)) p"
  by (auto simp: dirs_def)

lemma unlink_dirs:
  "dirs fs p \<Longrightarrow> c \<noteq> ''..'' \<Longrightarrow> fs (p @ [c]) \<noteq> Some Dir \<Longrightarrow> unlink_missing_ok (p @ [c]) fs = (fs(p @ [c] := None), Inr ())"
  by (auto simp: unlink_missing_ok_def lstat_dirs fun_upd_idem split: option.splits node.splits)

lemma symlink_dirs:
  "dirs fs p \<Longrightarrow> c \<noteq> ''..'' \<Longrightarrow> fs (p @ [c]) = None \<Longrightarrow> symlink_to (p @ [c]) t fs = (fs(p @ [c] \<mapsto> Link t), Inr ())"
  by (simp add: symlink_to_def lstat_dirs)

lemma mkdir_once_dirs:
  assumes "dirs fs p" "c \<noteq> ''..''" "fs (p @ [c]) \<in> {None, Some Dir}"
  shows "mkdir_once (p @ [c]) fs = (fs(p @ [c] \<mapsto> Dir), Inr ())"
proof (cases "fs (p @ [c])")
  case (Some x)
  then have "dirs fs (p @ [c])" using assms by (simp add: dirs_snoc)
  with Some assms show ?thesis by (simp add: mkdir_once_def os_mkdir_def lstat_dirs stat_dirs fun_upd_idem)
qed (use assms in \<open>simp add: mkdir_once_def os_mkdir_def lstat_dirs\<close>)

lemma mkdir_parents_clear: "clear fs p \<Longrightarrow> mkdir_parents (rev p) fs = (with_dirs p fs, Inr ())"
proof (induction p rule: rev_induct)
  case Nil
  have "dirs fs []" by (simp add: dirs_def)
  from stat_dirs [OF this] with_dirs_same [OF this] show ?case
    by (simp add: mkdir_once_def os_mkdir_def lstat_def node_at_def)
next
  case (snoc c p)
  then have c: "clear fs p" "c \<noteq> ''..''" "fs (p @ [c]) \<in> {None, Some Dir}" "''..'' \<notin> set p" by (simp_all add: clear_snoc) (simp add: clear_def)
  have w: "with_dirs p fs (p @ [c]) = fs (p @ [c])" by (simp add: with_dirs_def)
  show ?case
  proof (cases "dirs fs p")
    case True
    then have "os_mkdir fs (p @ [c]) \<noteq> Inl ENOENT" using c by (auto simp: os_mkdir_def lstat_dirs)
    then show ?thesis using mkdir_once_dirs [OF True c(2,3)] True by (simp add: with_dirs_snoc with_dirs_same fun_upd_def)
  next
    case False
    then have "os_mkdir fs (p @ [c]) = Inl ENOENT" using c locate_missing [of fs p "[c]"] by (simp add: os_mkdir_def lstat_def)
    then show ?thesis using snoc.IH c w mkdir_once_dirs [OF dirs_with_dirs, of p c fs] by (simp add: with_dirs_snoc fun_upd_def)
  qed
qed

section \<open>Fetching from a working git\<close>

text \<open>
  What the script relies on, for the repository at \<open>d\<close>. The observers are \<open>has g d c\<close>, the revision
  names a commit of the repository, \<open>fresh g d\<close>, it has no remote, and \<open>head g d\<close>, the commit that is
  checked out. Of the remote there are \<open>tree c\<close>, the files of a commit, and \<open>published\<close>, the commits
  that its branches and tags reach. No command changes anything outside of \<open>d\<close>. A repository that
  has just been created has no commits, so \<^verbatim>\<open>HEAD\<close> names none; fetching one commit brings that
  commit, and fetching all branches and tags brings what they reach and nothing else is promised;
  checking out a commit puts its files into the working tree.
\<close>

definition is_repository :: "fs \<Rightarrow> fpath \<Rightarrow> bool" where
  "is_repository fs d = (dirs fs d \<and> fs (d @ [''.git'']) = Some Dir)"

definition same_outside :: "fpath \<Rightarrow> fs \<Rightarrow> fs \<Rightarrow> bool" where
  "same_outside d fs fs' = (\<forall>q. \<not> prefix d q \<longrightarrow> fs' q = fs q)"

text \<open>\<open>answers git cmd cwd w Q\<close>: the command starts, and its result, status and output satisfy \<open>Q\<close>.\<close>

definition answers :: "'g git \<Rightarrow> string list \<Rightarrow> fpath option \<Rightarrow> 'g world \<Rightarrow> (fs \<Rightarrow> 'g \<Rightarrow> int \<Rightarrow> bool) \<Rightarrow> bool" where
  "answers git cmd cwd w Q = (\<exists>fs g rc out. git cmd cwd w = ((fs, g), Inr (rc, out)) \<and> Q fs g rc)"

definition git_creates ::
    "'g git \<Rightarrow> ('g \<Rightarrow> fpath \<Rightarrow> bool) \<Rightarrow> ('g \<Rightarrow> fpath \<Rightarrow> string \<Rightarrow> bool) \<Rightarrow> fpath \<Rightarrow> string \<Rightarrow> bool" where
  "git_creates git fresh has d upstream =
     ((\<forall>w. dirs (w_fs w) (butlast d) \<longrightarrow> w_fs w d = None \<longrightarrow>
         answers git [''git'', ''init'', ''--quiet'', path_str d] None w (\<lambda>fs g rc.
           rc = 0 \<and> is_repository fs d \<and> fresh g d \<and> \<not> has g d ''HEAD'' \<and> same_outside d (w_fs w) fs)) \<and>
      (\<forall>w. is_repository (w_fs w) d \<longrightarrow> fresh (w_ext w) d \<longrightarrow>
         answers git [''git'', ''remote'', ''add'', ''origin'', upstream] (Some d) w (\<lambda>fs g rc.
           rc = 0 \<and> is_repository fs d \<and> has g d = has (w_ext w) d \<and> same_outside d (w_fs w) fs)))"

definition git_queries :: "'g git \<Rightarrow> ('g \<Rightarrow> fpath \<Rightarrow> string \<Rightarrow> bool) \<Rightarrow> fpath \<Rightarrow> bool" where
  "git_queries git has d =
     (\<forall>w. is_repository (w_fs w) d \<longrightarrow>
        (\<forall>c. answers git [''git'', ''cat-file'', ''-e'', c @ ''^{commit}''] (Some d) w (\<lambda>fs g rc.
           fs = w_fs w \<and> g = w_ext w \<and> (rc = 0 \<longleftrightarrow> has g d c))) \<and>
        answers git [''git'', ''rev-parse'', ''--is-shallow-repository''] (Some d) w (\<lambda>fs g rc.
           fs = w_fs w \<and> g = w_ext w \<and> rc = 0))"

definition git_fetches :: "'g git \<Rightarrow> ('g \<Rightarrow> fpath \<Rightarrow> string \<Rightarrow> bool) \<Rightarrow> fpath \<Rightarrow> string set \<Rightarrow> string list \<Rightarrow> bool" where
  "git_fetches git has d commits cmd =
     (\<forall>w. is_repository (w_fs w) d \<longrightarrow>
        answers git cmd (Some d) w (\<lambda>fs g rc.
          is_repository fs d \<and> same_outside d (w_fs w) fs \<and> (rc = 0 \<longrightarrow> (\<forall>c\<in>commits. has g d c))))"

definition git_checks_out ::
    "'g git \<Rightarrow> ('g \<Rightarrow> fpath \<Rightarrow> string \<Rightarrow> bool) \<Rightarrow> ('g \<Rightarrow> fpath \<Rightarrow> string option) \<Rightarrow> (string \<Rightarrow> fs) \<Rightarrow> fpath \<Rightarrow> string \<Rightarrow> bool" where
  "git_checks_out git has head tree d revision =
     (\<forall>w. is_repository (w_fs w) d \<longrightarrow> has (w_ext w) d revision \<longrightarrow>
        answers git [''git'', ''checkout'', ''--force'', revision] (Some d) w (\<lambda>fs g rc.
          rc = 0 \<and> is_repository fs d \<and> same_outside d (w_fs w) fs \<and> head g d = Some revision \<and>
          (\<forall>q x. tree revision q = Some x \<longrightarrow> fs (d @ q) = Some x)))"

text \<open>The network is never away for four attempts in a row.\<close>

definition recovers :: "'g git \<Rightarrow> fpath \<Rightarrow> string list \<Rightarrow> bool" where
  "recovers git d cmd = (\<forall>w. is_repository (w_fs w) d \<longrightarrow> (\<exists>k<4. attempt_status git cmd d k w = Some 0))"

abbreviation fetch_pinned :: "string \<Rightarrow> string list" where
  "fetch_pinned revision \<equiv> [''git'', ''fetch'', ''--depth'', ''1'', ''origin'', revision]"

abbreviation fetch_published :: "string list" where
  "fetch_published \<equiv> [''git'', ''fetch'', ''--tags'', ''--prune'', ''origin'']"

definition git_works ::
    "'g git \<Rightarrow> ('g \<Rightarrow> fpath \<Rightarrow> bool) \<Rightarrow> ('g \<Rightarrow> fpath \<Rightarrow> string \<Rightarrow> bool) \<Rightarrow> ('g \<Rightarrow> fpath \<Rightarrow> string option) \<Rightarrow>
      (string \<Rightarrow> fs) \<Rightarrow> string set \<Rightarrow> fpath \<Rightarrow> string \<Rightarrow> string \<Rightarrow> bool" where
  "git_works git fresh has head tree published d upstream revision =
     (git_creates git fresh has d upstream \<and> git_queries git has d \<and> git_checks_out git has head tree d revision \<and>
      git_fetches git has d {revision} (fetch_pinned revision) \<and> recovers git d (fetch_pinned revision) \<and>
      git_fetches git has d published fetch_published \<and> recovers git d fetch_published)"

lemma answers_spawn:
  "answers git cmd cwd w Q \<longleftrightarrow> (\<exists>w' rc out. spawn git cmd cwd w = (w', Inr (rc, out)) \<and> Q (w_fs w') (w_ext w') rc)"
  by (auto simp: answers_def spawn_def split: prod.splits)

lemma same_outside_trans: "same_outside d a b \<Longrightarrow> same_outside d b c \<Longrightarrow> same_outside d a c"
  by (simp add: same_outside_def)

lemma attempts_keep:
  assumes "git_fetches git has d commits cmd" "is_repository (w_fs w) d"
  shows "is_repository (w_fs (before_attempt git cmd d k w)) d \<and> same_outside d (w_fs w) (w_fs (before_attempt git cmd d k w))"
proof (induction k)
  case (Suc k)
  let ?w = "before_attempt git cmd d k w"
  from Suc assms(1) obtain w' rc out where "spawn git cmd (Some d) ?w = (w', Inr (rc, out))"
    "is_repository (w_fs w') d" "same_outside d (w_fs ?w) (w_fs w')"
    by (auto simp: git_fetches_def answers_spawn)
  with Suc show ?case by (auto simp: sleep_def say_def intro: same_outside_trans)
qed (use assms in \<open>simp add: same_outside_def\<close>)

lemma retry_recovers:
  assumes f: "git_fetches git has d commits cmd" and "recovers git d cmd" "is_repository (w_fs w) d" and c: "revision \<in> commits"
  shows "\<exists>w'. run_with_retry git cmd d 4 w = (w', Inr ()) \<and> is_repository (w_fs w') d \<and>
    same_outside d (w_fs w) (w_fs w') \<and> has (w_ext w') d revision \<and> w_slept w' \<le> w_slept w + 14"
proof -
  define k where "k = (LEAST k. attempt_status git cmd d k w = Some 0)"
  from assms(2,3) obtain j where j: "j < 4" "attempt_status git cmd d j w = Some 0" by (auto simp: recovers_def)
  then have k: "attempt_status git cmd d k w = Some 0" "k < 4" unfolding k_def by (auto intro: LeastI Least_le le_less_trans)
  have keep: "is_repository (w_fs (before_attempt git cmd d i w)) d" "same_outside d (w_fs w) (w_fs (before_attempt git cmd d i w))" for i
    using attempts_keep [OF f assms(3)] by auto
  have started: "\<exists>rc. attempt_status git cmd d i w = Some rc" for i
    using f keep(1) [of i] by (auto simp: git_fetches_def answers_spawn status_spawn)
  have fails: "\<forall>i<k. attempt_fails git cmd d i w"
  proof (intro allI impI)
    fix i assume "i < k"
    then have "attempt_status git cmd d i w \<noteq> Some 0" using not_less_Least unfolding k_def by blast
    then show "attempt_fails git cmd d i w" using started [of i] by auto
  qed
  let ?w = "before_attempt git cmd d k w"
  obtain w' out where w': "spawn git cmd (Some d) ?w = (w', Inr (0, out))" using k(1) by (auto simp: status_spawn)
  have "(2::nat) ^ Suc k \<le> 2 ^ 4" using k(2) by (intro power_increasing) auto
  then have "w_slept w' \<le> w_slept w + 14" using attempts_slept [OF fails] spawn_slept(1) [of git cmd "Some d" ?w] w' by simp
  moreover have "is_repository (w_fs w') d \<and> same_outside d (w_fs ?w) (w_fs w') \<and> has (w_ext w') d revision"
    using f keep(1) [of k] w' c by (fastforce simp: git_fetches_def answers_spawn)
  ultimately show ?thesis using retry_succeeds [OF fails k(2,1)] w' keep(2) [of k] by (auto intro: same_outside_trans)
qed

lemma repository_is_git: "is_repository (w_fs w) d \<Longrightarrow> is_git_dir w d"
  by (simp add: is_git_dir_def is_repository_def stat_dirs dirs_snoc)

lemma queries_keep: "answers git cmd cwd w (\<lambda>fs g rc. fs = w_fs w \<and> g = w_ext w \<and> Q g rc) \<Longrightarrow>
  \<exists>rc out. spawn git cmd cwd w = (w, Inr (rc, out)) \<and> Q (w_ext w) rc"
  by (auto simp: answers_def spawn_def split: prod.splits)

lemma commit_exists_works:
  assumes "git_queries git has d" "is_repository (w_fs w) d"
  shows "commit_exists git d c w = (w, Inr (has (w_ext w) d c))"
proof -
  from assms have "answers git [''git'', ''cat-file'', ''-e'', c @ ''^{commit}''] (Some d) w
      (\<lambda>fs g rc. fs = w_fs w \<and> g = w_ext w \<and> (rc = 0 \<longleftrightarrow> has g d c))" by (simp add: git_queries_def)
  from queries_keep [OF this] show ?thesis by (auto simp: commit_exists_def)
qed

lemma is_shallow_works:
  assumes "git_queries git has d" "is_repository (w_fs w) d"
  shows "\<exists>b. is_shallow_or_empty git d w = (w, Inr b) \<and> (has (w_ext w) d ''HEAD'' \<or> b)"
proof -
  from assms have "answers git [''git'', ''rev-parse'', ''--is-shallow-repository''] (Some d) w
      (\<lambda>fs g rc. fs = w_fs w \<and> g = w_ext w \<and> rc = 0)" by (simp add: git_queries_def)
  from queries_keep [OF this] show ?thesis
    by (auto simp: is_shallow_or_empty_def checked_def commit_exists_works [OF assms])
qed

text \<open>A step that keeps to the repository.\<close>

definition repo_step :: "fpath \<Rightarrow> 'g world \<Rightarrow> 'g world \<Rightarrow> bool" where
  "repo_step d w w' = (is_repository (w_fs w') d \<and> same_outside d (w_fs w) (w_fs w'))"

lemma repo_step_trans: "repo_step d w w1 \<Longrightarrow> repo_step d w1 w2 \<Longrightarrow> repo_step d w w2"
  by (auto simp: repo_step_def intro: same_outside_trans)

lemma repo_step_refl: "is_repository (w_fs w) d \<Longrightarrow> repo_step d w w"
  by (simp add: repo_step_def same_outside_def)

lemma run_answers:
  assumes "answers git cmd cwd w (\<lambda>fs g rc. rc = 0 \<and> Q fs g)"
  shows "\<exists>w'. deps_run git cmd cwd w = (w', Inr ()) \<and> Q (w_fs w') (w_ext w') \<and> w_slept w' = w_slept w"
  using assms by (fastforce simp: answers_def deps_run_ok)

lemma init_works:
  assumes "git_creates git fresh has d upstream" "dirs (w_fs w) (butlast d)" "w_fs w d = None"
  shows "\<exists>w'. then_do (deps_run git [''git'', ''init'', ''--quiet'', path_str d] None w) (\<lambda>_.
      deps_run git [''git'', ''remote'', ''add'', ''origin'', upstream] (Some d)) = (w', Inr ()) \<and>
    repo_step d w w' \<and> \<not> has (w_ext w') d ''HEAD'' \<and> w_slept w' = w_slept w"
proof -
  from assms have "answers git [''git'', ''init'', ''--quiet'', path_str d] None w (\<lambda>fs g rc.
      rc = 0 \<and> is_repository fs d \<and> fresh g d \<and> \<not> has g d ''HEAD'' \<and> same_outside d (w_fs w) fs)" by (simp add: git_creates_def)
  from run_answers [OF this] obtain w1 where w1: "deps_run git [''git'', ''init'', ''--quiet'', path_str d] None w = (w1, Inr ())"
    "repo_step d w w1" "fresh (w_ext w1) d" "\<not> has (w_ext w1) d ''HEAD''" "w_slept w1 = w_slept w" by (auto simp: repo_step_def)
  with assms(1) have "answers git [''git'', ''remote'', ''add'', ''origin'', upstream] (Some d) w1 (\<lambda>fs g rc.
      rc = 0 \<and> is_repository fs d \<and> has g d = has (w_ext w1) d \<and> same_outside d (w_fs w1) fs)" by (simp add: git_creates_def repo_step_def)
  from run_answers [OF this] w1 show ?thesis by (auto simp: repo_step_def intro: same_outside_trans)
qed

lemma prepare_works:
  assumes "git_creates git fresh has d upstream"
    and "d \<noteq> []" "dirs (w_fs w) (butlast d)" "last d \<noteq> ''..''" "w_fs w d = None \<or> is_repository (w_fs w) d"
  shows "\<exists>w'. (if is_git_dir w d then (w, Inr ())
       else then_do (deps_run git [''git'', ''init'', ''--quiet'', path_str d] None w) (\<lambda>_.
            deps_run git [''git'', ''remote'', ''add'', ''origin'', upstream] (Some d))) = (w', Inr ()) \<and>
      repo_step d w w' \<and> (is_repository (w_fs w) d \<or> \<not> has (w_ext w') d ''HEAD'') \<and> w_slept w' = w_slept w"
proof (cases "w_fs w d")
  case None
  then have "\<not> is_git_dir w d" using stat_below_absent [OF assms(2-4) None] by (simp add: is_git_dir_def)
  with None show ?thesis using init_works [OF assms(1,3) None] by auto
qed (use assms(5) repository_is_git repo_step_refl in auto)

lemma obtain_works:
  assumes g: "git_works git fresh has head tree published d upstream revision"
    and r: "is_repository (w_fs w) d" and "has (w_ext w) d ''HEAD'' \<Longrightarrow> revision \<in> published"
  shows "\<exists>w'. (if has (w_ext w) d revision then (w, Inr ())
       else then_do (is_shallow_or_empty git d w) (\<lambda>shallow.
            if shallow then run_with_retry git (fetch_pinned revision) d 4
            else run_with_retry git fetch_published d 4)) = (w', Inr ()) \<and>
      repo_step d w w' \<and> has (w_ext w') d revision \<and> w_slept w' \<le> w_slept w + 14"
proof -
  obtain sh where sh: "is_shallow_or_empty git d w = (w, Inr sh)" "has (w_ext w) d ''HEAD'' \<or> sh"
    using is_shallow_works [OF _ r, of git has] g by (auto simp: git_works_def)
  show ?thesis
  proof (cases "has (w_ext w) d revision")
    case True
    then show ?thesis using repo_step_refl [OF r] by auto
  next
    case False
    have "\<exists>w'. run_with_retry git (if sh then fetch_pinned revision else fetch_published) d 4 w = (w', Inr ()) \<and>
        is_repository (w_fs w') d \<and> same_outside d (w_fs w) (w_fs w') \<and> has (w_ext w') d revision \<and> w_slept w' \<le> w_slept w + 14"
    proof (rule retry_recovers [where commits = "if sh then {revision} else published"])
      show "revision \<in> (if sh then {revision} else published)" using sh(2) assms(3) by auto
    qed (use g r in \<open>simp_all add: git_works_def\<close>)
    with False sh(1) show ?thesis by (cases sh) (auto simp: repo_step_def)
  qed
qed

lemma fetch_works:
  assumes g: "git_works git fresh has head tree published d upstream revision"
    and "d \<noteq> []" "dirs (w_fs w) (butlast d)" "last d \<noteq> ''..''" "w_fs w d = None \<or> is_repository (w_fs w) d"
    and p: "is_repository (w_fs w) d \<Longrightarrow> revision \<in> published"
  shows "\<exists>w'. fetch_revision git d upstream revision w = (w', Inr ()) \<and> repo_step d w w' \<and>
    head (w_ext w') d = Some revision \<and> (\<forall>q x. tree revision q = Some x \<longrightarrow> w_fs w' (d @ q) = Some x) \<and>
    w_slept w' \<le> w_slept w + 14"
proof -
  have q: "git_queries git has d" and c: "git_creates git fresh has d upstream" using g by (simp_all add: git_works_def)
  obtain w1 where w1: "(if is_git_dir w d then (w, Inr ())
       else then_do (deps_run git [''git'', ''init'', ''--quiet'', path_str d] None w) (\<lambda>_.
            deps_run git [''git'', ''remote'', ''add'', ''origin'', upstream] (Some d))) = (w1, Inr ())"
    "repo_step d w w1" "is_repository (w_fs w) d \<or> \<not> has (w_ext w1) d ''HEAD''" "w_slept w1 = w_slept w"
    using prepare_works [OF c assms(2-5)] by blast
  have r1: "is_repository (w_fs w1) d" using w1(2) by (simp add: repo_step_def)
  have "has (w_ext w1) d ''HEAD'' \<Longrightarrow> revision \<in> published" using w1(3) p by blast
  from obtain_works [OF g r1 this] obtain w2 where w2: "(if has (w_ext w1) d revision then (w1, Inr ())
       else then_do (is_shallow_or_empty git d w1) (\<lambda>shallow.
            if shallow then run_with_retry git (fetch_pinned revision) d 4
            else run_with_retry git fetch_published d 4)) = (w2, Inr ())"
    "repo_step d w1 w2" "has (w_ext w2) d revision" "w_slept w2 \<le> w_slept w1 + 14" by blast
  with g have "answers git [''git'', ''checkout'', ''--force'', revision] (Some d) w2 (\<lambda>fs g rc.
      rc = 0 \<and> is_repository fs d \<and> same_outside d (w_fs w2) fs \<and> head g d = Some revision \<and>
      (\<forall>q x. tree revision q = Some x \<longrightarrow> fs (d @ q) = Some x))"
    by (auto simp: git_works_def git_checks_out_def repo_step_def)
  from run_answers [OF this] obtain w3 where w3: "deps_run git [''git'', ''checkout'', ''--force'', revision] (Some d) w2 = (w3, Inr ())"
    "repo_step d w2 w3" "head (w_ext w3) d = Some revision" "\<forall>q x. tree revision q = Some x \<longrightarrow> w_fs w3 (d @ q) = Some x"
    "w_slept w3 = w_slept w2"
    by (auto simp: repo_step_def)
  have "fetch_revision git d upstream revision w = (w3, Inr ())"
    unfolding fetch_revision_def w1(1) then_do_simps commit_exists_works [OF q r1] w2(1) w3(1) ..
  with w1 w2 w3 show ?thesis by (auto intro: repo_step_trans)
qed

lemma link_works:
  assumes d: "is_repository (w_fs w) d" "package = ''picorv32'' \<longrightarrow> w_fs w (d @ [''picorv32.core'']) \<noteq> Some Dir"
    and p: "dirs (w_fs w) p" "l \<noteq> ''..''" "w_fs w (p @ [l]) \<noteq> Some Dir" "\<not> prefix d (p @ [l])"
  shows "\<exists>w'. link_checkout core package d (p @ [l]) w = (w', Inr ()) \<and> w_slept w' = w_slept w"
proof -
  let ?c = "d @ [''picorv32.core'']"
  have n: "\<not> prefix ?c p" "?c \<noteq> p @ [l]" using p(4) by (auto dest: append_prefixD)
  have "\<exists>w1. sanitize_checkout package d w = (w1, Inr ()) \<and> dirs (w_fs w1) p \<and> w_fs w1 (p @ [l]) \<noteq> Some Dir \<and> w_slept w1 = w_slept w"
    using d p n unlink_dirs [of "w_fs w" d "''picorv32.core''"] dirs_upd [OF p(1) n(1)]
    by (simp add: sanitize_checkout_def on_fs_def is_repository_def)
  then obtain w1 where w1: "sanitize_checkout package d w = (w1, Inr ())" "dirs (w_fs w1) p" "w_fs w1 (p @ [l]) \<noteq> Some Dir"
    "w_slept w1 = w_slept w" by blast
  have "\<not> prefix (p @ [l]) p" by (auto simp: prefix_def)
  from dirs_upd [OF w1(2) this] have "dirs ((w_fs w1)(p @ [l] := None)) p" .
  with w1 unlink_dirs [OF w1(2) p(2) w1(3)] show ?thesis
    by (simp add: link_checkout_def on_fs_def symlink_dirs p(2) say_def)
qed

lemma with_dirs_other: "\<not> prefix q p \<Longrightarrow> with_dirs p fs q = fs q"
  by (simp add: with_dirs_def)

lemma dirs_mono: "dirs fs q \<Longrightarrow> dirs (with_dirs p fs) q"
  by (auto simp: dirs_def with_dirs_def)

lemma clear_mono: "clear fs q \<Longrightarrow> clear (with_dirs p fs) q"
  by (auto simp: clear_def with_dirs_def)

lemma repository_mono: "is_repository fs d \<Longrightarrow> is_repository (with_dirs p fs) d"
  by (auto simp: is_repository_def dirs_mono) (simp add: with_dirs_def)

lemma dirs_outside: "dirs fs p \<Longrightarrow> same_outside d fs fs' \<Longrightarrow> \<not> prefix d p \<Longrightarrow> dirs fs' p"
  unfolding dirs_def same_outside_def by (metis prefix_order.trans)

lemma make_parents_clear:
  assumes "clear (w_fs w) b" "clear (w_fs w) p"
  shows "make_parents (b @ [c]) (p @ [l]) w = (w\<lparr>w_fs := with_dirs p (with_dirs b (w_fs w))\<rparr>, Inr ())"
  using mkdir_parents_clear [OF assms(1)] mkdir_parents_clear [OF clear_mono [OF assms(2)], of b]
  by (simp add: make_parents_def on_fs_def)

lemma place_works:
  assumes g: "git_works git fresh has head tree published (b @ [c]) upstream revision"
    and k: "is_repository (w_fs w) (b @ [c]) \<longrightarrow> revision \<in> published"
      "package = ''picorv32'' \<longrightarrow> tree revision [''picorv32.core''] = Some File"
    and b: "clear (w_fs w) b" "c \<noteq> ''..''" "w_fs w (b @ [c]) = None \<or> is_repository (w_fs w) (b @ [c])"
    and p: "clear (w_fs w) p" "l \<noteq> ''..''" "w_fs w (p @ [l]) \<noteq> Some Dir"
    and apart: "\<not> prefix (b @ [c]) (p @ [l])" "\<not> prefix (p @ [l]) b"
  shows "\<exists>w'. place_dependency git core package (b @ [c]) (p @ [l]) upstream revision w = (w', Inr ()) \<and>
    read_link (w_fs w') (p @ [l]) = Some (path_str (b @ [c])) \<and> head (w_ext w') (b @ [c]) = Some revision \<and>
    w_slept w' \<le> w_slept w + 14"
proof -
  let ?d = "b @ [c]" and ?l = "p @ [l]"
  define w1 where "w1 = w\<lparr>w_fs := with_dirs p (with_dirs b (w_fs w))\<rparr>"
  have m: "make_parents ?d ?l w = (w1, Inr ())" using make_parents_clear [OF b(1) p(1)] by (simp add: w1_def)
  have s1: "w_slept w1 = w_slept w" by (simp add: w1_def)
  have n: "\<not> prefix ?d p" using apart(1) by (auto dest: append_prefixD)
  have up: "''..'' \<notin> set b" "''..'' \<notin> set p" using b(1) p(1) by (auto simp: clear_def)
  have d1: "dirs (w_fs w1) (butlast ?d)" "dirs (w_fs w1) p" using up by (simp_all add: w1_def dirs_mono dirs_with_dirs)
  have same: "w_fs w1 ?d = w_fs w ?d" using n by (simp add: w1_def with_dirs_other prefix_def)
  then have here: "w_fs w1 ?d = None \<or> is_repository (w_fs w1) ?d" using b(3) by (auto simp: w1_def repository_mono)
  have "is_repository (w_fs w1) ?d \<Longrightarrow> w_fs w ?d \<noteq> None" using same by (auto simp: is_repository_def dirs_def)
  then have pub: "is_repository (w_fs w1) ?d \<Longrightarrow> revision \<in> published" using b(3) k(1) by auto
  have "\<not> vendor_copy w1 ?d" using here
      stat_below_absent [of ?d "w_fs w1" "[]"] d1(1) b(2) repository_is_git [of w1 ?d] by (auto simp: vendor_copy_def)
  moreover obtain w2 where w2: "fetch_revision git ?d upstream revision w1 = (w2, Inr ())" "repo_step ?d w1 w2"
    "head (w_ext w2) ?d = Some revision" "\<forall>q x. tree revision q = Some x \<longrightarrow> w_fs w2 (?d @ q) = Some x"
    "w_slept w2 \<le> w_slept w1 + 14"
    using fetch_works [OF g _ d1(1) _ here pub] b(2) by auto
  have core: "package = ''picorv32'' \<longrightarrow> w_fs w2 (?d @ [''picorv32.core'']) \<noteq> Some Dir" using k(2) w2(4) by auto
  have r: "is_repository (w_fs w2) ?d" "same_outside ?d (w_fs w1) (w_fs w2)" using w2(2) by (simp_all add: repo_step_def)
  have "w_fs w1 ?l = w_fs w ?l" using apart(2) by (simp add: w1_def with_dirs_other prefix_def)
  then have l2: "dirs (w_fs w2) p" "w_fs w2 ?l \<noteq> Some Dir"
    using dirs_outside [OF d1(2) r(2) n] r(2) apart(1) p(3) by (auto simp: same_outside_def)
  obtain w3 where w3: "link_checkout core package ?d ?l w2 = (w3, Inr ())" "w_slept w3 = w_slept w2"
    using link_works [OF r(1) core l2(1) p(2) l2(2) apart(1)] by blast
  ultimately have "place_dependency git core package ?d ?l upstream revision w = (w3, Inr ())"
    by (simp add: place_dependency_def m w2(1))
  with w3 w2 s1 link_checkout_ok [OF w3(1)] show ?thesis by auto
qed

lemma checkout_works:
  assumes "lookup_file r (descriptor_path (CORE_DIR r) core) = Some descriptor"
    and "deps_yaml_path_scalar descriptor [''dependency'', ''manager''] = Some manager"
    and "dependency_fields core descriptor manager = Inr (package, path_text, upstream, revision)"
    and "file_name package" "components path_text = ''deps'' # ps @ [l]" "l \<noteq> ''..''"
    and "git_works git fresh has head tree published (root r @ [''.bender'', ''vendor'', package]) upstream revision"
    and "is_repository (w_fs w) (root r @ [''.bender'', ''vendor'', package]) \<longrightarrow> revision \<in> published"
    and "package = ''picorv32'' \<longrightarrow> tree revision [''picorv32.core''] = Some File"
    and "clear (w_fs w) (root r @ [''.bender'', ''vendor''])" "clear (w_fs w) (root r @ ''deps'' # ps)"
    and "w_fs w (root r @ [''.bender'', ''vendor'', package]) = None \<or>
      is_repository (w_fs w) (root r @ [''.bender'', ''vendor'', package])"
    and "w_fs w (root r @ ''deps'' # ps @ [l]) \<noteq> Some Dir"
  shows "\<exists>w'. checkout_dependency git r core w = (w', Inr ()) \<and>
    read_link (w_fs w') (root r @ ''deps'' # ps @ [l]) = Some (path_str (root r @ [''.bender'', ''vendor'', package])) \<and>
    head (w_ext w') (root r @ [''.bender'', ''vendor'', package]) = Some revision \<and> w_slept w' \<le> w_slept w + 14"
proof -
  have c: "checkout_path r package = (root r @ [''.bender'', ''vendor'']) @ [package]"
    using assms(4) by (simp add: checkout_path_def path_join_name)
  have "under_deps path_text" using assms(3) by (auto simp: dependency_fields_def Let_def res_simps)
  then have l: "path_join (root r) path_text = (root r @ ''deps'' # ps) @ [l]"
    using assms(5) by (auto simp: under_deps_def path_join_def)
  have "checkout_dependency git r core w =
      place_dependency git core package (checkout_path r package) (path_join (root r) path_text) upstream revision w"
    using assms(1-3) by (simp add: checkout_dependency_def is_file_def read_text_def)
  moreover have "package \<noteq> ''..''" using assms(4) by (simp add: file_name_def)
  ultimately show ?thesis
    using place_works [of git fresh has head tree published "root r @ [''.bender'', ''vendor'']" package upstream revision w package
        "root r @ ''deps'' # ps" l core]
      assms(6-13) by (simp add: c l)
qed


end
