(* ===== verification/Deps_Sample.thy ===== *)
theory Deps_Sample
  imports Deps_Core
begin

text \<open>
  A checkout with one core that has a dependency, and a \<^verbatim>\<open>git\<close> whose network answers every third
  attempt: the theorems on \<^verbatim>\<open>deps_core.py\<close> apply to it.
\<close>

definition dep_descriptor :: string where
  "dep_descriptor = unlines
     [''dependency:'',
      ''  manager: project_local_git_checkout'',
      ''  package: ibex'',
      ''  path: deps/ibex'',
      ''  upstream: https://x/ibex.git'',
      ''  rev: c0ffee'']"

definition dep_repo :: repo where
  "dep_repo = \<lparr>root = [''r''], files = [([''r'', ''cfg'', ''cores'', ''ibex.yaml''], dep_descriptor)]\<rparr>"

definition dep_checkout :: fpath where
  "dep_checkout = [''r'', ''.bender'', ''vendor'', ''ibex'']"

text \<open>What the commands keep: the number of fetches so far, the commits and the head.\<close>

type_synonym dep_git = "nat \<times> string list \<times> string option"

definition dep_has :: "dep_git \<Rightarrow> fpath \<Rightarrow> string \<Rightarrow> bool" where
  "dep_has g d c = (case g of (n, cs, h) \<Rightarrow> c \<in> set cs)"

definition dep_head :: "dep_git \<Rightarrow> fpath \<Rightarrow> string option" where
  "dep_head g d = (case g of (n, cs, h) \<Rightarrow> h)"

definition demo_git :: "dep_git git" where
  "demo_git cmd cwd w =
     (case w_ext w of (n, cs, h) \<Rightarrow>
        (let c = cmd ! 1
         in if c = ''init'' then ((with_dirs (dep_checkout @ [''.git'']) (w_fs w), (n, [], None)), Inr (0, []))
             else if c = ''cat-file''
             then ((w_fs w, (n, cs, h)), Inr (if cmd ! 3 \<in> set (map (\<lambda>c. c @ ''^{commit}'') cs) then 0 else 128, []))
             else if c = ''rev-parse'' then ((w_fs w, (n, cs, h)), Inr (0, ''false''))
             else if c = ''fetch''
             then (if n mod 3 = 2 then ((w_fs w, (n + 1, ''c0ffee'' # cs, h)), Inr (0, []))
                   else ((w_fs w, (n + 1, cs, h)), Inr (128, [])))
             else if c = ''checkout''
             then (if cmd ! 3 \<in> set cs then (((w_fs w)(dep_checkout @ [''README.md''] \<mapsto> File), (n, cs, Some (cmd ! 3))), Inr (0, []))
                   else ((w_fs w, (n, cs, h)), Inr (1, [])))
             else ((w_fs w, (n, cs, h)), Inr (0, []))))"

definition dep_world :: "dep_git world" where
  "dep_world = \<lparr>w_fs = (\<lambda>_. None), w_ext = (0, [], None), w_said = [], w_slept = 0\<rparr>"

text \<open>The remote has one commit, of one file, and a branch that reaches it.\<close>

definition dep_tree :: "string \<Rightarrow> fs" where
  "dep_tree c = [[''README.md''] \<mapsto> File]"

definition dep_published :: "string set" where
  "dep_published = {''c0ffee''}"

lemma demo_creates: "git_creates demo_git (\<lambda>_ _. True) dep_has dep_checkout upstream"
proof -
  have "same_outside dep_checkout fs (with_dirs (dep_checkout @ [''.git'']) fs)" if "dirs fs (butlast dep_checkout)" for fs
  proof -
    have "fs q = Some Dir" if q: "q \<noteq> []" "prefix q (dep_checkout @ [''.git''])" "\<not> prefix dep_checkout q" for q
    proof -
      have "prefix q (butlast dep_checkout)" using q(2,3) by (auto simp: dep_checkout_def prefix_Cons)
      then show ?thesis using q(1) \<open>dirs fs (butlast dep_checkout)\<close> by (simp add: dirs_def)
    qed
    then show ?thesis by (simp add: same_outside_def with_dirs_def)
  qed
  moreover have "is_repository (with_dirs (dep_checkout @ [''.git'']) fs) dep_checkout" for fs
  proof -
    have "''..'' \<notin> set (dep_checkout @ [''.git''])" by (simp add: dep_checkout_def)
    from dirs_with_dirs [OF this] show ?thesis by (simp add: is_repository_def dirs_snoc)
  qed
  ultimately show ?thesis
    by (auto simp: git_creates_def answers_def demo_git_def Let_def same_outside_def dep_has_def case_prod_unfold simp del: split_paired_Ex)
qed

lemma demo_queries: "git_queries demo_git dep_has dep_checkout"
  by (auto simp: git_queries_def answers_def demo_git_def Let_def dep_has_def split: prod.splits)

lemma demo_checks_out: "git_checks_out demo_git dep_has dep_head dep_tree dep_checkout c"
proof -
  have "is_repository (fs(dep_checkout @ [''README.md''] \<mapsto> File)) dep_checkout" if "is_repository fs dep_checkout" for fs
    using that dirs_upd [of fs dep_checkout "dep_checkout @ [''README.md'']"] by (auto simp: is_repository_def prefix_def)
  moreover have "same_outside dep_checkout fs (fs(dep_checkout @ [''README.md''] \<mapsto> File))" for fs
    by (auto simp: same_outside_def prefix_def)
  ultimately show ?thesis
    by (auto simp: git_checks_out_def answers_def demo_git_def Let_def dep_has_def dep_head_def dep_tree_def split: prod.splits if_splits)
qed

lemma demo_fetch:
  assumes "cmd \<in> {fetch_pinned ''c0ffee'', fetch_published}"
  shows "spawn demo_git cmd (Some d) w = (case w_ext w of (n, cs, h) \<Rightarrow>
    if n mod 3 = 2 then (w\<lparr>w_ext := (n + 1, ''c0ffee'' # cs, h)\<rparr>, Inr (0, []))
    else (w\<lparr>w_ext := (n + 1, cs, h)\<rparr>, Inr (128, [])))"
  using assms by (auto simp: spawn_def demo_git_def Let_def split: prod.splits)

lemma demo_fetches:
  assumes "cmd \<in> {fetch_pinned ''c0ffee'', fetch_published}"
  shows "git_fetches demo_git dep_has dep_checkout dep_published cmd"
  by (auto simp: git_fetches_def dep_published_def answers_spawn demo_fetch [OF assms] same_outside_def dep_has_def split: prod.splits)

lemma demo_recovers:
  assumes "cmd \<in> {fetch_pinned ''c0ffee'', fetch_published}"
  shows "recovers demo_git dep_checkout cmd"
proof -
  have "\<exists>k<4. attempt_status demo_git cmd dep_checkout k w = Some 0" for w
  proof -
    obtain n cs h where g: "w_ext w = (n, cs, h)" by (cases "w_ext w") auto
    have ext: "w_ext (before_attempt demo_git cmd dep_checkout k w) = (n + k, cs, h)" if "\<forall>j<k. (n + j) mod 3 \<noteq> 2" for k
      using that by (induction k) (auto simp: g demo_fetch [OF assms] sleep_def say_def)
    have "attempt_status demo_git cmd dep_checkout k w = Some 0" if "\<forall>j<k. (n + j) mod 3 \<noteq> 2" "(n + k) mod 3 = 2" for k
      using ext [OF that(1)] that(2) by (simp add: attempt_status_def demo_fetch [OF assms])
    moreover have "\<exists>k<4. (\<forall>j<k. (n + j) mod 3 \<noteq> 2) \<and> (n + k) mod 3 = 2"
    proof -
      consider "n mod 3 = 2" | "n mod 3 = 1" | "n mod 3 = 0" by linarith
      then show ?thesis
      proof cases
        case 1 then show ?thesis by (intro exI [of _ 0]) simp
      next
        case 2 then show ?thesis by (intro exI [of _ 1]) (simp add: mod_Suc)
      next
        case 3 then show ?thesis by (intro exI [of _ 2]) (auto simp: mod_Suc numeral_2_eq_2 less_Suc_eq)
      qed
    qed
    ultimately show ?thesis by blast
  qed
  then show ?thesis by (simp add: recovers_def)
qed

lemma demo_works:
  "git_works demo_git (\<lambda>_ _. True) dep_has dep_head dep_tree dep_published dep_checkout ''https://x/ibex.git'' ''c0ffee''"
  using demo_fetches by (simp add: git_works_def demo_creates demo_queries demo_checks_out demo_recovers dep_published_def)

lemma demo_fields:
  "lookup_file dep_repo (descriptor_path (CORE_DIR dep_repo) ''ibex'') = Some dep_descriptor"
  "deps_yaml_path_scalar dep_descriptor [''dependency'', ''manager''] = Some ''project_local_git_checkout''"
  "dependency_fields ''ibex'' dep_descriptor ''project_local_git_checkout'' = Inr (''ibex'', ''deps/ibex'', ''https://x/ibex.git'', ''c0ffee'')"
  by code_simp+

lemma demo_start:
  "file_name ''ibex''" "components ''deps/ibex'' = ''deps'' # [] @ [''ibex'']" "''ibex'' \<noteq> ''..''"
  "git_works demo_git (\<lambda>_ _. True) dep_has dep_head dep_tree dep_published (root dep_repo @ [''.bender'', ''vendor'', ''ibex''])
    ''https://x/ibex.git'' ''c0ffee''"
  "is_repository (w_fs dep_world) (root dep_repo @ [''.bender'', ''vendor'', ''ibex'']) \<longrightarrow> ''c0ffee'' \<in> dep_published"
  "''ibex'' = ''picorv32'' \<longrightarrow> dep_tree ''c0ffee'' [''picorv32.core''] = Some File"
  "clear (w_fs dep_world) (root dep_repo @ [''.bender'', ''vendor''])" "clear (w_fs dep_world) (root dep_repo @ ''deps'' # [])"
  "w_fs dep_world (root dep_repo @ [''.bender'', ''vendor'', ''ibex'']) = None \<or>
    is_repository (w_fs dep_world) (root dep_repo @ [''.bender'', ''vendor'', ''ibex''])"
  "w_fs dep_world (root dep_repo @ ''deps'' # [] @ [''ibex'']) \<noteq> Some Dir"
  using demo_works by (simp_all add: dep_checkout_def dep_published_def dep_repo_def dep_world_def clear_def file_name_def) (simp add: components_def split_on_def)


theorem deps_pinned_witness:
  "\<exists>w'. checkout_dependency demo_git dep_repo ''ibex'' dep_world = (w', Inr ()) \<and>
    read_link (w_fs w') (path_join (root dep_repo) ''deps/ibex'') = Some (path_str (checkout_path dep_repo ''ibex''))"
proof -
  obtain w' where w': "checkout_dependency demo_git dep_repo ''ibex'' dep_world = (w', Inr ())"
    using checkout_works [OF demo_fields demo_start] by blast
  have "dep_head g d = Some c" if "demo_git [''git'', ''checkout'', ''--force'', c] (Some d) w = ((fs, g), Inr (0, out))" for c d w fs g out
    using that by (auto simp: demo_git_def Let_def dep_head_def split: prod.splits if_splits)
  from deps_pinned [OF w' demo_fields(1,2) this] w' show ?thesis by (auto simp: demo_fields(3))
qed

text \<open>
  Only the first component of the path is checked: a path that starts with \<^verbatim>\<open>deps\<close> can lead out of
  the checkout.
\<close>

lemma deps_path_escapes:
  "under_deps ''deps/../../x'' \<and>
   locate (\<lambda>p. if p \<in> {[''r''], [''r'', ''deps'']} then Some Dir else None) False MAXSYMLINKS [] (path_join [''r''] ''deps/../../x'') = Inr [''x'']"
  by code_simp

end
