(* ===== verification/Check_Tools.thy ===== *)
theory Check_Tools
  imports Targets
begin

text \<open>
  \<^verbatim>\<open>bin/check_tools.py\<close>: the report on the tools of the host. What the script asks the host, its
  environment variables, which names are executable files and what a command prints, is a
  parameter; searching, judging and reporting are the script's own.
\<close>

section \<open>The host\<close>

text \<open>
  A command ends with a status and an output, or it cannot be run or times out; then the message
  of the exception is known. The second argument is the text on its standard input, if any.
\<close>

record tool_host =
  h_env :: "string \<Rightarrow> string option"
  h_exec :: "string \<Rightarrow> bool" \<comment> \<open>the name of a file that may be executed\<close>
  h_run :: "string list \<Rightarrow> string option \<Rightarrow> string + int \<times> string"
  h_python :: string \<comment> \<open>\<^verbatim>\<open>sys.executable\<close>\<close>

definition environ_get :: "tool_host \<Rightarrow> string \<Rightarrow> string \<Rightarrow> string" where
  "environ_get host var dflt = (case h_env host var of None \<Rightarrow> dflt | Some v \<Rightarrow> v)"

text \<open>\<^verbatim>\<open>os.path.join\<close> for a relative name, and \<^verbatim>\<open>shutil.which\<close>.\<close>

definition os_join :: "string \<Rightarrow> string \<Rightarrow> string" where
  "os_join d n = (if d = [] \<or> last d = CHR ''/'' then d @ n else d @ CHR ''/'' # n)"

definition which :: "tool_host \<Rightarrow> string \<Rightarrow> string option" where
  "which host cmd =
     (if CHR ''/'' \<in> set cmd then (if h_exec host cmd then Some cmd else None)
      else let path = environ_get host ''PATH'' ''/bin:/usr/bin''
           in if path = [] then None
              else List.find (h_exec host) (map (\<lambda>d. os_join d cmd) (split_on CHR '':'' path)))"

text \<open>A path of \<^verbatim>\<open>pathlib\<close>: whether it is absolute, and its components.\<close>

type_synonym ppath = "bool \<times> string list"

definition Path :: "string \<Rightarrow> ppath" where
  "Path s = (prefix ''/'' s, components s)"

definition slash :: "ppath \<Rightarrow> string \<Rightarrow> ppath" where
  "slash p s = (if prefix ''/'' s then Path s else (fst p, snd p @ components s))"

definition ppath_str :: "ppath \<Rightarrow> string" where
  "ppath_str p = (if fst p then CHR ''/'' # join ''/'' (snd p) else if snd p = [] then ''.'' else join ''/'' (snd p))"

definition path_name :: "ppath \<Rightarrow> string" where
  "path_name p = (if snd p = [] then [] else last (snd p))"

section \<open>The checks\<close>

record tool =
  t_name :: string
  t_command :: string
  t_version_args :: "string list"
  t_required_for :: "string list"
  t_search_paths :: "ppath list"
  t_note :: string
  t_expected_version :: string

definition Tool :: "string \<Rightarrow> string \<Rightarrow> string list \<Rightarrow> string list \<Rightarrow> ppath list \<Rightarrow> tool" where
  "Tool name command version_args required_for search_paths =
     \<lparr>t_name = name, t_command = command, t_version_args = version_args, t_required_for = required_for,
      t_search_paths = search_paths, t_note = [], t_expected_version = []\<rparr>"

definition run_text :: "tool_host \<Rightarrow> string list \<Rightarrow> bool \<times> string" where
  "run_text host argv =
     (case h_run host argv None of
        Inl exc \<Rightarrow> (False, exc)
      | Inr (returncode, out) \<Rightarrow>
          (returncode = 0, case splitlines (strip out) of [] \<Rightarrow> [] | line # _ \<Rightarrow> strip line))"

definition run_lines :: "tool_host \<Rightarrow> string list \<Rightarrow> bool \<times> string list" where
  "run_lines host argv =
     (case h_run host argv None of
        Inl exc \<Rightarrow> (False, [exc])
      | Inr (returncode, out) \<Rightarrow> (returncode = 0, filter (\<lambda>l. l \<noteq> []) (map strip (splitlines out))))"

definition find_command :: "tool_host \<Rightarrow> string \<Rightarrow> ppath list \<Rightarrow> string option" where
  "find_command host command extra_paths =
     (case List.find (h_exec host) (map (\<lambda>p. ppath_str (slash p command)) extra_paths) of
        Some candidate \<Rightarrow> Some candidate
      | None \<Rightarrow> which host command)"

definition section_lines :: "string \<Rightarrow> string list" where
  "section_lines title = [[], title, replicate (length title) CHR ''-'']"

definition flow_requires :: "tool \<Rightarrow> string \<Rightarrow> bool" where
  "flow_requires tool flow =
     (if flow = ''all'' then t_required_for tool \<noteq> []
      else ''all'' \<in> set (t_required_for tool) \<or> flow \<in> set (t_required_for tool))"

definition toolchain_paths :: "repo \<Rightarrow> tool_host \<Rightarrow> string \<Rightarrow> ppath \<times> string" where
  "toolchain_paths r host toolchain =
     (if toolchain = ''riscv-multilib''
      then (Path (environ_get host ''COREJACK_RISCV_TOOLCHAIN'' (path_str (root r @ [''.tools'', ''riscv'']))), ''riscv64-unknown-elf-'')
      else ((False, []), ''riscv64-unknown-elf-''))"

definition first_which :: "tool_host \<Rightarrow> string list \<Rightarrow> string option" where
  "first_which host candidates = (case List.map_filter (which host) candidates of [] \<Rightarrow> None | c # _ \<Rightarrow> Some c)"

definition find_c_compiler :: "tool_host \<Rightarrow> string option" where
  "find_c_compiler host =
     first_which host (filter (\<lambda>c. c \<noteq> []) (map (\<lambda>v. strip (environ_get host v [])) [''CXX'', ''CC'']) @
       [''g++'', ''c++'', ''clang++'', ''cc'', ''gcc'', ''clang''])"

text \<open>\<open>ljust n\<close> is the format \<^verbatim>\<open>:n\<close> of a string.\<close>

definition ljust :: "nat \<Rightarrow> string \<Rightarrow> string" where
  "ljust n s = s @ replicate (n - length s) CHR '' ''"

definition status_line :: "char \<Rightarrow> string \<Rightarrow> string \<Rightarrow> string" where
  "status_line marker name status = [marker] @ '' '' @ ljust 22 name @ '' '' @ ljust 8 status"

definition detail_line :: "string \<Rightarrow> string" where
  "detail_line s = ''  '' @ ljust 22 [] @ '' '' @ s"

definition found_status :: "bool \<Rightarrow> bool \<Rightarrow> string" where
  "found_status found required = (if found then ''OK'' else if required then ''MISSING'' else ''not found'')"

definition mark :: "bool \<Rightarrow> char" where
  "mark bad = (if bad then CHR ''!'' else CHR '' '')"

definition probe_header :: "tool_host \<Rightarrow> string \<Rightarrow> string \<Rightarrow> bool \<times> string" where
  "probe_header host compiler header =
     (let name = path_name (Path compiler);
          language = (if contains ''++'' name \<or> contains ''xx'' name then ''c++'' else ''c'')
      in case h_run host [compiler, ''-fsyntax-only'', ''-x'', language, ''-''] (Some (''#include <'' @ header @ ''>'' @ [NL])) of
           Inl exc \<Rightarrow> (False, exc)
         | Inr (returncode, _) \<Rightarrow> if returncode = 0 then (True, ''found by '' @ name) else (False, []))"

definition check_c_header :: "tool_host \<Rightarrow> string \<Rightarrow> string \<Rightarrow> string \<Rightarrow> bool \<Rightarrow> string \<Rightarrow> string list \<times> bool" where
  "check_c_header host name header pkg_config required note =
     (let (found, detail) = (case find_c_compiler host of None \<Rightarrow> (False, []) | Some compiler \<Rightarrow> probe_header host compiler header);
          (found, detail) =
            (if \<not> found \<and> which host ''pkg-config'' \<noteq> None \<and> fst (run_text host [''pkg-config'', ''--exists'', pkg_config])
             then (True, ''found by pkg-config ('' @ pkg_config @ '')'') else (found, detail))
      in ([status_line (mark (required \<and> \<not> found)) name (found_status found required) @ '' '' @ header] @
          (if detail = [] then [] else [detail_line detail]) @ (if note = [] then [] else [detail_line note]),
          found \<or> \<not> required))"

definition check_tool :: "tool_host \<Rightarrow> string \<Rightarrow> tool \<Rightarrow> string list \<times> bool" where
  "check_tool host flow tool =
     (let required = flow_requires tool flow;
          exe = find_command host (t_command tool) (t_search_paths tool);
          head = status_line (mark (required \<and> exe = None)) (t_name tool) (found_status (exe \<noteq> None) required);
          (lines, version_ok) =
            (case exe of
               None \<Rightarrow> ([head], True)
             | Some exe \<Rightarrow>
                 (let (ok, version) = run_text host (exe # t_version_args tool);
                      detail = (if ok \<or> version \<noteq> [] then version else exe);
                      version_ok = (\<not> (ok \<and> t_expected_version tool \<noteq> [] \<and> \<not> contains (t_expected_version tool) version))
                  in ([head @ '' '' @ exe] @ (if detail = [] then [] else [detail_line detail]) @
                      (if t_expected_version tool = [] then []
                       else [status_line (mark (required \<and> \<not> version_ok)) ''expected'' (if version_ok then ''OK'' else ''MISMATCH'') @
                             '' '' @ t_expected_version tool]),
                      version_ok)))
      in (lines @ (if t_note tool = [] then [] else [detail_line (t_note tool)]),
          (exe \<noteq> None \<and> version_ok) \<or> \<not> required))"

definition check_python_module :: "tool_host \<Rightarrow> string \<Rightarrow> string \<Rightarrow> ppath \<Rightarrow> bool \<Rightarrow> string list \<times> bool" where
  "check_python_module host name module python required =
     (let (ok, version) = run_text host [ppath_str python, ''-c'',
            ''import '' @ module @ ''; print(getattr('' @ module @ '', '' @ quoted ''__version__'' @ '', '' @ quoted ''available'' @ ''))'']
      in ([status_line (mark (required \<and> \<not> ok)) name (found_status ok required) @ '' '' @ module] @
          (if ok \<and> version \<noteq> [] then [detail_line version] else []),
          ok \<or> \<not> required))"

section \<open>The tools\<close>

abbreviation version_flag :: "string list" where
  "version_flag \<equiv> [''--version'']"

definition core_tools :: "tool_host \<Rightarrow> ppath \<Rightarrow> ppath \<Rightarrow> tool list" where
  "core_tools host venv_bin bender_bin =
     [Tool ''Python'' (h_python host) version_flag [''all''] [],
      Tool ''venv Python'' ''python'' version_flag [''all''] [venv_bin],
      Tool ''GNU Make'' ''make'' version_flag [''all''] [],
      Tool ''CMake'' ''cmake'' version_flag [''all''] [],
      Tool ''Bender'' ''bender'' version_flag [''all''] [bender_bin],
      Tool ''FuseSoC'' ''fusesoc'' version_flag [''all''] [venv_bin]]"

definition fw_tools :: "string \<Rightarrow> ppath list \<Rightarrow> tool list" where
  "fw_tools cross_prefix toolchain_bin =
     [Tool ''C compiler'' (cross_prefix @ ''gcc'') version_flag [''all''] toolchain_bin,
      Tool ''objcopy'' (cross_prefix @ ''objcopy'') version_flag [''all''] toolchain_bin,
      Tool ''objdump'' (cross_prefix @ ''objdump'') version_flag [''all''] toolchain_bin,
      Tool ''readelf'' (cross_prefix @ ''readelf'') version_flag [''all''] toolchain_bin,
      Tool ''GDB'' (cross_prefix @ ''gdb'') version_flag [''debug''] toolchain_bin]"

definition sim_tools :: "ppath \<Rightarrow> tool list" where
  "sim_tools verilator_bin = [Tool ''Verilator'' ''verilator'' version_flag [''sim''] [verilator_bin]]"

definition verilator_build_tools :: "tool_host \<Rightarrow> tool list" where
  "verilator_build_tools host =
     map (\<lambda>(name, command). Tool name command version_flag [] [])
       [(''git'', ''git''), (''autoconf'', ''autoconf''), (''flex'', ''flex''), (''bison'', ''bison''),
        (''help2man'', ''help2man''), (''Perl'', ''perl''), (''C++ compiler'', environ_get host ''CXX'' ''g++'')]"

definition style_tools :: "ppath \<Rightarrow> tool list" where
  "style_tools verible_bin =
     [Tool ''Verible lint'' ''verible-verilog-lint'' version_flag [] [verible_bin],
      Tool ''Verible format'' ''verible-verilog-format'' version_flag [] [verible_bin],
      Tool ''Verible syntax'' ''verible-verilog-syntax'' version_flag [] [verible_bin]]"

definition verible_install_tools :: "tool list" where
  "verible_install_tools = [Tool ''curl'' ''curl'' version_flag [] [], Tool ''tar'' ''tar'' version_flag [] []]"

definition fpga_tools :: "tool_host \<Rightarrow> tool list" where
  "fpga_tools host =
     [Tool ''Vivado'' ''vivado'' [''-version''] [''fpga''] []
        \<lparr>t_expected_version := environ_get host ''COREJACK_VIVADO_VERSION'' ''2025.2.1''\<rparr>]"

definition debug_tools :: "tool list" where
  "debug_tools =
     [Tool ''OpenOCD'' ''openocd'' version_flag [''debug''] [],
      Tool ''picocom'' ''picocom'' [''--help''] [] [] \<lparr>t_note := ''optional UART terminal''\<rparr>]"

section \<open>main\<close>

text \<open>A loop over tools: what it prints and whether every check passed.\<close>

definition check_all :: "tool_host \<Rightarrow> string \<Rightarrow> tool list \<Rightarrow> string list \<times> bool" where
  "check_all host flow tools =
     (concat (map (fst \<circ> check_tool host flow) tools), list_all (snd \<circ> check_tool host flow) tools)"

definition multilib_lines :: "tool_host \<Rightarrow> string option \<Rightarrow> string list" where
  "multilib_lines host gcc =
     (case gcc of
        None \<Rightarrow> []
      | Some gcc \<Rightarrow>
          (case run_lines host [gcc, ''--print-multi-lib''] of (ok, ls) \<Rightarrow>
             if ok
             then [''  '' @ ljust 22 ''multilib'' @ '' '' @ py_str (int (length ls)) @ '' variants''] @
               map detail_line (take 8 ls) @ (if length ls > 8 then [detail_line ''...''] else [])
             else []))"

definition header_lines :: "tool_host \<Rightarrow> string list" where
  "header_lines host =
     concat (map (\<lambda>(name, header, pkg_config). fst (check_c_header host name header pkg_config False
         ''needed only for SIM_WAVES=1 SIM_WAVE_FORMAT=fst (VCD needs neither)''))
       [(''lz4 headers'', ''lz4.h'', ''liblz4''), (''zlib headers'', ''zlib.h'', ''zlib'')])"

definition banner_lines :: "repo \<Rightarrow> string \<Rightarrow> string \<Rightarrow> string \<Rightarrow> string \<Rightarrow> string \<Rightarrow> string \<Rightarrow> ppath \<Rightarrow> string list" where
  "banner_lines r flow core board toolchain march mabi toolchain_root =
     [''CoreJack tool check'',
      ''  repo:      '' @ path_str (root r),
      ''  flow:      '' @ flow,
      ''  core:      '' @ core,
      ''  board:     '' @ board,
      ''  toolchain: '' @ toolchain,
      ''  march:     '' @ march,
      ''  mabi:      '' @ mabi] @
     (if ppath_str toolchain_root = [] then [] else [''  tc root:   '' @ ppath_str toolchain_root])"

definition REPO_ROOT :: "repo \<Rightarrow> ppath" where
  "REPO_ROOT r = (True, root r)"

text \<open>The tool groups that decide the status, in the order of the report.\<close>

record groups_of_tools =
  g_core :: "tool list"
  g_fw :: "tool list"
  g_sim :: "tool list"
  g_style :: "tool list"
  g_fpga :: "tool list"
  g_debug :: "tool list"

definition tool_groups :: "repo \<Rightarrow> tool_host \<Rightarrow> string \<Rightarrow> groups_of_tools" where
  "tool_groups r host toolchain =
     (let (toolchain_root, cross_prefix) = toolchain_paths r host toolchain;
          toolchain_bin = (if ppath_str toolchain_root = [] then [] else [slash toolchain_root ''bin'']);
          dot_tools = (\<lambda>var n. Path (environ_get host var (path_str (root r @ ''.tools'' # n))));
          venv_bin = slash (slash (REPO_ROOT r) ''.venv'') ''bin''
      in \<lparr>g_core = core_tools host venv_bin (dot_tools ''COREJACK_TOOLS_DIR'' []),
          g_fw = fw_tools cross_prefix toolchain_bin,
          g_sim = sim_tools (slash (dot_tools ''COREJACK_VERILATOR'' [''verilator'']) ''bin''),
          g_style = style_tools (slash (dot_tools ''COREJACK_VERIBLE'' [''verible'']) ''bin''),
          g_fpga = fpga_tools host,
          g_debug = debug_tools\<rparr>)"

definition cocotb_check :: "repo \<Rightarrow> tool_host \<Rightarrow> string \<Rightarrow> string list \<times> bool" where
  "cocotb_check r host flow =
     check_python_module host ''cocotb'' ''cocotb'' (slash (slash (slash (REPO_ROOT r) ''.venv'') ''bin'') ''python'')
       (flow \<in> {''all'', ''sim'', ''fpga'', ''debug''})"

definition tools_report :: "repo \<Rightarrow> tool_host \<Rightarrow> string \<Rightarrow> string \<Rightarrow> string list \<times> bool" where
  "tools_report r host toolchain flow =
     (let g = tool_groups r host toolchain;
          (toolchain_root, cross_prefix) = toolchain_paths r host toolchain;
          toolchain_bin = (if ppath_str toolchain_root = [] then [] else [slash toolchain_root ''bin'']);
          (core_out, core_ok) = check_all host flow (g_core g);
          (py_out, py_ok) = cocotb_check r host flow;
          (fw_out, fw_ok) = check_all host flow (g_fw g);
          (sim_out, sim_ok) = check_all host flow (g_sim g);
          (fpga_out, fpga_ok) = check_all host flow (g_fpga g);
          (debug_out, debug_ok) = check_all host flow (g_debug g)
      in (section_lines ''Core Tools'' @ core_out @
          section_lines ''Python Packages'' @ py_out @
          section_lines ''Firmware Toolchain'' @ fw_out @
          multilib_lines host (find_command host (cross_prefix @ ''gcc'') toolchain_bin) @
          section_lines ''Simulation'' @ sim_out @
          (if flow \<in> {''all'', ''sim''}
           then header_lines host @ section_lines ''Optional Verilator Build Prerequisites'' @
             fst (check_all host flow (verilator_build_tools host)) @
             [''  '' @ ljust 22 ''system packages'' @ '' '' @
                ''flex/bison and zlib development headers may also be required by the host OS'',
              detail_line ''see docs/source/tooling.rst for the lz4/zlib waveform prerequisites'']
           else []) @
          section_lines ''RTL Style'' @ fst (check_all host flow (g_style g)) @
          (if flow \<in> {''all'', ''sim''}
           then section_lines ''Optional Verible Binary Install Prerequisites'' @ fst (check_all host flow verible_install_tools)
           else []) @
          section_lines ''FPGA'' @ fpga_out @ section_lines ''Debug'' @ debug_out,
          core_ok \<and> py_ok \<and> fw_ok \<and> sim_ok \<and> fpga_ok \<and> debug_ok))"

text \<open>What is printed and the exit status.\<close>

definition tools_main :: "repo \<Rightarrow> tool_host \<Rightarrow> string \<Rightarrow> string \<Rightarrow> string \<Rightarrow> (string list \<times> nat) res" where
  "tools_main r host core board flow =
     bindr (load_descriptors r core board) (\<lambda>(core_text, board_text).
     bindr (target_config r core board core_text board_text) (\<lambda>config.
     bindr (config_get config ''TOOLCHAIN'') (\<lambda>toolchain.
     bindr (config_get config ''MARCH'') (\<lambda>march.
     bindr (config_get config ''MABI'') (\<lambda>mabi.
     let (out, all_ok) = tools_report r host toolchain flow
     in Inr (banner_lines r flow core board toolchain march mabi (fst (toolchain_paths r host toolchain)) @ out @
          [[], if all_ok then ''Result: OK'' else ''Result: missing required tools''],
          if all_ok then 0 else 1))))))"

section \<open>What the status says\<close>

text \<open>
  A tool is ready when it is found and, if a version is expected, its version command does not
  report another one.
\<close>

definition tool_ready :: "tool_host \<Rightarrow> tool \<Rightarrow> bool" where
  "tool_ready host tool =
     (\<exists>exe. find_command host (t_command tool) (t_search_paths tool) = Some exe \<and>
        (t_expected_version tool \<noteq> [] \<and> fst (run_text host (exe # t_version_args tool)) \<longrightarrow>
         contains (t_expected_version tool) (snd (run_text host (exe # t_version_args tool)))))"

definition status_tools :: "repo \<Rightarrow> tool_host \<Rightarrow> string \<Rightarrow> tool list" where
  "status_tools r host toolchain =
     (let g = tool_groups r host toolchain in g_core g @ g_fw g @ g_sim g @ g_fpga g @ g_debug g)"

definition cocotb_ready :: "repo \<Rightarrow> tool_host \<Rightarrow> bool" where
  "cocotb_ready r host = snd (cocotb_check r host ''all'')"

text \<open>The tools each flow needs, by name.\<close>

definition base_needs :: "string list" where
  "base_needs = [''Python'', ''venv Python'', ''GNU Make'', ''CMake'', ''Bender'', ''FuseSoC'', ''C compiler'',
     ''objcopy'', ''objdump'', ''readelf'']"

fun flow_needs :: "string \<Rightarrow> string list" where
  "flow_needs flow = base_needs @
     (if flow \<in> {''all'', ''debug''} then [''GDB'', ''OpenOCD''] else []) @
     (if flow \<in> {''all'', ''sim''} then [''Verilator''] else []) @
     (if flow \<in> {''all'', ''fpga''} then [''Vivado''] else [])"

lemma check_tool_ok: "snd (check_tool host flow tool) \<longleftrightarrow> (flow_requires tool flow \<longrightarrow> tool_ready host tool)"
  by (auto simp: check_tool_def tool_ready_def Let_def case_prod_unfold split: option.splits)

lemma report_ok:
  "snd (tools_report r host toolchain flow) \<longleftrightarrow>
     snd (cocotb_check r host flow) \<and> (\<forall>tool\<in>set (status_tools r host toolchain). flow_requires tool flow \<longrightarrow> tool_ready host tool)"
  by (auto simp: tools_report_def status_tools_def check_all_def Let_def case_prod_unfold list_all_iff check_tool_ok)

lemma cocotb_all: "flow \<in> {''all'', ''sim'', ''fpga'', ''debug''} \<Longrightarrow> snd (cocotb_check r host flow) \<longleftrightarrow> cocotb_ready r host"
  by (auto simp: cocotb_check_def cocotb_ready_def check_python_module_def Let_def case_prod_unfold)

lemma cross_prefix: "snd (toolchain_paths r host toolchain) = ''riscv64-unknown-elf-''"
  by (simp add: toolchain_paths_def)

lemma status_tools_eq:
  "\<exists>v t cx m. status_tools r host toolchain =
     core_tools host v t @ fw_tools ''riscv64-unknown-elf-'' cx @ sim_tools m @ fpga_tools host @ debug_tools"
  unfolding status_tools_def tool_groups_def Let_def case_prod_unfold cross_prefix groups_of_tools.simps
  by (intro exI) (rule refl)

lemmas tool_tables = core_tools_def fw_tools_def sim_tools_def fpga_tools_def debug_tools_def Tool_def

lemma requires_named:
  assumes "flow \<in> {''all'', ''sim'', ''fpga'', ''debug''}" "tool \<in> set (status_tools r host toolchain)"
  shows "flow_requires tool flow \<longleftrightarrow> t_name tool \<in> set (flow_needs flow)"
proof -
  obtain v t cx m where e: "status_tools r host toolchain =
      core_tools host v t @ fw_tools ''riscv64-unknown-elf-'' cx @ sim_tools m @ fpga_tools host @ debug_tools"
    using status_tools_eq by metis
  have "\<forall>f\<in>{''all'', ''sim'', ''fpga'', ''debug''}. \<forall>tool\<in>set (core_tools host v t @ fw_tools ''riscv64-unknown-elf-'' cx @
      sim_tools m @ fpga_tools host @ debug_tools). flow_requires tool f \<longleftrightarrow> t_name tool \<in> set (flow_needs f)"
    by (simp add: tool_tables flow_requires_def base_needs_def)
  from bspec [OF bspec [OF this assms(1)] assms(2) [unfolded e]] show ?thesis .
qed

lemma needs_split:
  "set (flow_needs ''all'') = set (flow_needs ''sim'') \<union> set (flow_needs ''fpga'') \<union> set (flow_needs ''debug'')"
  by auto

lemma tools_main_run:
  assumes "load_descriptors r core board = Inr (core_text, board_text)"
    and "target_config r core board core_text board_text = Inr config" "config_get config ''TOOLCHAIN'' = Inr toolchain"
    and "flow \<in> {''all'', ''sim'', ''fpga'', ''debug''}"
  shows "\<exists>out. tools_main r host core board flow = Inr (out,
    if cocotb_ready r host \<and> (\<forall>tool\<in>set (status_tools r host toolchain). t_name tool \<in> set (flow_needs flow) \<longrightarrow> tool_ready host tool)
    then 0 else 1)"
proof -
  obtain march mabi where "config_get config ''MARCH'' = Inr march" "config_get config ''MABI'' = Inr mabi"
    using config_keys [OF assms(2), of "''MARCH''"] config_keys [OF assms(2), of "''MABI''"] by (auto simp: validate_keys_def)
  moreover have "snd (tools_report r host toolchain flow) \<longleftrightarrow> cocotb_ready r host \<and>
      (\<forall>tool\<in>set (status_tools r host toolchain). t_name tool \<in> set (flow_needs flow) \<longrightarrow> tool_ready host tool)"
    unfolding report_ok cocotb_all [OF assms(4)] using requires_named [OF assms(4)] by blast
  ultimately show ?thesis using assms(1-3) by (simp add: tools_main_def case_prod_unfold Let_def)
qed

text \<open>
  (C28) The exit status is exact and the flows add up. On a target with a configuration, the check
  for a flow ends with status 0 when cocotb can be imported and every tool the flow needs is ready,
  and with status 1 otherwise; and the check for all flows passes exactly when the checks for
  simulation, FPGA and debugging pass.
\<close>

theorem tools_main_exact:
  assumes "load_descriptors r core board = Inr (core_text, board_text)"
    and "target_config r core board core_text board_text = Inr config" "config_get config ''TOOLCHAIN'' = Inr toolchain"
  shows "(\<forall>flow\<in>{''all'', ''sim'', ''fpga'', ''debug''}. \<exists>out code. tools_main r host core board flow = Inr (out, code) \<and> code \<le> 1 \<and>
      (code = 0 \<longleftrightarrow> cocotb_ready r host \<and>
        (\<forall>tool\<in>set (status_tools r host toolchain). t_name tool \<in> set (flow_needs flow) \<longrightarrow> tool_ready host tool))) \<and>
    ((\<exists>out. tools_main r host core board ''all'' = Inr (out, 0)) \<longleftrightarrow>
      (\<forall>flow\<in>{''sim'', ''fpga'', ''debug''}. \<exists>out. tools_main r host core board flow = Inr (out, 0)))"
proof -
  define ok where "ok flow = (cocotb_ready r host \<and>
    (\<forall>tool\<in>set (status_tools r host toolchain). t_name tool \<in> set (flow_needs flow) \<longrightarrow> tool_ready host tool))" for flow
  have run: "\<exists>out. tools_main r host core board flow = Inr (out, if ok flow then 0 else 1)"
    if "flow \<in> {''all'', ''sim'', ''fpga'', ''debug''}" for flow
    using tools_main_run [OF assms that] unfolding ok_def .
  have zero: "(\<exists>out. tools_main r host core board flow = Inr (out, 0)) \<longleftrightarrow> ok flow"
    if "flow \<in> {''all'', ''sim'', ''fpga'', ''debug''}" for flow
    using run [OF that] by (cases "ok flow") auto
  have exact: "\<exists>out code. tools_main r host core board flow = Inr (out, code) \<and> code \<le> 1 \<and> (code = 0 \<longleftrightarrow> ok flow)"
    if "flow \<in> {''all'', ''sim'', ''fpga'', ''debug''}" for flow
    using run [OF that] by (cases "ok flow") auto
  have "ok ''all'' \<longleftrightarrow> ok ''sim'' \<and> ok ''fpga'' \<and> ok ''debug''" unfolding ok_def needs_split Un_iff by blast
  with zero have "(\<exists>out. tools_main r host core board ''all'' = Inr (out, 0)) \<longleftrightarrow>
      (\<forall>flow\<in>{''sim'', ''fpga'', ''debug''}. \<exists>out. tools_main r host core board flow = Inr (out, 0))" by simp
  moreover have "\<forall>flow\<in>{''all'', ''sim'', ''fpga'', ''debug''}. \<exists>out code. tools_main r host core board flow = Inr (out, code) \<and>
      code \<le> 1 \<and> (code = 0 \<longleftrightarrow> ok flow)"
    using exact by (rule ballI)
  ultimately show ?thesis unfolding ok_def by (rule conjI [rotated])
qed

text \<open>The guard on the root of the toolchain never fails: the empty path prints as a dot.\<close>

lemma toolchain_root_printed: "ppath_str (fst (toolchain_paths r host toolchain)) \<noteq> []"
proof -
  have "join ''/'' cs \<noteq> []" if "cs \<noteq> []" "[] \<notin> set cs" for cs using that by (cases cs rule: remdups_adj.cases) auto
  moreover have "[] \<notin> set (components s)" for s by (simp add: components_def)
  ultimately show ?thesis by (auto simp: ppath_str_def toolchain_paths_def Path_def)
qed

text \<open>A version command that fails counts as the expected version.\<close>

lemma failing_version_accepted:
  assumes "find_command host (t_command tool) (t_search_paths tool) = Some exe"
    and "\<not> fst (run_text host (exe # t_version_args tool))"
  shows "snd (check_tool host flow tool)"
  using assms by (simp add: check_tool_ok tool_ready_def)

end
