(* ===== verification/Tools_Sample.thy ===== *)
theory Tools_Sample
  imports Sample Check_Tools
begin

text \<open>A host that has every tool, for the checkout of theory \<open>Sample\<close>.\<close>

definition full_host :: tool_host where
  "full_host = \<lparr>h_env = (\<lambda>_. None), h_exec = (\<lambda>_. True), h_run = (\<lambda>_ _. Inr (0, ''2025.2.1'')), h_python = ''/bin/python3''\<rparr>"

lemma full_found: "\<exists>exe. find_command full_host cmd ps = Some exe"
proof (cases ps)
  case Nil
  have "split_on CHR '':'' ''/bin:/usr/bin'' = [''/bin'', ''/usr/bin'']" by code_simp
  with Nil show ?thesis by (simp add: find_command_def which_def full_host_def environ_get_def Let_def)
qed (simp add: find_command_def full_host_def)

lemma full_text: "run_text full_host argv = (True, ''2025.2.1'')"
proof -
  have "strip ''2025.2.1'' = ''2025.2.1''" "splitlines ''2025.2.1'' = [''2025.2.1'']" by code_simp+
  then show ?thesis by (simp add: run_text_def full_host_def)
qed

lemma full_ready:
  assumes "tool \<in> set (status_tools sample full_host toolchain)"
  shows "tool_ready full_host tool"
proof -
  obtain v t cx m where e: "status_tools sample full_host toolchain =
      core_tools full_host v t @ fw_tools ''riscv64-unknown-elf-'' cx @ sim_tools m @ fpga_tools full_host @ debug_tools"
    using status_tools_eq by metis
  have "\<forall>tool\<in>set (core_tools full_host v t @ fw_tools ''riscv64-unknown-elf-'' cx @ sim_tools m @ fpga_tools full_host @ debug_tools).
      t_expected_version tool \<in> {[], ''2025.2.1''}"
    by (simp add: tool_tables environ_get_def full_host_def)
  from bspec [OF this assms [unfolded e]] show ?thesis
    using full_found [of "t_command tool" "t_search_paths tool"] by (auto simp: tool_ready_def full_text)
qed

theorem tools_main_exact_witness:
  "\<exists>out. tools_main sample full_host ''ibex'' ''axku5'' ''all'' = Inr (out, 0)"
proof -
  obtain toolchain where t: "config_get sample_config ''TOOLCHAIN'' = Inr toolchain"
    using config_keys [OF sample_config, of "''TOOLCHAIN''"] by (auto simp: validate_keys_def)
  have c: "cocotb_ready sample full_host"
    by (simp add: cocotb_ready_def cocotb_check_def check_python_module_def full_text)
  from tools_main_exact [OF sample_loaded sample_config t, of full_host, THEN conjunct1, THEN bspec, of "''all''"]
  obtain out code where "tools_main sample full_host ''ibex'' ''axku5'' ''all'' = Inr (out, code)" "code = 0"
    using c full_ready by (auto simp del: flow_needs.simps)
  then show ?thesis by blast
qed

end
