(* ===== verification/Session.thy ===== *)
theory Session
  imports Scaffold_Sample Bump_Version
begin

text \<open>
  The scripts that edit the sources of the checkout, run one after the other: \<^verbatim>\<open>create_core.py\<close>,
  \<^verbatim>\<open>create_board.py\<close> and \<^verbatim>\<open>bump_version.py\<close>, with any arguments and whether the runs succeed or
  fail. What each of them may do to a text that is already there is the contract \<open>script\<close>; the three
  scripts satisfy it, and so does any sequence of their runs. The other scripts are not part of a
  session: \<^verbatim>\<open>render_support_matrix.py\<close>, \<^verbatim>\<open>vivado_tcl_to_flist.py\<close> and \<^verbatim>\<open>postprocess_drawio_svg.py\<close> replace the
  output file they are told to write, and \<^verbatim>\<open>deps_core.py\<close> works on directories and links.
\<close>

section \<open>What a run may do to a text\<close>

text \<open>A text without the versions of its CoreJack names.\<close>

definition unversioned :: "string \<Rightarrow> string" where
  "unversioned t = bumped [] t"

text \<open>
  \<open>corejack.core\<close> is edited by all three scripts and may change in any way. The package only gains
  characters, a FuseSoC file of the root directory only has its versions changed, a board
  descriptor only gains lines, and every other text is kept as it is.
\<close>

definition kept :: "repo \<Rightarrow> fpath \<Rightarrow> string \<Rightarrow> string \<Rightarrow> bool" where
  "kept r p t t' =
     (p = CORE_FILE r \<or>
     (if p = PLATFORM_PKG r then subseq t t'
      else if p \<noteq> [] \<and> butlast p = root r \<and> suffix ''.core'' (last p) then unversioned t' = unversioned t
      else if p \<noteq> [] \<and> butlast p = BOARD_DIR r then subseq (splitlines t) (splitlines t')
      else t' = t))"

definition keeps :: "repo \<Rightarrow> repo \<Rightarrow> bool" where
  "keeps r r' = (wf_repo r' \<and> root r' = root r \<and>
     (\<forall>p t. plain_path p \<longrightarrow> lookup_file r p = Some t \<longrightarrow> (\<exists>t'. lookup_file r' p = Some t' \<and> kept r p t t')))"

lemma kept_refl: "kept r p t t"
  by (simp add: kept_def)

lemma kept_trans: "kept r p t t' \<Longrightarrow> kept r p t' t'' \<Longrightarrow> kept r p t t''"
  by (auto simp: kept_def intro: subseq_order.trans split: if_splits)

lemma kept_root: "root s = root r \<Longrightarrow> kept s = kept r"
  by (intro ext) (simp only: kept_def CORE_FILE_def PLATFORM_PKG_def BOARD_DIR_def)

lemma keeps_refl: "wf_repo r \<Longrightarrow> keeps r r"
  by (auto simp: keeps_def kept_refl)

lemma keeps_trans:
  assumes "keeps r s" "keeps s u"
  shows "keeps r u"
proof -
  have "root s = root r" "root u = root r" "wf_repo u" using assms by (simp_all add: keeps_def)
  note k = kept_root [OF this(1)] this(2,3)
  have "\<exists>t''. lookup_file u p = Some t'' \<and> kept r p t t''" if "plain_path p" "lookup_file r p = Some t" for p t
  proof -
    from assms(1) that obtain t' where t': "lookup_file s p = Some t'" "kept r p t t'" by (auto simp: keeps_def)
    with assms(2) that(1) obtain t'' where "lookup_file u p = Some t''" "kept r p t' t''" by (auto simp: keeps_def k(1))
    with t'(2) kept_trans show ?thesis by blast
  qed
  with k(2,3) show ?thesis by (simp add: keeps_def)
qed

section \<open>The steps of a script\<close>

text \<open>A write is allowed when the text that was there is kept.\<close>

lemma keeps_write:
  assumes "keeps r s" "list_all file_name p" "\<And>t. lookup_file s p = Some t \<Longrightarrow> kept s p t (universal_newlines u)"
  shows "keeps r (write_text s p u)"
proof (rule keeps_trans [OF assms(1)])
  have "wf_repo s" using assms(1) by (simp add: keeps_def)
  moreover have "\<exists>t'. lookup_file (write_text s p u) q = Some t' \<and> kept s q t t'" if "plain_path q" "lookup_file s q = Some t" for q t
    using that assms(3) [of t] plain_names [OF assms(2)] by (auto simp: checkout.get_put kept_refl)
  ultimately show "keeps s (write_text s p u)" using wf_repo_write [OF _ assms(2)] by (simp add: keeps_def)
qed

lemma keeps_then_do:
  "keeps r (fst m) \<Longrightarrow> (\<And>x s. m = (s, Inr x) \<Longrightarrow> keeps r s \<Longrightarrow> keeps r (fst (k x s))) \<Longrightarrow> keeps r (fst (then_do m k))"
  by (cases m; cases "snd m") auto

lemma keeps_look: "keeps r s \<Longrightarrow> keeps r (fst (look f s))"
  by (simp add: look_def)

lemma keeps_edit:
  assumes "keeps r s" "list_all file_name p"
    and "\<And>t t'. CHR 0x0D \<notin> set t \<Longrightarrow> f t = Inr t' \<Longrightarrow> kept s p t (universal_newlines t')"
  shows "keeps r (fst (edit_file p f s))"
proof -
  have wf: "wf_repo s" using assms(1) by (simp add: keeps_def)
  show ?thesis unfolding edit_file_def
  proof (rule keeps_then_do [OF keeps_look [OF assms(1)]], goal_cases)
    case (1 t' u)
    then obtain t where u: "u = s" "lookup_file s p = Some t" "f t = Inr t'" by (auto simp: look_eq bindr_eq_Inr read_text_ok)
    then show ?case using assms(3) [OF wf_repo_text [OF wf u(2)] u(3)] by (auto intro!: keeps_write [OF assms(1,2)])
  qed
qed

text \<open>A new file is written only where nothing exists.\<close>

lemma keeps_new:
  assumes "keeps r s" "list_all file_name (fst pc)"
  shows "keeps r (fst (write_new pc s))"
  unfolding write_new_def
proof (rule keeps_then_do [OF keeps_look [OF assms(1)]], goal_cases)
  case (1 x u)
  then have u: "u = s" "refuse s (fst pc) = Inr x" by (simp_all add: look_eq)
  then have "\<not> path_exists s (fst pc)" by (auto simp: refuse_def res_simps split: if_splits)
  then have "lookup_file s (fst pc) = None" by (simp add: path_exists_def is_file_def)
  with u(1) show ?case using keeps_write [OF assms] by simp
qed

lemma keeps_new_all: "keeps r s \<Longrightarrow> list_all (list_all file_name) (map fst pcs) \<Longrightarrow> keeps r (fst (write_new_all pcs s))"
proof (induction pcs arbitrary: s)
  case (Cons pc pcs)
  then show ?case by (auto intro!: keeps_then_do keeps_new)
qed simp

section \<open>The contract of a script\<close>

locale script =
  fixes run :: "'a \<Rightarrow> repo \<Rightarrow> repo \<times> 'b"
    and admitted :: "'a \<Rightarrow> bool"
  assumes run_keeps: "admitted a \<Longrightarrow> wf_repo r \<Longrightarrow> keeps r (fst (run a r))"
begin

text \<open>Several runs of one script in a row.\<close>

lemma runs_keep: "list_all admitted as \<Longrightarrow> wf_repo r \<Longrightarrow> keeps r (fold (\<lambda>a r. fst (run a r)) as r)"
proof (induction as arbitrary: r)
  case (Cons a as)
  then have "keeps r (fst (run a r))" using run_keeps by simp
  moreover from this have "wf_repo (fst (run a r))" by (simp add: keeps_def)
  ultimately show ?case using Cons keeps_trans by fastforce
qed (simp add: keeps_refl)

text \<open>A file that no script edits has its text after every run.\<close>

lemma other_text:
  assumes "admitted a" "wf_repo r" "plain_path p" "lookup_file r p = Some t" "butlast p \<notin> {root r, BOARD_DIR r, butlast (PLATFORM_PKG r)}"
  shows "lookup_file (fst (run a r)) p = Some t"
proof -
  from run_keeps [OF assms(1,2)] assms(3,4) obtain t' where t': "lookup_file (fst (run a r)) p = Some t'" "kept r p t t'"
    by (auto simp: keeps_def)
  have "p \<noteq> CORE_FILE r" "p \<noteq> PLATFORM_PKG r" using assms(5) by (auto simp: CORE_FILE_def)
  with assms(5) t' show ?thesis by (simp add: kept_def)
qed

end

section \<open>The edits\<close>

lemma subseq_newlines: "subseq s t \<Longrightarrow> CHR 0x0D \<notin> set s \<Longrightarrow> subseq s (universal_newlines t)"
proof (induction t arbitrary: s rule: universal_newlines.induct)
  case (2 c t)
  show ?case
  proof (cases "c = CHR 0x0D")
    case False
    with 2 show ?thesis by (cases s) (auto simp: subseq_Cons2_iff split: if_splits)
  next
    case True
    have s: "subseq s t" using "2.prems" True by (cases s) (auto split: if_splits)
    show ?thesis
    proof (cases "t \<noteq> [] \<and> hd t = NL")
      case nl: True
      then obtain u where t: "t = NL # u" by (cases t) auto
      have "subseq s' u \<Longrightarrow> CHR 0x0D \<notin> set s' \<Longrightarrow> subseq s' (universal_newlines u)" for s'
        using "2.IH"(1) [OF True, of s'] t by simp
      then show ?thesis using s True t "2.prems"(2) by (cases s) (auto split: if_splits)
    next
      case False
      then show ?thesis using "2.IH"(1) [OF True, of s] s "2.prems"(2) True by auto
    qed
  qed
qed simp

text \<open>The last member of the enumeration is matched piece by piece, and the edit keeps every piece.\<close>

lemma last_member_pieces:
  assumes "(p', s', g) \<in> set (rmatch last_member_rx (p, s, []))"
  shows "s = group ''indent'' g @ group ''last'' g @ group ''trailing'' g @ NL # group ''close'' g @ s'"
  using assms
  by (auto simp: last_member_rx_def rx_mem group_def eval_nat_numeral simp del: rmatch.simps rlit.simps)

lemma edit_platform_pkg_grows:
  assumes "edit_platform_pkg a t = Inr t'"
  shows "subseq t t'"
proof -
  from assms obtain pre u p' s' g where m: "re_search_from last_member_rx [] t = Some (pre, u, (p', s', g))"
    "t' = rev pre @ member_edit a g @ s'"
    by (auto simp: edit_platform_pkg_def re_splice_def res_simps Let_def split: option.splits prod.splits)
  from re_search_Some [OF m(1)] have "t = rev pre @ u" "(p', s', g) \<in> set (rmatch last_member_rx (pre, u, []))" by auto
  with last_member_pieces have t: "t = rev pre @ group ''indent'' g @ group ''last'' g @ group ''trailing'' g @ NL # group ''close'' g @ s'"
    by blast
  let ?tail = "group ''trailing'' g @ NL # group ''close'' g @ s'"
  let ?new = "'','' @ [NL] @ group ''indent'' g @ core_enum_name (sp_core a) @ '' = '' @ py_str (sp_core_type a)"
  have "t' = rev pre @ group ''indent'' g @ group ''last'' g @ ?new @ ?tail" by (simp add: m(2) member_edit_def)
  moreover have "subseq ?tail (?new @ ?tail)" by (rule list_emb_append2) (rule subseq_order.refl)
  ultimately show ?thesis unfolding t by (simp only: list_emb_append_mono subseq_order.refl)
qed

section \<open>The scripts\<close>

lemma create_core_keeps:
  assumes "wf_repo r"
  shows "keeps r (fst (create_core args r))"
  unfolding create_core_def
proof (rule keeps_then_do [OF keeps_look [OF keeps_refl [OF assms]]], goal_cases)
  case (1 a s)
  then have a: "core_spec_of r args = Inr a" and s: "keeps r s" by (simp_all add: look_eq)
  note names = core_names_ok [OF a] and ok = core_spec_ok [OF a]
  have item: "plain_text (sp_core a)" using plain_scalar_keys [OF ok(3) ident_keys [OF ok(5)]] by (simp add: plain_scalar_def)
  have root: "list_all file_name (root u)" if "keeps r u" for u using wf_root [OF assms] that by (simp add: keeps_def)
  have pkg: "keeps r (fst (update_platform_pkg a u))" if u: "keeps r u" for u unfolding update_platform_pkg_def
    using names root [OF u]
    by (intro keeps_edit u) (auto simp: PLATFORM_PKG_def CORE_FILE_def kept_def intro: subseq_newlines edit_platform_pkg_grows)
  have core: "keeps r (fst (update_corejack_core a u))" if u: "keeps r u" for u unfolding update_corejack_core_def
    using names root [OF u] by (intro keeps_edit u) (auto simp: CORE_FILE_def kept_def)
  have board: "keeps r (fst (update_board_descriptor a u))" if u: "keeps r u" for u
  proof -
    have p: "descriptor_path (BOARD_DIR u) (sp_board a) = root u @ [''cfg'', ''boards'', sp_board a @ ''.yaml'']"
      by (rule core_paths(2) [OF a])
    have "kept u (root u @ [''cfg'', ''boards'', sp_board a @ ''.yaml'']) t (universal_newlines t')"
      if "CHR 0x0D \<notin> set t" "append_yaml_top_list_item t ''compatible_cores'' (sp_core a) = Inr t'" for t t'
      using append_keeps_lines [OF item that(2,1)]
      by (simp add: kept_def CORE_FILE_def PLATFORM_PKG_def BOARD_DIR_def butlast_append universal_newlines_id)
    then have "keeps r (fst (edit_file (root u @ [''cfg'', ''boards'', sp_board a @ ''.yaml''])
        (\<lambda>text. append_yaml_top_list_item text ''compatible_cores'' (sp_core a)) u))"
      using names root [OF u] by (intro keeps_edit u) simp_all
    then show ?thesis unfolding update_board_descriptor_def p Let_def
      by (cases "is_file u (root u @ [''cfg'', ''boards'', sp_board a @ ''.yaml''])")
        (simp_all only: keeps_look [OF u] if_True if_False simp_thms)
  qed
  have new: "keeps r (fst (write_new_all (core_files u a) u))" if u: "keeps r u" for u
    using names root [OF u] by (intro keeps_new_all u) (simp add: core_paths(1) [OF a])
  show ?case using s by - (assumption | rule keeps_then_do pkg core board new keeps_look | simp only: fst_conv)+
qed

lemma create_board_keeps:
  assumes "wf_repo r"
  shows "keeps r (fst (create_board a r))"
  unfolding create_board_def
proof (rule keeps_then_do [OF keeps_look [OF keeps_refl [OF assms]]], goal_cases)
  case (1 v s)
  then have v: "board_spec_of r a = Inr v" and s: "keeps r s" by (simp_all add: look_eq)
  note names = board_names_ok [OF v]
  have root: "list_all file_name (root u)" if "keeps r u" for u using wf_root [OF assms] that by (simp add: keeps_def)
  have edit: "keeps r (fst (board_update_corejack_core v a u))" if u: "keeps r u" for u
    unfolding board_update_corejack_core_def using root [OF u] names by (intro keeps_edit u) (auto simp: CORE_FILE_def kept_def)
  have new: "keeps r (fst (write_new_all (board_files u v a) u))" if u: "keeps r u" for u
    using names root [OF u] by (intro keeps_new_all u) (simp add: board_paths [OF v])
  show ?case using s by - (assumption | rule keeps_then_do edit new keeps_look | simp only: fst_conv)+
qed

lemma unversioned_bumped:
  assumes "ver_ok v"
  shows "unversioned (bumped v t) = unversioned t"
proof -
  obtain segs rest where t: "t = vt segs rest" "wf_vt segs rest" using vt_exists by blast
  have "wf_vt (set_versions v segs) rest" using wf_vt_version [OF t(2) assms] by (simp add: set_versions_def)
  moreover have "set_versions [] (set_versions v segs) = set_versions [] segs" by (simp add: set_versions_def case_prod_unfold)
  ultimately show ?thesis using t by (simp add: unversioned_def bumped_def subn_vt)
qed

lemma rewrite_keeps:
  assumes "keeps r s" "ver_ok v" "CHR 0x0D \<notin> set v" "list_all file_name p" "p \<noteq> []" "butlast p = root s" "suffix ''.core'' (last p)"
  shows "keeps r (fst (rewrite p v s))"
proof -
  have "kept s p t (universal_newlines (bumped v t))" if "lookup_file s p = Some t" for t
  proof -
    have "CHR 0x0D \<notin> set t" using wf_repo_text [OF _ that] assms(1) by (simp add: keeps_def)
    then have "universal_newlines (bumped v t) = bumped v t" using bumped_cr_free assms(3) by (simp add: universal_newlines_id)
    moreover have "p \<noteq> PLATFORM_PKG s" using assms(6) by (auto simp: PLATFORM_PKG_def butlast_append)
    ultimately show ?thesis using assms(5-7) unversioned_bumped [OF assms(2)] by (simp add: kept_def)
  qed
  then show ?thesis unfolding rewrite_def using assms(1,4)
    by (intro keeps_then_do keeps_look) (auto simp: look_eq read_text_ok bumped_def intro!: keeps_write split: prod.splits)
qed

lemma rewrite_all_keeps:
  assumes "ver_ok v" "CHR 0x0D \<notin> set v"
    and "\<forall>p\<in>set ps. list_all file_name p \<and> p \<noteq> [] \<and> butlast p = root r \<and> suffix ''.core'' (last p)"
  shows "keeps r s \<Longrightarrow> keeps r (fst (rewrite_all v ps n s))"
  using assms(3)
proof (induction ps arbitrary: n s)
  case (Cons p ps)
  let ?m = "then_do (rewrite p v s) (\<lambda>n. look (\<lambda>r. if n = 0 then Inr (n, [])
     else bindr (relative_to_root r p) (\<lambda>rel. Inr (n, [''  '' @ rel @ '': '' @ py_str (int n) @ '' VLNV reference(s) updated'']))))"
  have "root s = root r" using Cons.prems(1) by (simp add: keeps_def)
  then have "keeps r (fst ?m)" using Cons.prems by (intro keeps_then_do rewrite_keeps [OF _ assms(1,2)] keeps_look) auto
  with Cons show ?case by (cases ?m; cases "snd ?m") (auto simp: case_prod_unfold)
qed simp

text \<open>A version that ends in a line feed passes for a version; it is left out here.\<close>

definition one_line_version :: "string option \<Rightarrow> bool" where
  "one_line_version to = (case to of None \<Rightarrow> True | Some v \<Rightarrow> NL \<notin> set v)"

lemma bump_keeps:
  assumes "wf_repo r" "one_line_version to"
  shows "keeps r (fst (bump_main check to r))"
proof -
  have "\<forall>p\<in>set (collect_files r). list_all file_name p \<and> p \<noteq> [] \<and> butlast p = root r \<and> suffix ''.core'' (last p)"
    using collect_names [OF assms(1)] by (auto simp: collect_files_def CORE_FILES_def glob_ext_def)
  then have "keeps r (fst (rewrite_all v (collect_files r) 0 r))" if "re_match SEMVER_RE v \<noteq> None" "NL \<notin> set v" for v
    using semver_shape [OF that(1)] that(2) semver_no_cr [OF that(1)]
    by (intro rewrite_all_keeps keeps_refl assms(1)) auto
  then show ?thesis using keeps_refl [OF assms(1)] assms(2)
    by (auto simp: bump_main_def one_line_version_def Let_def case_prod_unfold split: option.splits sum.splits)
qed

interpretation core_script: script create_core "\<lambda>_. True"
  by unfold_locales (rule create_core_keeps)

interpretation board_script: script create_board "\<lambda>_. True"
  by unfold_locales (rule create_board_keeps)

interpretation bump_script: script "\<lambda>(check, to). bump_main check to" "\<lambda>(check, to). one_line_version to"
  by unfold_locales (auto simp: bump_keeps)

section \<open>Sessions\<close>

text \<open>One run of a script that edits the sources, however it ends.\<close>

inductive source_run :: "repo \<Rightarrow> repo \<Rightarrow> bool" where
  core: "create_core args r = (r', res) \<Longrightarrow> source_run r r'"
| board: "create_board a r = (r', res) \<Longrightarrow> source_run r r'"
| bump: "bump_main check to r = (r', res) \<Longrightarrow> one_line_version to \<Longrightarrow> source_run r r'"

lemma source_run_keeps: "source_run r r' \<Longrightarrow> wf_repo r \<Longrightarrow> keeps r r'"
proof (induction rule: source_run.induct)
  case (core args r r' res)
  then show ?case using core_script.run_keeps [where a = args and r = r] by simp
next
  case (board a r r' res)
  then show ?case using board_script.run_keeps [where a = a and r = r] by simp
next
  case (bump check to r r' res)
  then show ?case using bump_script.run_keeps [where a = "(check, to)" and r = r] by simp
qed

lemma session_keeps: "rtranclp source_run r r' \<Longrightarrow> wf_repo r \<Longrightarrow> keeps r r'"
proof (induction rule: rtranclp_induct)
  case (step s u)
  then have "keeps r s" by simp
  moreover from this have "wf_repo s" by (simp add: keeps_def)
  ultimately show ?case using source_run_keeps [OF step.hyps(2)] keeps_trans by blast
qed (rule keeps_refl)

text \<open>
  (C24) What no sequence of runs of \<^verbatim>\<open>create_core.py\<close>, \<^verbatim>\<open>create_board.py\<close> and \<^verbatim>\<open>bump_version.py\<close>
  can destroy, whatever the arguments are (but for a version that ends in a line feed) and whether the
  runs succeed or fail. From a well-formed checkout it leads to a well-formed checkout with the same
  root, in which no text has been lost: every file that was there is still there; apart from
  \<^verbatim>\<open>corejack.core\<close>, the package \<^verbatim>\<open>platform_pkg.sv\<close> holds all of its old characters in order, the other
  FuseSoC files of the root directory differ at most in the versions of CoreJack names, the board
  descriptors have all of their old lines in order, and every other file has the text it had.
\<close>

theorem session_invariant:
  assumes "rtranclp source_run r r'" "wf_repo r"
  shows "wf_repo r' \<and> root r' = root r \<and>
    (\<forall>p t. plain_path p \<longrightarrow> lookup_file r p = Some t \<longrightarrow> (\<exists>t'. lookup_file r' p = Some t' \<and>
       (p = CORE_FILE r \<or>
       (if p = PLATFORM_PKG r then subseq t t'
        else if p \<noteq> [] \<and> butlast p = root r \<and> suffix ''.core'' (last p) then unversioned t' = unversioned t
        else if p \<noteq> [] \<and> butlast p = BOARD_DIR r then subseq (splitlines t) (splitlines t')
        else t' = t))))"
  using session_keeps [OF assms] unfolding keeps_def kept_def .

text \<open>A core, a board and a new version: the descriptor of the core that was there has its text.\<close>

theorem session_invariant_witness:
  "\<exists>r1 out. create_core demo_args demo = (r1, Inr out) \<and>
    lookup_file (fst (bump_main False (Some ''0.3.0'') (fst (create_board demo_board_args r1))))
      (descriptor_path (CORE_DIR demo) ''ibex'') = Some demo_ibex"
proof -
  obtain r1 out where r1: "create_core demo_args demo = (r1, Inr out)" using demo_core_run by blast
  let ?r2 = "fst (create_board demo_board_args r1)"
  let ?r3 = "fst (bump_main False (Some ''0.3.0'') ?r2)"
  let ?p = "descriptor_path (CORE_DIR demo) ''ibex''"
  have "one_line_version (Some ''0.3.0'')" by code_simp
  then have "source_run demo r1" "source_run r1 ?r2" "source_run ?r2 ?r3"
    using source_run.core [OF r1] source_run.board [OF prod.collapse [symmetric]] source_run.bump [OF prod.collapse [symmetric]] by blast+
  then have "rtranclp source_run demo ?r3" by (meson rtranclp.rtrancl_into_rtrancl rtranclp.rtrancl_refl)
  note kept = session_invariant [OF this demo_files(2)]
  have p: "plain_path ?p" "?p \<noteq> CORE_FILE demo" "?p \<noteq> PLATFORM_PKG demo" "butlast ?p \<noteq> root demo" "butlast ?p \<noteq> BOARD_DIR demo"
    by code_simp+
  then have "lookup_file ?r3 ?p = Some demo_ibex" using kept demo_files(6) by fastforce
  with r1 show ?thesis by blast
qed

end
