(* ===== verification/Spec2Isabelle.thy ===== *)
theory Spec2Isabelle
  imports Sample Uart_Loader Axi_Map Scaffold_Sample Support_Sample Bump_Version Vivado_Cdc Drawio_Svg Tcl_Flist
    Deps_Sample Tools_Sample Session
begin

text \<open>
  A verification library for the Python tools of CoreJack, a RISC-V system on chip whose cores and
  boards are described by the descriptors \<^verbatim>\<open>cfg/cores/*.yaml\<close> and \<^verbatim>\<open>cfg/boards/*.yaml\<close>.

  \<^bold>\<open>The program.\<close> The scripts of \<^verbatim>\<open>src/bin\<close> are the program. \<^verbatim>\<open>validate_target.py\<close> reads a core and a
  board descriptor, checks them and resolves the configuration the make flows build with;
  \<^verbatim>\<open>create_core.py\<close> and \<^verbatim>\<open>create_board.py\<close> scaffold new ones and edit the files all targets share;
  \<^verbatim>\<open>render_support_matrix.py\<close> documents the targets; \<^verbatim>\<open>deps_core.py\<close> fetches the sources of a core;
  \<^verbatim>\<open>check_tools.py\<close> looks for the tools a target needs; \<^verbatim>\<open>bump_version.py\<close> keeps the versions of the
  FuseSoC files in step; \<^verbatim>\<open>check_axi_addr_map.py\<close> checks the address map of the top level;
  \<^verbatim>\<open>vivado_tcl_to_flist.py\<close>, \<^verbatim>\<open>check_vivado_warnings.py\<close> and \<^verbatim>\<open>check_vivado_cdc.py\<close> work on what
  Vivado leaves behind; \<^verbatim>\<open>uart_sram_load.py\<close> loads a program through the UART into the device of
  \<^verbatim>\<open>rtl/platform/soc_uart_sram_loader.sv\<close>; \<^verbatim>\<open>postprocess_drawio_svg.py\<close> prepares diagrams.

  \<^bold>\<open>Foundations.\<close>
  \<^item> \<open>Prelude\<close>: outcomes. A script returns, exits with a message (every \<^verbatim>\<open>fail\<close>) or raises; the sum
    type \<open>res\<close> keeps the three apart, \<open>run\<close> adds what was printed and \<open>then_do\<close> the state that an
    aborted script leaves behind. The collection \<open>res_simps\<close> turns a successful run into its conditions.
  \<^item> \<open>Py_Str\<close>, \<open>Py_Int\<close>, \<open>Py_Format\<close>, \<open>Py_Regex\<close>: the string methods, \<^verbatim>\<open>int(x, 0)\<close>, \<^verbatim>\<open>str.format\<close> and the
    regular expressions the scripts use. The matcher lists all matches in the order of a backtracking
    engine, with groups, greedy and lazy repetition; a repetition stops when nothing is consumed.
    Formatting knows conversions and the format specifications of texts, with the one level of fields
    inside a specification that Python expands, and shows which errors are left to a template once
    its field names have been checked.
  \<^item> \<open>Repo\<close>: the checkout as a map from paths to texts, with the contract \<open>text_store\<close> for its clients.

  \<^bold>\<open>Descriptors.\<close> \<open>Yaml_Scan\<close> has the line scanners \<^verbatim>\<open>yaml_path_scalar\<close>, \<^verbatim>\<open>yaml_top_list\<close> and
  \<^verbatim>\<open>yaml_path_list\<close>, in the copies of all scripts. \<open>Yaml_Tree\<close> gives the specification: trees, how they are
  printed, and the contract \<open>descriptor_reader\<close>, which all three readers satisfy. \<open>Yaml_Edit\<close> has
  the list edit of the scaffolds and shows what it inserts, that it is idempotent and where the readers agree.

  \<^bold>\<open>Targets.\<close> \<open>Targets\<close> models \<^verbatim>\<open>load_descriptors\<close>, \<^verbatim>\<open>target_config\<close>, \<^verbatim>\<open>validate\<close> and \<^verbatim>\<open>list_targets\<close>;
  \<open>Checks\<close> models \<^verbatim>\<open>core_check\<close>, \<^verbatim>\<open>board_check\<close>, \<^verbatim>\<open>target_check\<close> and \<^verbatim>\<open>main\<close>. A target that passes its
  check is accepted by \<^verbatim>\<open>validate\<close> for every supported flow; core types are unique; RAM sizes fit
  the banks; the list of targets agrees with \<^verbatim>\<open>validate\<close>. \<open>Support_Matrix\<close> adds the rendered page: it
  is total on a checked tree and its acceptance column agrees with \<^verbatim>\<open>validate\<close>.

  \<^bold>\<open>Scaffolds.\<close> \<open>Scaffold\<close> holds what the two scripts share, \<open>Create_Core\<close> and \<open>Create_Board\<close> model them,
  \<open>Core_Enum\<close> relates the edit of \<^verbatim>\<open>platform_pkg.sv\<close> to a map update, and \<open>Core_Accepted\<close> composes the
  scaffold with \<^verbatim>\<open>core_check\<close>: the new core passes the check its user is told to run. The same is
  false for a board. \<open>Bump_Version\<close> models the version sweep and shows that it does what it says.
  \<open>Session\<close> puts the three scripts that edit the sources of the checkout, \<^verbatim>\<open>create_core.py\<close>,
  \<^verbatim>\<open>create_board.py\<close> and \<^verbatim>\<open>bump_version.py\<close>, under one contract, \<open>script\<close>, and shows that no sequence of
  their runs loses a text: new files appear only where nothing was, and what is edited grows or
  changes its versions. The scripts that replace an output file and \<^verbatim>\<open>deps_core.py\<close> are not part of it.

  \<^bold>\<open>Host and network.\<close> \<open>Deps_Core\<close> has a file system with directories and symbolic links and takes \<^verbatim>\<open>git\<close>
  as a parameter; a fetch ends at the pinned revision, and it succeeds when the network is never away
  for four attempts in a row. What is assumed of \<^verbatim>\<open>git\<close> is named in \<open>git_works\<close>: a new repository has no
  commits, fetching a commit brings that commit, fetching all branches and tags brings the commits
  they reach, and checking out a commit puts its files into the working tree. \<open>Check_Tools\<close> takes the answers of the host as a parameter; the exit
  status is exact and the flows add up.

  \<^bold>\<open>Hardware.\<close> \<open>Uart_Loader\<close> has the host program against the operations of a port, the contract
  \<open>loader_link\<close> of such a port, and the command state machine of the device, with words of the widths
  of the source; together they load an image byte for byte, and an image outside of the address
  space is never started. \<open>Axi_Map\<close> evaluates the parameter
  expressions of the top level and shows that the check accepts exactly the maps without overlap.

  \<^bold>\<open>Reports.\<close> \<open>Vivado_Warnings\<close>, \<open>Vivado_Cdc\<close>, \<open>Tcl_Flist\<close> and \<open>Drawio_Svg\<close> model the text filters: exit
  statuses are exact, globs and the csv reader included, and the flattening of
  \<^verbatim>\<open>light-dark\<close> is described on every text.

  \<^bold>\<open>Samples.\<close> \<open>Sample\<close>, \<open>Scaffold_Sample\<close>, \<open>Support_Sample\<close>, \<open>Deps_Sample\<close> and \<open>Tools_Sample\<close> hold concrete
  checkouts, hosts and a simulated \<^verbatim>\<open>git\<close>, on which the theorems with hypotheses are applied.

  \<^bold>\<open>Bounds.\<close> The functions are total. The operating system behind the serial port is a finite trace of
  its answers, long enough when its clock passes the deadline. Walking a path follows at most forty
  links, as Linux does. The loop over pending parameters stops with the first pass that resolves nothing.

  \<^bold>\<open>Not modelled.\<close> Argument parsers (the records of their results stand for them), the configuration of
  the terminal device, the decoding of invalid UTF-8, permissions and failing writes of the file
  system, directories that cannot be made because a file stands in their way included; attribute and
  item access in a replacement field, such as \<^verbatim>\<open>{core.x}\<close>; \<^verbatim>\<open>docs/source/conf.py\<close>, which only assigns settings; the RTL other than the loader and the
  bit-level receiver and the bus cycles of the loader, which need a hardware semantics; test
  benches, firmware, make files and shell scripts, which call the tools.
\<close>

end
